(* ===== verification/Prelude.thy ===== *)
theory Prelude
  imports Main "HOL-Library.Word"
begin

text \<open>
  Shared vocabulary of the development: machine bytes, the \<open>Result\<close> combinators of
  Rust over Isabelle's sum type (\<open>Inl\<close> is \<open>Err\<close>), the text formatting the sources
  use (\<open>{}\<close> on integers, \<open>{:02x}\<close> on bytes), and the generic lemmas on lists, options
  and words that the component theories share.
\<close>

named_theorems result_simps \<open>rewriting of Result combinators\<close>
named_theorems text_simps \<open>formatting of numbers and bytes\<close>

subsection \<open>Types\<close>

type_synonym byte = "8 word"
type_synonym u32 = "32 word"
type_synonym fd = nat
type_synonym errno = int
type_synonym instant = int
type_synonym duration = int

text \<open>Instants and durations count nanoseconds.\<close>

definition SECOND :: duration where
  "SECOND = 1000000000"

subsection \<open>Result\<close>

text \<open>Rust's \<open>?\<close> and \<open>Result::and_then\<close>: the first error ends the computation.\<close>

definition and_then :: "'e + 'a \<Rightarrow> ('a \<Rightarrow> 'e + 'b) \<Rightarrow> 'e + 'b" where
  "and_then r f = (case r of Inl e \<Rightarrow> Inl e | Inr x \<Rightarrow> f x)"

text \<open>\<open>ensure!(condition, error)\<close> of the sources.\<close>

definition ensure :: "bool \<Rightarrow> 'e \<Rightarrow> 'e + unit" where
  "ensure b e = (if b then Inr () else Inl e)"

text \<open>\<open>Option::transpose\<close> after a mapping: run the step on a present value only.\<close>

definition transpose_map :: "('a \<Rightarrow> 'e + 'b) \<Rightarrow> 'a option \<Rightarrow> 'e + 'b option" where
  "transpose_map f x = (case x of None \<Rightarrow> Inr None
                         | Some v \<Rightarrow> (case f v of Inl e \<Rightarrow> Inl e | Inr w \<Rightarrow> Inr (Some w)))"

definition is_ok :: "'e + 'a \<Rightarrow> bool" where
  "is_ok r = (case r of Inl _ \<Rightarrow> False | Inr _ \<Rightarrow> True)"

subsection \<open>Text\<close>

definition byte_of_char :: "char \<Rightarrow> byte" where
  "byte_of_char c = of_nat (of_char c)"

definition char_of_byte :: "byte \<Rightarrow> char" where
  "char_of_byte b = char_of (unat b)"

text \<open>Decimal notation, as \<open>{}\<close> prints an unsigned or a signed integer.\<close>

fun show_nat :: "nat \<Rightarrow> string" where
  "show_nat n = (if n < 10 then [char_of (48 + n)]
                 else show_nat (n div 10) @ [char_of (48 + n mod 10)])"

declare show_nat.simps [simp del]

definition show_int :: "int \<Rightarrow> string" where
  "show_int i = (if i < 0 then CHR ''-'' # show_nat (nat (- i)) else show_nat (nat i))"

text \<open>Lower-case hexadecimal, as \<open>{:02x}\<close> prints a byte.\<close>

definition hex_digit :: "nat \<Rightarrow> char" where
  "hex_digit n = (if n < 10 then char_of (48 + n) else char_of (87 + n))"

definition hex2 :: "byte \<Rightarrow> string" where
  "hex2 b = [hex_digit (unat b div 16), hex_digit (unat b mod 16)]"

text \<open>\<open>char::to_digit(16)\<close>.\<close>

definition to_digit16 :: "char \<Rightarrow> nat option" where
  "to_digit16 c =
     (let n = of_char c in
      if 48 \<le> n \<and> n \<le> 57 then Some (n - 48)
      else if 97 \<le> n \<and> n \<le> 102 then Some (n - 87)
      else if 65 \<le> n \<and> n \<le> 70 then Some (n - 55)
      else None)"

text \<open>\<open>[String]::join\<close>.\<close>

fun join_strings :: "string \<Rightarrow> string list \<Rightarrow> string" where
  "join_strings sep [] = []"
| "join_strings sep [x] = x"
| "join_strings sep (x # y # ys) = x @ sep @ join_strings sep (y # ys)"

subsection \<open>Lemmas\<close>

lemma and_then_Inl [simp, result_simps]: "and_then (Inl e) f = Inl e"
  by (simp add: and_then_def)

lemma and_then_Inr [simp, result_simps]: "and_then (Inr x) f = f x"
  by (simp add: and_then_def)

lemma and_then_eq_Inr [result_simps]:
  "and_then r f = Inr y \<longleftrightarrow> (\<exists>x. r = Inr x \<and> f x = Inr y)"
  by (auto simp: and_then_def split: sum.splits)

lemma and_then_eq_Inl [result_simps]:
  "and_then r f = Inl e \<longleftrightarrow> r = Inl e \<or> (\<exists>x. r = Inr x \<and> f x = Inl e)"
  by (auto simp: and_then_def split: sum.splits)

lemma ensure_eq_Inr [simp, result_simps]: "ensure b e = Inr u \<longleftrightarrow> b"
  by (simp add: ensure_def)

lemma ensure_eq_Inl [simp, result_simps]: "ensure b e = Inl e' \<longleftrightarrow> \<not> b \<and> e' = e"
  by (auto simp: ensure_def)

lemma ensure_True [simp]: "ensure True e = Inr ()"
  by (simp add: ensure_def)

lemma ensure_False [simp]: "ensure False e = Inl e"
  by (simp add: ensure_def)

lemma transpose_map_None [simp]: "transpose_map f None = Inr None"
  by (simp add: transpose_map_def)

lemma transpose_map_Some [simp]:
  "transpose_map f (Some v) = (case f v of Inl e \<Rightarrow> Inl e | Inr w \<Rightarrow> Inr (Some w))"
  by (simp add: transpose_map_def)

lemma transpose_map_eq_Inr [result_simps]:
  "transpose_map f x = Inr y \<longleftrightarrow>
     (x = None \<and> y = None) \<or> (\<exists>v w. x = Some v \<and> f v = Inr w \<and> y = Some w)"
  by (auto simp: transpose_map_def split: option.splits sum.splits)

lemma is_ok_simps [simp]: "is_ok (Inr x)" "\<not> is_ok (Inl e)"
  by (simp_all add: is_ok_def)

lemma is_ok_iff: "is_ok r \<longleftrightarrow> (\<exists>x. r = Inr x)"
  by (cases r) simp_all

lemma unat_byte_less [simp]: "unat (b :: byte) < 256"
  using unsigned_less [of b] by simp

lemma byte_char_inverse [simp]: "byte_of_char (char_of_byte b) = b"
  by (simp add: byte_of_char_def char_of_byte_def)

lemma char_byte_inverse [simp]: "char_of_byte (byte_of_char c) = c"
proof -
  have "of_char c < (256 :: nat)" by simp
  then have "unat (of_nat (of_char c) :: byte) = of_char c"
    by (simp add: unat_of_nat)
  then show ?thesis by (simp add: byte_of_char_def char_of_byte_def)
qed

lemma of_char_of_byte [simp]: "of_char (char_of_byte b) = unat b"
  by (simp add: char_of_byte_def)

lemma to_digit16_hex_digit [simp, text_simps]:
  assumes "n < 16"
  shows "to_digit16 (hex_digit n) = Some n"
proof (cases "n < 10")
  case True
  then show ?thesis by (simp add: to_digit16_def hex_digit_def Let_def)
next
  case False
  with assms show ?thesis by (simp add: to_digit16_def hex_digit_def Let_def)
qed

lemma to_digit16_bound: "to_digit16 c = Some n \<Longrightarrow> n < 16"
  by (auto simp: to_digit16_def Let_def split: if_splits)

lemma length_hex2 [simp]: "length (hex2 b) = 2"
  by (simp add: hex2_def)

end
