(* ===== verification/Paths.thy ===== *)
theory Paths
  imports Prelude "HOL-Library.Sublist" "HOL-Library.Char_ord" "HOL-Library.List_Lexorder"
begin

text \<open>
  The part of Rust's \<open>std::path\<close> (on Unix) and \<open>std::fs\<close> the sources use. A path is
  the list of its components, which is what \<open>Path\<close> compares, orders and hashes by;
  \<open>components\<close> parses the text. The file system is a record of the answers the operating
  system gives, an argument of every definition that looks at it.
\<close>

datatype component = RootDir | CurDir | ParentDir | Normal string

type_synonym path = "component list"

subsection \<open>Order\<close>

text \<open>The derived order of \<open>Component\<close>, by which directory listings are sorted.\<close>

fun component_rank :: "component \<Rightarrow> nat" where
  "component_rank RootDir = 0"
| "component_rank CurDir = 1"
| "component_rank ParentDir = 2"
| "component_rank (Normal _) = 3"

fun component_text :: "component \<Rightarrow> string" where
  "component_text (Normal s) = s"
| "component_text _ = []"

lemma component_eqI:
  "component_rank c = component_rank d \<Longrightarrow> component_text c = component_text d \<Longrightarrow> c = d"
  by (cases c; cases d) simp_all

instantiation component :: linorder
begin

definition less_eq_component :: "component \<Rightarrow> component \<Rightarrow> bool" where
  "less_eq_component c d = (component_rank c < component_rank d
     \<or> component_rank c = component_rank d \<and> component_text c \<le> component_text d)"

definition less_component :: "component \<Rightarrow> component \<Rightarrow> bool" where
  "less_component c d = (c \<le> d \<and> \<not> d \<le> (c :: component))"

instance
  by intro_classes
    (auto simp: less_eq_component_def less_component_def intro: component_eqI)

end

subsection \<open>Parsing\<close>

fun split_on :: "char \<Rightarrow> string \<Rightarrow> string list" where
  "split_on sep [] = [[]]"
| "split_on sep (c # cs) =
     (if c = sep then [] # split_on sep cs
      else case split_on sep cs of [] \<Rightarrow> [[c]] | s # ss \<Rightarrow> (c # s) # ss)"

definition component_of :: "string \<Rightarrow> component" where
  "component_of s = (if s = ''..'' then ParentDir else Normal s)"

text \<open>
  \<open>Path::components\<close>: repeated separators and interior \<open>.\<close> disappear, a leading \<open>.\<close> of a
  relative path stays.
\<close>

definition components :: "string \<Rightarrow> path" where
  "components s =
     (let names = map component_of (filter (\<lambda>x. x \<noteq> [] \<and> x \<noteq> ''.'') (split_on (CHR ''/'') s))
      in if s \<noteq> [] \<and> hd s = CHR ''/'' then RootDir # names
         else if hd (split_on (CHR ''/'') s) = ''.'' then CurDir # names
         else names)"

subsection \<open>Operations\<close>

definition is_absolute :: "path \<Rightarrow> bool" where
  "is_absolute p = (case p of RootDir # _ \<Rightarrow> True | _ \<Rightarrow> False)"

text \<open>\<open>Path::join\<close>: an absolute argument replaces the base.\<close>

definition join_path :: "path \<Rightarrow> path \<Rightarrow> path" where
  "join_path p q =
     (if is_absolute q then q
      else if p = [] then q
      else p @ (case q of CurDir # q' \<Rightarrow> q' | _ \<Rightarrow> q))"

definition starts_with :: "path \<Rightarrow> path \<Rightarrow> bool" where
  "starts_with p base = prefix base p"

definition strip_prefix :: "path \<Rightarrow> path \<Rightarrow> path option" where
  "strip_prefix p base = (if prefix base p then Some (drop (length base) p) else None)"

definition parent :: "path \<Rightarrow> path option" where
  "parent p = (if p = [] \<or> last p = RootDir then None else Some (butlast p))"

definition file_name :: "path \<Rightarrow> string option" where
  "file_name p = (if p = [] then None else case last p of Normal s \<Rightarrow> Some s | _ \<Rightarrow> None)"

text \<open>The text of a path, one separator between components.\<close>

fun show_component :: "component \<Rightarrow> string" where
  "show_component RootDir = []"
| "show_component CurDir = ''.''"
| "show_component ParentDir = ''..''"
| "show_component (Normal s) = s"

definition show_path :: "path \<Rightarrow> string" where
  "show_path p = (if p = [RootDir] then ''/''
                  else join_strings ''/'' (map show_component p))"

subsection \<open>The file system\<close>

datatype io_error = NotFound | PermissionDenied | OtherIo string

record fs_view =
  fs_canonicalize :: "path \<Rightarrow> io_error + path"
  fs_is_file :: "path \<Rightarrow> bool"
  fs_is_dir :: "path \<Rightarrow> bool"
  fs_read :: "path \<Rightarrow> io_error + byte list"
  fs_read_to_string :: "path \<Rightarrow> io_error + string"

subsection \<open>Lemmas\<close>

lemma split_on_not_Nil [simp]: "split_on sep cs \<noteq> []"
  by (cases cs) (simp_all split: list.splits)

lemma starts_with_refl [simp]: "starts_with p p"
  by (simp add: starts_with_def)

lemma starts_with_trans: "starts_with p q \<Longrightarrow> starts_with q r \<Longrightarrow> starts_with p r"
  unfolding starts_with_def by (rule prefix_order.trans)

lemma strip_prefix_Some: "strip_prefix p base = Some r \<longleftrightarrow> p = base @ r"
  by (auto simp: strip_prefix_def prefix_def)

lemma strip_prefix_starts_with: "strip_prefix p base \<noteq> None \<longleftrightarrow> starts_with p base"
  by (simp add: strip_prefix_def starts_with_def)

lemma join_path_relative:
  assumes "\<not> is_absolute q" and "p \<noteq> []"
  shows "starts_with (join_path p q) p"
  using assms by (simp add: join_path_def starts_with_def)

lemma set_join_path: "set (join_path p q) \<subseteq> set p \<union> set q"
  by (auto simp: join_path_def split: list.splits component.splits)

lemma join_path_strip:
  "\<not> is_absolute r \<Longrightarrow> CurDir \<notin> set r \<Longrightarrow> p \<noteq> [] \<Longrightarrow> strip_prefix (join_path p r) p = Some r"
  by (auto simp: strip_prefix_Some join_path_def split: list.splits component.splits)

lemma components_rooted: "RootDir \<in> set (components s) \<longleftrightarrow> is_absolute (components s)"
  by (auto simp: components_def is_absolute_def Let_def component_of_def
      split: list.splits component.splits if_splits)

lemma components_no_interior_curdir:
  "components s = c # cs \<Longrightarrow> CurDir \<notin> set cs"
  by (auto simp: components_def Let_def component_of_def split: if_splits)

lemma split_on_absent: "sep \<notin> set s \<Longrightarrow> split_on sep s = [s]"
  by (induction s) auto

lemma split_on_append: "sep \<notin> set s \<Longrightarrow> split_on sep (s @ sep # rest) = s # split_on sep rest"
  by (induction s) auto

lemma split_on_join:
  "xs \<noteq> [] \<Longrightarrow> \<forall>x \<in> set xs. sep \<notin> set x \<Longrightarrow> split_on sep (join_strings [sep] xs) = xs"
  by (induction "[sep]" xs rule: join_strings.induct) (auto simp: split_on_absent split_on_append)

subsection \<open>Paths as they are printed and read\<close>

text \<open>The paths \<open>components\<close> gives: a root or a leading dot, then names and dots up.\<close>

definition name_ok :: "component \<Rightarrow> bool" where
  "name_ok c =
     (case c of
        Normal n \<Rightarrow> n \<noteq> [] \<and> n \<noteq> ''.'' \<and> n \<noteq> ''..'' \<and> CHR ''/'' \<notin> set n
      | ParentDir \<Rightarrow> True
      | _ \<Rightarrow> False)"

definition path_ok :: "path \<Rightarrow> bool" where
  "path_ok p = list_all name_ok (case p of RootDir # q \<Rightarrow> q | CurDir # q \<Rightarrow> q | _ \<Rightarrow> p)"

lemma set_split_on: "x \<in> set (split_on sep s) \<Longrightarrow> sep \<notin> set x"
  by (induction s arbitrary: x) (auto split: if_splits list.splits)

lemma path_ok_components: "path_ok (components s)"
proof -
  let ?names = "map component_of (filter (\<lambda>x. x \<noteq> [] \<and> x \<noteq> ''.'') (split_on (CHR ''/'') s))"
  have names: "list_all name_ok ?names"
    by (auto simp: list_all_iff name_ok_def component_of_def dest: set_split_on)
  then have "?names \<noteq> RootDir # q" "?names \<noteq> CurDir # q" for q
    by (auto simp: name_ok_def)
  then have "path_ok ?names" using names by (auto simp: path_ok_def split: list.splits component.splits)
  with names show ?thesis by (auto simp: components_def Let_def path_ok_def)
qed

lemma name_ok_shown:
  assumes "name_ok c"
  shows "component_of (show_component c) = c" "show_component c \<noteq> []" "show_component c \<noteq> ''.''"
    "CHR ''/'' \<notin> set (show_component c)" "c \<noteq> RootDir" "c \<noteq> CurDir"
  using assms by (cases c; auto simp: name_ok_def component_of_def)+

lemma names_shown:
  assumes "list_all name_ok q"
  shows "map component_of (filter (\<lambda>x. x \<noteq> [] \<and> x \<noteq> ''.'') (map show_component q)) = q"
proof -
  have "filter (\<lambda>x. x \<noteq> [] \<and> x \<noteq> ''.'') (map show_component q) = map show_component q"
    using assms by (intro filter_True) (auto simp: list_all_iff name_ok_shown)
  moreover have "map (component_of \<circ> show_component) q = q"
    using assms by (intro map_idI) (auto simp: list_all_iff name_ok_shown)
  ultimately show ?thesis by simp
qed

lemma hd_join_strings: "x \<noteq> [] \<Longrightarrow> hd (join_strings sep (x # xs)) = hd x"
  by (cases xs) simp_all

lemma components_shown:
  assumes "split_on (CHR ''/'') s = map show_component (c # q)" "list_all name_ok q"
    and "s \<noteq> []" "c = RootDir \<Longrightarrow> hd s = CHR ''/''" "c \<noteq> RootDir \<Longrightarrow> hd s \<noteq> CHR ''/''"
    and "c = RootDir \<or> c = CurDir \<or> name_ok c"
  shows "components s = c # q"
  using assms(6)
proof (elim disjE)
  assume "name_ok c"
  with assms names_shown [of "c # q"] show ?thesis by (simp add: components_def name_ok_shown)
qed (use assms names_shown [of q] in \<open>simp_all add: components_def\<close>)

lemma components_show_path:
  assumes "path_ok p"
  shows "components (show_path p) = p"
proof (cases p)
  case (Cons c q)
  have q: "list_all name_ok q" and c: "c = RootDir \<or> c = CurDir \<or> name_ok c"
    using assms Cons by (auto simp: path_ok_def split: component.splits)
  show ?thesis
  proof (cases "p = [RootDir]")
    case False
    let ?s = "join_strings ''/'' (map show_component p)"
    have "\<forall>x \<in> set (map show_component p). CHR ''/'' \<notin> set x"
      using q c Cons by (auto simp: list_all_iff name_ok_shown)
    then have split: "split_on (CHR ''/'') ?s = map show_component (c # q)"
      using split_on_join [of "map show_component p"] Cons by simp
    have root: "c = RootDir \<Longrightarrow> ?s \<noteq> [] \<and> hd ?s = CHR ''/''"
      using False Cons by (cases q) simp_all
    have other: "?s \<noteq> [] \<and> hd ?s \<noteq> CHR ''/''" if "c \<noteq> RootDir"
    proof -
      have shown: "show_component c \<noteq> []" "CHR ''/'' \<notin> set (show_component c)"
        using c that by (auto simp: name_ok_shown)
      then have "hd (show_component c) \<noteq> CHR ''/''" using hd_in_set by metis
      with shown show ?thesis
        using hd_join_strings [of "show_component c" "''/''" "map show_component q"] Cons
        by (cases "map show_component q") auto
    qed
    have "components ?s = c # q"
      by (rule components_shown [OF split q _ _ _ c]) (use root other in blast)+
    then show ?thesis using False Cons by (auto simp: show_path_def)
  qed (simp add: show_path_def components_def)
qed (simp add: components_def show_path_def)

end
