(* ===== verification/Manifest.thy ===== *)
theory Manifest
  imports Paths
begin

text \<open>
  Service package manifests (\<open>src/crates/servicecache/src/manifest.rs\<close>): the validated
  manifest, the tables as \<open>toml\<close> parses them, the byte-string notation of readiness
  probes, and \<open>Manifest::load\<close> with its path checks. The TOML parser and the regular
  expression compiler are third-party code and arguments of \<open>load\<close>; a compiled pattern is
  its \<open>is_match\<close>.
\<close>

subsection \<open>Data\<close>

record service =
  sv_name :: string
  sv_version :: string
  sv_extensions :: "string list"

record ready_probe =
  rp_send :: "byte list"
  rp_matches :: "byte list \<Rightarrow> bool"

record prepare =
  pr_fs :: "(path \<times> path) list"
  pr_module :: "path option"
  pr_args :: "string list"
  pr_stdin_file :: "path option"

record guest =
  gs_module :: path
  gs_args :: "string list"
  gs_listen_port :: nat
  gs_ready :: "ready_probe option"

record initializer =
  in_module :: path
  in_args :: "string list"

record manifest =
  mf_service :: service
  mf_prepare :: "prepare option"
  mf_guest :: guest
  mf_initializer :: "initializer option"
  mf_directory :: path

text \<open>The tables before validation. \<open>rw_fs\<close> lists the \<open>BTreeMap\<close> in key order.\<close>

record raw_prepare =
  rw_fs :: "(path \<times> path) list"
  rw_module :: "path option"
  rw_args :: "string list"
  rw_stdin_file :: "path option"

record raw_probe =
  rw_send :: string
  rw_matches :: string

record raw_guest =
  rg_module :: path
  rg_args :: "string list"
  rg_listen_port :: nat
  rg_ready :: "raw_probe option"

record raw_initializer =
  ri_module :: path
  ri_args :: "string list"

record raw_manifest =
  rm_service :: service
  rm_prepare :: "raw_prepare option"
  rm_guest :: raw_guest
  rm_initializer :: "raw_initializer option"

datatype byte_string_error =
    HexDigitsNeeded
  | UnsupportedEscape "char option"
  | UnsupportedCharacter char

datatype manifest_error =
    ReadFailed path io_error
  | ParseFailed path
  | NoParentDirectory
  | DirectoryUnresolved path io_error
  | EmptyName
  | EmptyVersion
  | MountNotAbsolute path
  | MountHasParentDir path
  | NotPlainRelative string path
  | NotADirectory path
  | NotAFile string path
  | Unresolved string path io_error
  | ResolvesOutside string path
  | BadProbeSend byte_string_error
  | BadProbePattern

subsection \<open>Byte strings\<close>

definition backslash :: char where
  "backslash = CHR 0x5C"

fun decode_byte_string :: "string \<Rightarrow> byte_string_error + byte list" where
  "decode_byte_string [] = Inr []"
| "decode_byte_string (ch # rest) =
     (if ch = backslash then
        (case rest of
           [] \<Rightarrow> Inl (UnsupportedEscape None)
         | c # rest1 \<Rightarrow>
             if c = backslash
             then and_then (decode_byte_string rest1) (\<lambda>bs. Inr (byte_of_char backslash # bs))
             else if c = CHR ''x''
             then (case rest1 of
                     h # l # rest2 \<Rightarrow>
                       (case (to_digit16 h, to_digit16 l) of
                          (Some high, Some low) \<Rightarrow>
                            and_then (decode_byte_string rest2)
                              (\<lambda>bs. Inr (of_nat (high * 16 + low) # bs))
                        | _ \<Rightarrow> Inl HexDigitsNeeded)
                   | _ \<Rightarrow> Inl HexDigitsNeeded)
             else Inl (UnsupportedEscape (Some c)))
      else if 32 \<le> (of_char ch :: nat) \<and> (of_char ch :: nat) \<le> 126
      then and_then (decode_byte_string rest) (\<lambda>bs. Inr (byte_of_char ch # bs))
      else Inl (UnsupportedCharacter ch))"

subsection \<open>Package paths\<close>

definition reject_escape :: "path \<Rightarrow> string \<Rightarrow> manifest_error + unit" where
  "reject_escape p description =
     (if list_all (\<lambda>c. case c of Normal _ \<Rightarrow> True | CurDir \<Rightarrow> True | _ \<Rightarrow> False) p then Inr ()
      else Inl (NotPlainRelative description p))"

definition ensure_contained ::
  "fs_view \<Rightarrow> path \<Rightarrow> path \<Rightarrow> string \<Rightarrow> manifest_error + unit" where
  "ensure_contained fs resolved canonical_directory description =
     (case fs_canonicalize fs resolved of
        Inl e \<Rightarrow> Inl (Unresolved description resolved e)
      | Inr canonical \<Rightarrow>
          ensure (starts_with canonical canonical_directory) (ResolvesOutside description resolved))"

definition resolve_file ::
  "fs_view \<Rightarrow> path \<Rightarrow> path \<Rightarrow> path \<Rightarrow> string \<Rightarrow> manifest_error + path" where
  "resolve_file fs directory canonical p description =
     and_then (reject_escape p description) (\<lambda>_.
       let resolved = join_path directory p in
       and_then (ensure (fs_is_file fs resolved) (NotAFile description resolved)) (\<lambda>_.
       and_then (ensure_contained fs resolved canonical description) (\<lambda>_.
         Inr resolved)))"

definition resolve_module ::
  "fs_view \<Rightarrow> path \<Rightarrow> path \<Rightarrow> path \<Rightarrow> string \<Rightarrow> manifest_error + path" where
  "resolve_module fs directory canonical p description =
     resolve_file fs directory canonical p description"

fun resolve_mounts ::
  "fs_view \<Rightarrow> path \<Rightarrow> path \<Rightarrow> (path \<times> path) list \<Rightarrow> manifest_error + (path \<times> path) list" where
  "resolve_mounts fs directory canonical [] = Inr []"
| "resolve_mounts fs directory canonical ((guest, source) # mounts) =
     and_then (ensure (is_absolute guest) (MountNotAbsolute guest)) (\<lambda>_.
     and_then (ensure (ParentDir \<notin> set guest) (MountHasParentDir guest)) (\<lambda>_.
     and_then (reject_escape source ''prepare mount source'') (\<lambda>_.
       let resolved = join_path directory source in
       and_then (ensure (fs_is_dir fs resolved) (NotADirectory resolved)) (\<lambda>_.
       and_then (ensure_contained fs resolved canonical ''prepare mount source'') (\<lambda>_.
       and_then (resolve_mounts fs directory canonical mounts) (\<lambda>rest.
         Inr ((guest, resolved) # rest)))))))"

definition resolve_prepare ::
  "fs_view \<Rightarrow> path \<Rightarrow> path \<Rightarrow> raw_prepare \<Rightarrow> manifest_error + prepare" where
  "resolve_prepare fs directory canonical raw =
     and_then (resolve_mounts fs directory canonical (rw_fs raw)) (\<lambda>mounts.
     and_then (transpose_map (\<lambda>p. resolve_module fs directory canonical p ''prepare module'')
                 (rw_module raw)) (\<lambda>module.
     and_then (transpose_map (\<lambda>p. resolve_file fs directory canonical p ''prepare stdin file'')
                 (rw_stdin_file raw)) (\<lambda>stdin_file.
       Inr \<lparr>pr_fs = mounts, pr_module = module, pr_args = rw_args raw,
            pr_stdin_file = stdin_file\<rparr>)))"

subsection \<open>Manifest::load\<close>

definition load_probe ::
  "(string \<Rightarrow> (byte list \<Rightarrow> bool) option) \<Rightarrow> raw_probe \<Rightarrow> manifest_error + ready_probe" where
  "load_probe regex_new probe =
     (case decode_byte_string (rw_send probe) of
        Inl e \<Rightarrow> Inl (BadProbeSend e)
      | Inr send \<Rightarrow>
          (case regex_new (rw_matches probe) of
             None \<Rightarrow> Inl BadProbePattern
           | Some matches \<Rightarrow> Inr \<lparr>rp_send = send, rp_matches = matches\<rparr>))"

definition load_tables ::
  "(string \<Rightarrow> (byte list \<Rightarrow> bool) option) \<Rightarrow> fs_view \<Rightarrow> path \<Rightarrow> path \<Rightarrow> raw_manifest
     \<Rightarrow> manifest_error + manifest" where
  "load_tables regex_new fs directory canonical raw =
     and_then (ensure (sv_name (rm_service raw) \<noteq> []) EmptyName) (\<lambda>_.
     and_then (ensure (sv_version (rm_service raw) \<noteq> []) EmptyVersion) (\<lambda>_.
     and_then (transpose_map (resolve_prepare fs directory canonical) (rm_prepare raw)) (\<lambda>prepare.
     and_then (resolve_module fs directory canonical (rg_module (rm_guest raw)) ''guest module'')
       (\<lambda>module.
     and_then (transpose_map (load_probe regex_new) (rg_ready (rm_guest raw))) (\<lambda>ready.
     and_then (transpose_map (\<lambda>table.
                 and_then (resolve_module fs directory canonical (ri_module table)
                             ''initializer module'') (\<lambda>module.
                   Inr \<lparr>in_module = module, in_args = ri_args table\<rparr>))
                 (rm_initializer raw)) (\<lambda>initializer.
       Inr \<lparr>mf_service = rm_service raw,
            mf_prepare = prepare,
            mf_guest = \<lparr>gs_module = module, gs_args = rg_args (rm_guest raw),
                        gs_listen_port = rg_listen_port (rm_guest raw), gs_ready = ready\<rparr>,
            mf_initializer = initializer,
            mf_directory = directory\<rparr>))))))"

definition load ::
  "(string \<Rightarrow> raw_manifest option) \<Rightarrow> (string \<Rightarrow> (byte list \<Rightarrow> bool) option) \<Rightarrow> fs_view \<Rightarrow> path
     \<Rightarrow> manifest_error + manifest" where
  "load toml regex_new fs p =
     (case fs_read_to_string fs p of
        Inl e \<Rightarrow> Inl (ReadFailed p e)
      | Inr contents \<Rightarrow>
          (case toml contents of
             None \<Rightarrow> Inl (ParseFailed p)
           | Some raw \<Rightarrow>
               (case parent p of
                  None \<Rightarrow> Inl NoParentDirectory
                | Some directory \<Rightarrow>
                    (case fs_canonicalize fs directory of
                       Inl e \<Rightarrow> Inl (DirectoryUnresolved directory e)
                     | Inr canonical \<Rightarrow> load_tables regex_new fs directory canonical raw))))"

definition modules :: "manifest \<Rightarrow> path list" where
  "modules m =
     (case mf_prepare m of
        Some table \<Rightarrow> (case pr_module table of Some module \<Rightarrow> [module] | None \<Rightarrow> [])
      | None \<Rightarrow> [])
     @ [gs_module (mf_guest m)]
     @ (case mf_initializer m of Some table \<Rightarrow> [in_module table] | None \<Rightarrow> [])"

definition read_stdin :: "fs_view \<Rightarrow> prepare \<Rightarrow> io_error + byte list" where
  "read_stdin fs p =
     (case pr_stdin_file p of None \<Rightarrow> Inr [] | Some file \<Rightarrow> fs_read fs file)"


subsection \<open>What a valid package is\<close>

text \<open>
  The contract of \<open>load\<close>, written without its order of checks: a package path is plain and
  relative, and what it names resolves under the package directory.
\<close>

definition plain :: "path \<Rightarrow> bool" where
  "plain p = (RootDir \<notin> set p \<and> ParentDir \<notin> set p)"

definition contained :: "fs_view \<Rightarrow> path \<Rightarrow> path \<Rightarrow> bool" where
  "contained fs canonical p =
     (case fs_canonicalize fs p of Inl _ \<Rightarrow> False | Inr c \<Rightarrow> starts_with c canonical)"

definition package_file :: "fs_view \<Rightarrow> path \<Rightarrow> path \<Rightarrow> path \<Rightarrow> bool" where
  "package_file fs directory canonical p =
     (plain p \<and> fs_is_file fs (join_path directory p) \<and> contained fs canonical (join_path directory p))"

definition package_mount :: "fs_view \<Rightarrow> path \<Rightarrow> path \<Rightarrow> path \<times> path \<Rightarrow> bool" where
  "package_mount fs directory canonical = (\<lambda>(guest, source).
     is_absolute guest \<and> ParentDir \<notin> set guest \<and> plain source
     \<and> fs_is_dir fs (join_path directory source)
     \<and> contained fs canonical (join_path directory source))"

definition pred_option_or :: "('a \<Rightarrow> bool) \<Rightarrow> 'a option \<Rightarrow> bool" where
  "pred_option_or P x = (case x of None \<Rightarrow> True | Some v \<Rightarrow> P v)"

definition package_valid ::
  "(string \<Rightarrow> (byte list \<Rightarrow> bool) option) \<Rightarrow> fs_view \<Rightarrow> path \<Rightarrow> path \<Rightarrow> raw_manifest \<Rightarrow> bool" where
  "package_valid regex_new fs directory canonical raw =
     (sv_name (rm_service raw) \<noteq> [] \<and> sv_version (rm_service raw) \<noteq> []
      \<and> pred_option_or (\<lambda>t. list_all (package_mount fs directory canonical) (rw_fs t)
          \<and> pred_option_or (package_file fs directory canonical) (rw_module t)
          \<and> pred_option_or (package_file fs directory canonical) (rw_stdin_file t)) (rm_prepare raw)
      \<and> package_file fs directory canonical (rg_module (rm_guest raw))
      \<and> pred_option_or (\<lambda>t. is_ok (decode_byte_string (rw_send t)) \<and> regex_new (rw_matches t) \<noteq> None)
          (rg_ready (rm_guest raw))
      \<and> pred_option_or (\<lambda>t. package_file fs directory canonical (ri_module t)) (rm_initializer raw))"

text \<open>Every path of the package a loaded manifest uses: files, then mount sources.\<close>

definition package_files :: "manifest \<Rightarrow> path list" where
  "package_files m = modules m @
     (case mf_prepare m of None \<Rightarrow> []
      | Some t \<Rightarrow> (case pr_stdin_file t of None \<Rightarrow> [] | Some f \<Rightarrow> [f]))"

definition package_mounts :: "manifest \<Rightarrow> (path \<times> path) list" where
  "package_mounts m = (case mf_prepare m of None \<Rightarrow> [] | Some t \<Rightarrow> pr_fs t)"

text \<open>A package at \<open>/pkg\<close> with one symbolic link, \<open>/pkg/out\<close>, that leaves it.\<close>

definition demo_directory :: path where
  "demo_directory = [RootDir, Normal ''pkg'']"

definition demo_fs :: fs_view where
  "demo_fs =
     \<lparr>fs_canonicalize = (\<lambda>p. Inr (if p = demo_directory @ [Normal ''out''] then [RootDir, Normal ''etc''] else p)),
      fs_is_file = (\<lambda>p. p \<noteq> [] \<and> last p \<noteq> Normal ''data''),
      fs_is_dir = (\<lambda>p. p \<noteq> [] \<and> last p = Normal ''data''),
      fs_read = (\<lambda>_. Inr []),
      fs_read_to_string = (\<lambda>_. Inr [])\<rparr>"

definition demo_raw :: raw_manifest where
  "demo_raw =
     \<lparr>rm_service = \<lparr>sv_name = ''redis'', sv_version = ''7'', sv_extensions = []\<rparr>,
      rm_prepare = Some \<lparr>rw_fs = [([RootDir, Normal ''data''], [Normal ''data''])],
                         rw_module = Some [Normal ''init.wasm''], rw_args = [], rw_stdin_file = None\<rparr>,
      rm_guest = \<lparr>rg_module = [CurDir, Normal ''redis.wasm''], rg_args = [], rg_listen_port = 6379,
                  rg_ready = Some \<lparr>rw_send = ''PING'', rw_matches = ''PONG''\<rparr>\<rparr>,
      rm_initializer = None\<rparr>"

subsection \<open>Lemmas\<close>

lemma pred_option_or_simps [simp]:
  "pred_option_or P None" "pred_option_or P (Some v) = P v"
  by (simp_all add: pred_option_or_def)

lemma transpose_map_ok: "is_ok (transpose_map f x) = pred_option_or (\<lambda>v. is_ok (f v)) x"
  by (cases x) (simp_all add: is_ok_def split: sum.splits)

lemma plain_components:
  "list_all (\<lambda>c. case c of Normal _ \<Rightarrow> True | CurDir \<Rightarrow> True | _ \<Rightarrow> False) p = plain p"
  by (induction p) (auto simp: plain_def split: component.splits)

lemma reject_escape_Inr [simp]: "reject_escape p d = Inr u \<longleftrightarrow> plain p"
  by (simp add: reject_escape_def plain_components)

lemma ensure_contained_Inr [simp]:
  "ensure_contained fs q canonical d = Inr u \<longleftrightarrow> contained fs canonical q"
  by (simp add: ensure_contained_def contained_def split: sum.splits)

lemma contained_iff:
  "contained fs canonical q \<longleftrightarrow> (\<exists>c. fs_canonicalize fs q = Inr c \<and> starts_with c canonical)"
  by (simp add: contained_def split: sum.splits)

lemma resolve_file_Inr:
  "resolve_file fs directory canonical p d = Inr q \<longleftrightarrow>
     package_file fs directory canonical p \<and> q = join_path directory p"
  by (auto simp: resolve_file_def package_file_def result_simps Let_def)

lemma resolve_file_ok:
  "is_ok (resolve_file fs directory canonical p d) = package_file fs directory canonical p"
  by (simp add: is_ok_iff resolve_file_Inr)

lemma resolve_mounts_Inr:
  "resolve_mounts fs directory canonical ms = Inr rs \<longleftrightarrow>
     list_all (package_mount fs directory canonical) ms
     \<and> rs = map (\<lambda>(g, s). (g, join_path directory s)) ms"
  by (induction ms arbitrary: rs)
    (auto simp: package_mount_def result_simps Let_def split: prod.splits)

lemma load_probe_ok:
  "is_ok (load_probe regex_new t) \<longleftrightarrow>
     is_ok (decode_byte_string (rw_send t)) \<and> regex_new (rw_matches t) \<noteq> None"
  by (auto simp: load_probe_def is_ok_def split: sum.splits option.splits)

lemma is_ok_and_then: "is_ok (and_then r f) \<longleftrightarrow> (\<exists>x. r = Inr x \<and> is_ok (f x))"
  by (cases r) simp_all

lemma resolve_prepare_ok:
  "is_ok (resolve_prepare fs directory canonical t) \<longleftrightarrow>
     list_all (package_mount fs directory canonical) (rw_fs t)
     \<and> pred_option_or (package_file fs directory canonical) (rw_module t)
     \<and> pred_option_or (package_file fs directory canonical) (rw_stdin_file t)"
  by (auto simp: resolve_prepare_def resolve_module_def is_ok_and_then resolve_mounts_Inr
      result_simps resolve_file_Inr pred_option_or_def split: option.splits)

lemma resolve_prepare_Inr:
  assumes "resolve_prepare fs directory canonical t = Inr r"
  shows "list_all (package_mount fs directory canonical) (rw_fs t)"
    and "pr_fs r = map (\<lambda>(g, s). (g, join_path directory s)) (rw_fs t)"
    and "\<And>q. pr_module r = Some q \<Longrightarrow> \<exists>p. package_file fs directory canonical p \<and> q = join_path directory p"
    and "\<And>q. pr_stdin_file r = Some q \<Longrightarrow> \<exists>p. package_file fs directory canonical p \<and> q = join_path directory p"
  using assms by (auto simp: resolve_prepare_def resolve_module_def result_simps resolve_mounts_Inr resolve_file_Inr)


lemma load_tables_ok:
  "is_ok (load_tables regex_new fs directory canonical raw)
     = package_valid regex_new fs directory canonical raw"
proof -
  have initializer: "is_ok (transpose_map (\<lambda>table.
      and_then (resolve_module fs directory canonical (ri_module table) ''initializer module'')
        (\<lambda>module. Inr \<lparr>in_module = module, in_args = ri_args table\<rparr>)) x)
      = pred_option_or (\<lambda>t. package_file fs directory canonical (ri_module t)) x" for x
    by (simp add: transpose_map_ok is_ok_and_then resolve_module_def resolve_file_Inr)
  have prepare: "is_ok (transpose_map (resolve_prepare fs directory canonical) x)
      = pred_option_or (\<lambda>t. is_ok (resolve_prepare fs directory canonical t)) x" for x
    by (rule transpose_map_ok)
  have probe: "is_ok (transpose_map (load_probe regex_new) x)
      = pred_option_or (\<lambda>t. is_ok (load_probe regex_new t)) x" for x
    by (rule transpose_map_ok)
  show ?thesis
    unfolding load_tables_def package_valid_def is_ok_and_then resolve_module_def resolve_file_Inr
    using initializer [of "rm_initializer raw"] prepare [of "rm_prepare raw"]
      probe [of "rg_ready (rm_guest raw)"]
    by (auto simp: is_ok_iff [of "transpose_map _ _"] resolve_prepare_ok load_probe_ok
        resolve_module_def)
qed

lemma load_Inr:
  "load toml regex_new fs p = Inr m \<longleftrightarrow>
     (\<exists>contents raw directory canonical.
        fs_read_to_string fs p = Inr contents \<and> toml contents = Some raw
        \<and> parent p = Some directory \<and> fs_canonicalize fs directory = Inr canonical
        \<and> load_tables regex_new fs directory canonical raw = Inr m)"
  by (auto simp: load_def split: sum.splits option.splits)

lemma load_tables_files:
  assumes "load_tables regex_new fs directory canonical raw = Inr m"
    and "q \<in> set (package_files m)"
  shows "\<exists>p. package_file fs directory canonical p \<and> q = join_path directory p"
proof -
  have prep: "\<And>t. mf_prepare m = Some t \<Longrightarrow>
      \<exists>r. resolve_prepare fs directory canonical r = Inr t"
    using assms(1) by (auto simp: load_tables_def result_simps)
  have guest: "\<exists>p. package_file fs directory canonical p \<and> gs_module (mf_guest m) = join_path directory p"
    using assms(1) by (auto simp: load_tables_def result_simps resolve_module_def resolve_file_Inr)
  have initz: "\<And>t. mf_initializer m = Some t \<Longrightarrow>
      \<exists>p. package_file fs directory canonical p \<and> in_module t = join_path directory p"
    using assms(1) by (clarsimp simp: load_tables_def result_simps resolve_module_def resolve_file_Inr) blast
  show ?thesis
    using assms(2) guest initz resolve_prepare_Inr(3,4) [OF prep [THEN someI_ex]]
    by (auto simp: package_files_def modules_def split: option.splits dest!: sym [of "Some _"])
qed

lemma load_tables_mounts:
  assumes "load_tables regex_new fs directory canonical raw = Inr m"
    and "(g, q) \<in> set (package_mounts m)"
  shows "\<exists>p. package_mount fs directory canonical (g, p) \<and> q = join_path directory p"
proof -
  obtain t r where "resolve_prepare fs directory canonical r = Inr t" "(g, q) \<in> set (pr_fs t)"
    using assms by (auto simp: load_tables_def result_simps package_mounts_def)
  then show ?thesis
    using resolve_prepare_Inr(1,2) by (fastforce simp: list_all_iff)
qed

lemma load_tables_directory:
  "load_tables regex_new fs directory canonical raw = Inr m \<Longrightarrow> mf_directory m = directory"
  by (auto simp: load_tables_def result_simps)

subsection \<open>Properties\<close>

text \<open>
  C38: A manifest that loads uses nothing outside its package. Every module, the prepare
  standard input and every mount source is the package directory joined with a path that has
  neither a root nor a parent component, is a file (a directory, for a mount), and its
  canonical path, symbolic links resolved, lies under the canonical package directory. Every
  mount point is absolute and has no parent component.\<close>

theorem loaded_package_contained:
  assumes "load toml regex_new fs p = Inr m"
  shows "\<exists>canonical. parent p = Some (mf_directory m)
    \<and> fs_canonicalize fs (mf_directory m) = Inr canonical
    \<and> (\<forall>q \<in> set (package_files m).
         (\<exists>r. RootDir \<notin> set r \<and> ParentDir \<notin> set r \<and> q = join_path (mf_directory m) r)
         \<and> fs_is_file fs q
         \<and> (\<exists>c. fs_canonicalize fs q = Inr c \<and> starts_with c canonical))
    \<and> (\<forall>(g, q) \<in> set (package_mounts m).
         is_absolute g \<and> ParentDir \<notin> set g
         \<and> (\<exists>r. RootDir \<notin> set r \<and> ParentDir \<notin> set r \<and> q = join_path (mf_directory m) r)
         \<and> fs_is_dir fs q
         \<and> (\<exists>c. fs_canonicalize fs q = Inr c \<and> starts_with c canonical))"
proof -
  from assms obtain raw directory canonical where
    dir: "parent p = Some directory" "fs_canonicalize fs directory = Inr canonical"
    and tables: "load_tables regex_new fs directory canonical raw = Inr m"
    by (auto simp: load_Inr)
  note files = load_tables_files [OF tables] and mounts = load_tables_mounts [OF tables]
  have "\<forall>q \<in> set (package_files m). (\<exists>r. plain r \<and> q = join_path directory r)
      \<and> fs_is_file fs q \<and> contained fs canonical q"
    using files by (auto simp: package_file_def)
  moreover have "\<forall>(g, q) \<in> set (package_mounts m). is_absolute g \<and> ParentDir \<notin> set g
      \<and> (\<exists>r. plain r \<and> q = join_path directory r) \<and> fs_is_dir fs q \<and> contained fs canonical q"
    by (auto simp: package_mount_def dest!: mounts)
  ultimately show ?thesis
    using dir unfolding load_tables_directory [OF tables] contained_iff plain_def conj_assoc by blast
qed

theorem loaded_package_contained_witness:
  "\<exists>m. load (\<lambda>_. Some demo_raw) (\<lambda>_. Some (\<lambda>_. True)) demo_fs
         (demo_directory @ [Normal ''service.toml'']) = Inr m
     \<and> (\<exists>canonical. fs_canonicalize demo_fs (mf_directory m) = Inr canonical
          \<and> (\<exists>c. fs_canonicalize demo_fs (gs_module (mf_guest m)) = Inr c \<and> starts_with c canonical))"
proof -
  let ?l = "load (\<lambda>_. Some demo_raw) (\<lambda>_. Some (\<lambda>_. True)) demo_fs
         (demo_directory @ [Normal ''service.toml''])"
  have "is_ok ?l"
    by (simp add: load_def parent_def demo_directory_def) (code_simp)
  then obtain m where m: "?l = Inr m" by (auto simp: is_ok_iff)
  have "gs_module (mf_guest m) \<in> set (package_files m)" by (simp add: package_files_def modules_def)
  then show ?thesis using m loaded_package_contained [OF m] by blast
qed

text \<open>
  C39: A manifest whose text parses loads exactly when it is valid: name and version are not
  empty, every package path is plain, exists as the right kind of file and resolves inside
  the package, every mount point is absolute without a parent component, and the probe's
  bytes and pattern are well formed. \<open>load\<close> refuses nothing else and lets nothing else
  through.\<close>

theorem load_accepts_iff_valid:
  assumes "fs_read_to_string fs p = Inr contents" "toml contents = Some raw"
    and "parent p = Some directory" "fs_canonicalize fs directory = Inr canonical"
  shows "is_ok (load toml regex_new fs p) = package_valid regex_new fs directory canonical raw"
  using assms by (simp add: load_def load_tables_ok)

theorem load_accepts_iff_valid_witness:
  "is_ok (load (\<lambda>_. Some demo_raw) (\<lambda>_. Some (\<lambda>_. True)) demo_fs
         (demo_directory @ [Normal ''service.toml'']))
   = package_valid (\<lambda>_. Some (\<lambda>_. True)) demo_fs demo_directory demo_directory demo_raw"
  by (rule load_accepts_iff_valid [where contents = "[]"])
    (simp_all add: demo_fs_def demo_directory_def parent_def)

end
