(* ===== verification/Probe.thy ===== *)
theory Probe
  imports Manifest
begin

text \<open>
  The readiness probe (\<open>src/crates/servicecache/src/host/probe.rs\<close>): one connection attempt
  over the reads the socket delivers before the attempt's deadline, the retry loop with its
  backoff over the outcomes and times of the attempts, and the preview a failed attempt
  reports. Sockets and clocks are arguments.
\<close>

definition RESPONSE_CAP :: nat where
  "RESPONSE_CAP = 4096"

definition INITIAL_INTERVAL :: nat where
  "INITIAL_INTERVAL = 2"

definition MAX_INTERVAL :: nat where
  "MAX_INTERVAL = 100"

text \<open>One \<open>read\<close>: data (none at end of stream), a timeout, or a failure.\<close>

datatype read_result = Read "byte list" | ReadTimedOut | ReadError

datatype ended = DeadlinePassed | ConnectionClosed | ReadFailed

datatype attempt_error =
    CouldNotConnect io_error
  | CouldNotSend io_error
  | NoResponse ended
  | Unmatched ended nat string

subsection \<open>preview\<close>

definition printable :: "byte \<Rightarrow> bool" where
  "printable b = (32 \<le> unat b \<and> unat b \<le> 126)"

definition preview_byte :: "byte \<Rightarrow> string" where
  "preview_byte b =
     (if printable b \<and> b \<noteq> byte_of_char backslash then [char_of_byte b]
      else backslash # CHR ''x'' # hex2 b)"

definition preview :: "byte list \<Rightarrow> string" where
  "preview bytes =
     concat (map preview_byte (take 24 bytes)) @ (if length bytes > 24 then ''...'' else [])"

subsection \<open>attempt\<close>

text \<open>The read loop; the script of reads ends where the attempt's deadline passes.\<close>

fun attempt_reads ::
  "(byte list \<Rightarrow> bool) \<Rightarrow> read_result list \<Rightarrow> byte list \<Rightarrow> (ended \<times> byte list) + unit" where
  "attempt_reads matches [] response = Inl (DeadlinePassed, response)"
| "attempt_reads matches (r # reads) response =
     (if RESPONSE_CAP \<le> length response then Inl (DeadlinePassed, response)
      else case r of
        Read data \<Rightarrow>
          if data = [] then Inl (ConnectionClosed, response)
          else let response' = response @ data in
               if matches response' then Inr () else attempt_reads matches reads response'
      | ReadTimedOut \<Rightarrow> attempt_reads matches reads response
      | ReadError \<Rightarrow> Inl (ReadFailed, response))"

definition attempt ::
  "io_error + unit \<Rightarrow> io_error + unit \<Rightarrow> read_result list \<Rightarrow> ready_probe \<Rightarrow> attempt_error + unit" where
  "attempt connected sent reads probe =
     (case connected of
        Inl e \<Rightarrow> Inl (CouldNotConnect e)
      | Inr _ \<Rightarrow>
          (case sent of
             Inl e \<Rightarrow> Inl (CouldNotSend e)
           | Inr _ \<Rightarrow>
               (case attempt_reads (rp_matches probe) reads [] of
                  Inr _ \<Rightarrow> Inr ()
                | Inl (ended, response) \<Rightarrow>
                    if rp_matches probe response then Inr ()
                    else if response = [] then Inl (NoResponse ended)
                    else Inl (Unmatched ended (length response) (preview response)))))"

subsection \<open>The retry loop\<close>

text \<open>
  Each element of the script is an attempt's outcome and whether \<open>DEADLINE\<close> had passed when
  it came back. The result carries the sleeps between attempts, in milliseconds; \<open>None\<close>
  means the script ended first.
\<close>

fun probe_loop ::
  "((attempt_error + unit) \<times> bool) list \<Rightarrow> nat \<Rightarrow> nat list \<Rightarrow> ((attempt_error + unit) \<times> nat list) option"
where
  "probe_loop [] interval sleeps = None"
| "probe_loop ((Inr _, _) # attempts) interval sleeps = Some (Inr (), sleeps)"
| "probe_loop ((Inl summary, expired) # attempts) interval sleeps =
     (if expired then Some (Inl summary, sleeps)
      else probe_loop attempts (min (interval * 2) MAX_INTERVAL) (sleeps @ [interval]))"

definition spawn_probe :: "((attempt_error + unit) \<times> bool) list \<Rightarrow> ((attempt_error + unit) \<times> nat list) option" where
  "spawn_probe attempts = probe_loop attempts INITIAL_INTERVAL []"

text \<open>The data the reads deliver before one closes the connection or fails.\<close>

fun received :: "read_result list \<Rightarrow> byte list" where
  "received [] = []"
| "received (Read data # reads) = (if data = [] then [] else data @ received reads)"
| "received (ReadTimedOut # reads) = received reads"
| "received (ReadError # reads) = []"

subsection \<open>Lemmas\<close>

lemma hex_value: "of_nat (unat (b :: byte) div 16 * 16 + unat b mod 16) = b"
  by simp

lemma byte_nibble: "unat (b :: byte) div 16 < 16"
  using unat_byte_less [of b] by linarith

lemma printable_backslash: "printable b \<Longrightarrow> (char_of_byte b = backslash) = (b = byte_of_char backslash)"
  by (metis byte_char_inverse char_byte_inverse)

lemma decode_hex_escape:
  "decode_byte_string (backslash # CHR ''x'' # hex2 b @ rest)
     = and_then (decode_byte_string rest) (\<lambda>bs. Inr (b # bs))"
  by (simp add: hex2_def backslash_def hex_value byte_nibble)

lemma decode_preview_byte:
  "decode_byte_string (preview_byte b @ rest) = and_then (decode_byte_string rest) (\<lambda>bs. Inr (b # bs))"
proof (cases "printable b \<and> b \<noteq> byte_of_char backslash")
  case True
  then show ?thesis
    by (simp add: preview_byte_def printable_backslash) (simp add: printable_def)
next
  case False
  then show ?thesis by (simp only: preview_byte_def if_False append_Cons decode_hex_escape)
qed

lemma decode_previews:
  "decode_byte_string (concat (map preview_byte bs)) = Inr bs"
  by (induction bs) (simp_all add: decode_preview_byte)


lemma attempt_reads_ok:
  assumes "attempt_reads matches reads response = Inr u"
  shows "\<exists>n. matches (response @ take n (received reads))"
  using assms
proof (induction matches reads response rule: attempt_reads.induct)
  case (2 matches r reads response)
  show ?case
  proof (cases r)
    case (Read data)
    show ?thesis
    proof (cases "matches (response @ data)")
      case True
      with 2 Read show ?thesis by (intro exI [of _ "length data"]) (auto split: if_splits)
    next
      case False
      with 2 Read obtain n where "matches ((response @ data) @ take n (received reads))"
        by (fastforce split: if_splits simp: Let_def)
      with 2 Read show ?thesis
        by (intro exI [of _ "length data + n"]) (auto split: if_splits)
    qed
  qed (use 2 in \<open>auto split: if_splits\<close>)
qed simp

lemma attempt_reads_response:
  assumes "attempt_reads matches reads response = Inl (ended, response')"
  shows "\<exists>n. response' = response @ take n (received reads)"
  using assms
proof (induction matches reads response rule: attempt_reads.induct)
  case (2 matches r reads response)
  show ?case
  proof (cases r)
    case (Read data)
    show ?thesis
    proof (cases "RESPONSE_CAP \<le> length response \<or> data = []")
      case True
      with 2 Read show ?thesis by (intro exI [of _ 0]) (auto split: if_splits)
    next
      case False
      with 2 Read obtain n where "response' = (response @ data) @ take n (received reads)"
        by (fastforce split: if_splits simp: Let_def)
      with False Read show ?thesis by (intro exI [of _ "length data + n"]) auto
    qed
  qed (use 2 in \<open>auto split: if_splits intro: exI [of _ 0]\<close>)
qed (auto intro: exI [of _ 0])

lemma attempt_reads_bound:
  assumes "attempt_reads matches reads response = Inl (ended, response')"
    and "list_all (\<lambda>r. case r of Read data \<Rightarrow> length data \<le> 1024 | _ \<Rightarrow> True) reads"
    and "length response < RESPONSE_CAP + 1024"
  shows "length response' < RESPONSE_CAP + 1024"
  using assms
  by (induction matches reads response rule: attempt_reads.induct)
    (auto split: if_splits read_result.splits simp: Let_def)

lemma probe_loop_sleeps:
  assumes "probe_loop attempts interval sleeps = Some (r, sleeps')" "0 < interval" "interval \<le> MAX_INTERVAL"
  shows "\<exists>more. sleeps' = sleeps @ more \<and> (\<forall>s \<in> set more. interval \<le> s \<and> s \<le> MAX_INTERVAL)
    \<and> length more < length attempts"
  using assms
proof (induction attempts interval sleeps rule: probe_loop.induct)
  case (3 summary expired attempts interval sleeps)
  show ?case
  proof (cases expired)
    case False
    moreover have "0 < min (interval * 2) MAX_INTERVAL" and "interval \<le> min (interval * 2) MAX_INTERVAL"
      using 3 by (auto simp: MAX_INTERVAL_def)
    ultimately show ?thesis
      using 3 by (fastforce intro: order_trans)
  qed (use 3 in auto)
qed auto

subsection \<open>Properties\<close>

text \<open>
  The preview of a response of at most 24 bytes is a byte string of the manifest's own
  notation, and decoding it gives the response back: what a failed probe prints can be pasted
  into a manifest.\<close>

theorem preview_roundtrip:
  assumes "length bytes \<le> 24"
  shows "decode_byte_string (preview bytes) = Inr bytes"
  using assms decode_previews [of bytes] by (simp add: preview_def)

theorem preview_roundtrip_witness:
  "length [0x50, 0x5C, 0x00, 0xFF :: byte] \<le> 24
   \<and> decode_byte_string (preview [0x50, 0x5C, 0x00, 0xFF]) = Inr [0x50, 0x5C, 0x00, 0xFF]"
  using preview_roundtrip [of "[0x50, 0x5C, 0x00, 0xFF]"] by simp

text \<open>
  A probe attempt succeeds only over an open connection on which the probe's bytes were
  sent, and only when the pattern matches a beginning of what the connection delivered. Where
  no such beginning matches, the attempt fails.\<close>

theorem attempt_sound:
  "attempt connected sent reads probe = Inr () \<Longrightarrow>
     is_ok connected \<and> is_ok sent \<and> (\<exists>n. rp_matches probe (take n (received reads)))"
  unfolding attempt_def
  using attempt_reads_ok [of "rp_matches probe" reads "[]"]
    attempt_reads_response [of "rp_matches probe" reads "[]"]
  by (fastforce split: sum.splits prod.splits if_splits)

theorem attempt_sound_witness:
  "let probe = \<lparr>rp_send = [], rp_matches = (\<lambda>bs. bs = [1, 2])\<rparr> in
     attempt (Inr ()) (Inr ()) [Read [1], ReadTimedOut, Read [2]] probe = Inr ()
     \<and> (\<exists>n. rp_matches probe (take n (received [Read [1], ReadTimedOut, Read [2]])))"
proof -
  let ?probe = "\<lparr>rp_send = [], rp_matches = (\<lambda>bs. bs = [1, 2])\<rparr>"
  have "attempt (Inr ()) (Inr ()) [Read [1], ReadTimedOut, Read [2]] ?probe = Inr ()"
    by (simp add: attempt_def RESPONSE_CAP_def Let_def)
  with attempt_sound [OF this] show ?thesis unfolding Let_def by blast
qed

end
