(* ===== verification/Sockets.thy ===== *)
theory Sockets
  imports Paths
begin

text \<open>
  IPv4 socket addresses as \<open>std::net\<close> prints and parses them, and the text functions the
  host applies to them. The manager binds every endpoint to 127.0.0.1
  (\<open>src/crates/servicecache/src/manager.rs\<close>), so the addresses of the control protocol are of
  this form.
\<close>

type_synonym port = "16 word"
type_synonym ip = "byte \<times> byte \<times> byte \<times> byte"

record sockaddr =
  sa_ip :: ip
  sa_port :: port

definition LOCALHOST :: ip where
  "LOCALHOST = (127, 0, 0, 1)"

subsection \<open>Printing\<close>

definition show_ip :: "ip \<Rightarrow> string" where
  "show_ip = (\<lambda>(a, b, c, d). join_strings ''.'' (map (\<lambda>x. show_nat (unat x)) [a, b, c, d]))"

definition show_port :: "port \<Rightarrow> string" where
  "show_port p = show_nat (unat p)"

definition show_addr :: "sockaddr \<Rightarrow> string" where
  "show_addr a = show_ip (sa_ip a) @ '':'' @ show_port (sa_port a)"

subsection \<open>Parsing\<close>

definition digit_value :: "char \<Rightarrow> nat option" where
  "digit_value c = (let n = of_char c in if 48 \<le> n \<and> n \<le> 57 then Some (n - 48) else None)"

fun read_digits :: "nat \<Rightarrow> string \<Rightarrow> nat option" where
  "read_digits acc [] = Some acc"
| "read_digits acc (c # cs) =
     (case digit_value c of None \<Rightarrow> None | Some d \<Rightarrow> read_digits (acc * 10 + d) cs)"

definition parse_nat :: "string \<Rightarrow> nat option" where
  "parse_nat s = (if s = [] then None else read_digits 0 s)"

text \<open>An octet has at most three digits and no leading zero; a port may have leading zeros.\<close>

definition parse_octet :: "string \<Rightarrow> byte option" where
  "parse_octet s =
     (case parse_nat s of
        None \<Rightarrow> None
      | Some n \<Rightarrow>
          if n < 256 \<and> length s \<le> 3 \<and> (length s = 1 \<or> hd s \<noteq> CHR ''0'') then Some (of_nat n)
          else None)"

definition parse_port :: "string \<Rightarrow> port option" where
  "parse_port s =
     (case parse_nat s of None \<Rightarrow> None | Some n \<Rightarrow> if n < 65536 then Some (of_nat n) else None)"

definition parse_ip :: "string \<Rightarrow> ip option" where
  "parse_ip s =
     (case map parse_octet (split_on (CHR ''.'') s) of
        [Some a, Some b, Some c, Some d] \<Rightarrow> Some (a, b, c, d)
      | _ \<Rightarrow> None)"

definition parse_addr :: "string \<Rightarrow> sockaddr option" where
  "parse_addr s =
     (case split_on (CHR '':'') s of
        [i, p] \<Rightarrow>
          (case (parse_ip i, parse_port p) of
             (Some ip, Some port) \<Rightarrow> Some \<lparr>sa_ip = ip, sa_port = port\<rparr>
           | _ \<Rightarrow> None)
      | _ \<Rightarrow> None)"

subsection \<open>str::replace\<close>

text \<open>Non-overlapping occurrences from the left; the pattern is not empty.\<close>

function (sequential) str_replace :: "string \<Rightarrow> string \<Rightarrow> string \<Rightarrow> string" where
  "str_replace pat to [] = []"
| "str_replace pat to (c # cs) =
     (if pat \<noteq> [] \<and> prefix pat (c # cs)
      then to @ str_replace pat to (drop (length pat) (c # cs))
      else c # str_replace pat to cs)"
  by pat_completeness auto

termination
  by (relation "measure (\<lambda>(_, _, s). length s)") (auto simp: prefix_def)

subsection \<open>Lemmas\<close>

definition is_digit :: "char \<Rightarrow> bool" where
  "is_digit c = (digit_value c \<noteq> None)"

lemma digit_value_char [simp]: "(n :: nat) < 10 \<Longrightarrow> digit_value (char_of (48 + n)) = Some n"
  by (simp add: digit_value_def)

lemma is_digit_char [simp]: "(n :: nat) < 10 \<Longrightarrow> is_digit (char_of (48 + n))"
  by (simp add: is_digit_def)

lemma not_is_digit [simp]: "\<not> is_digit (CHR ''.'')" "\<not> is_digit (CHR '':'')"
  by (simp_all add: is_digit_def digit_value_def)

lemma show_nat_not_Nil [simp]: "show_nat n \<noteq> []"
  by (subst show_nat.simps) simp

lemma show_nat_digits: "c \<in> set (show_nat n) \<Longrightarrow> is_digit c"
proof (induction n rule: show_nat.induct)
  case (1 n)
  then show ?case
    by (cases "n < 10") (auto simp: show_nat.simps [of n])
qed

lemma read_digits_append:
  "read_digits acc (s @ [c]) =
     (case read_digits acc s of None \<Rightarrow> None
      | Some n \<Rightarrow> (case digit_value c of None \<Rightarrow> None | Some d \<Rightarrow> Some (n * 10 + d)))"
  by (induction s arbitrary: acc) (auto split: option.splits)

lemma read_digits_show_nat: "read_digits 0 (show_nat n) = Some n"
proof (induction n rule: show_nat.induct)
  case (1 n)
  show ?case
  proof (cases "n < 10")
    case True
    then show ?thesis by (simp add: show_nat.simps [of n])
  next
    case False
    with 1 show ?thesis
      by (simp add: show_nat.simps [of n] read_digits_append)
  qed
qed

lemma parse_show_nat [simp]: "parse_nat (show_nat n) = Some n"
  by (simp add: parse_nat_def read_digits_show_nat)

lemma hd_show_nat: "hd (show_nat n) = CHR ''0'' \<Longrightarrow> n = 0"
proof (induction n rule: show_nat.induct)
  case (1 n)
  show ?case
  proof (cases "n < 10")
    case True
    then have "of_char (hd (show_nat n)) = (48 + n :: nat)" by (simp add: show_nat.simps [of n])
    with 1(2) show ?thesis by simp
  next
    case False
    then have "hd (show_nat n) = hd (show_nat (n div 10))"
      by (simp add: show_nat.simps [of n])
    with False 1 show ?thesis by simp
  qed
qed

lemma length_show_nat: "n < 10 ^ Suc k \<Longrightarrow> length (show_nat n) \<le> Suc k"
proof (induction k arbitrary: n)
  case (Suc k)
  then have "n div 10 < 10 ^ Suc k" by (simp add: less_mult_imp_div_less)
  from Suc(1) [OF this] show ?case by (subst show_nat.simps) simp
qed (simp add: show_nat.simps)

lemma length_show_nat_octet: "n < 256 \<Longrightarrow> length (show_nat n) \<le> 3"
  using length_show_nat [of n 2] by simp

lemma parse_show_octet [simp]: "parse_octet (show_nat (unat b)) = Some b"
proof -
  have "length (show_nat (unat b)) \<le> 3" by (rule length_show_nat_octet) simp
  moreover have "length (show_nat (unat b)) = 1 \<or> hd (show_nat (unat b)) \<noteq> CHR ''0''"
    using hd_show_nat [of "unat b"] by (auto simp: show_nat.simps [of 0])
  ultimately show ?thesis by (simp add: parse_octet_def)
qed

lemma parse_show_port [simp]: "parse_port (show_port p) = Some p"
  using unsigned_less [of p] by (simp add: parse_port_def show_port_def)

lemma digits_no_sep: "\<not> is_digit sep \<Longrightarrow> sep \<notin> set (show_nat n)"
  using show_nat_digits by blast

lemma parse_show_ip [simp]: "parse_ip (show_ip i) = Some i"
proof -
  obtain a b c d where i: "i = (a, b, c, d)" by (cases i)
  have "split_on (CHR ''.'') (show_ip i)
      = map (\<lambda>x. show_nat (unat x)) [a, b, c, d]"
    by (simp add: i show_ip_def split_on_append split_on_absent digits_no_sep)
  then show ?thesis by (simp add: parse_ip_def i)
qed

lemma colon_not_in_ip: "CHR '':'' \<notin> set (show_ip i)"
  by (cases i) (simp add: show_ip_def digits_no_sep)

lemma parse_show_addr [simp]: "parse_addr (show_addr a) = Some a"
proof -
  have "split_on (CHR '':'') (show_addr a) = [show_ip (sa_ip a), show_port (sa_port a)]"
    by (simp add: show_addr_def split_on_append split_on_absent colon_not_in_ip show_port_def digits_no_sep)
  then show ?thesis by (simp add: parse_addr_def)
qed

lemma show_addr_inject: "show_addr a = show_addr b \<longleftrightarrow> a = b"
  by (metis option.inject parse_show_addr)

end
