(* ===== verification/Networking.thy ===== *)
theory Networking
  imports Sockets
begin

text \<open>
  The guest's networking (\<open>src/crates/servicecache/src/host/net.rs\<close>). The state is
  \<open>HostNetworking\<close> with the objects it hands to the guest: the socket between bind and
  listen, the listener, and the accepted streams with their guards. The adopted listener is
  shared (\<open>Arc\<close>) between the host and the guest's objects, so it exists once in the state and
  the guest's objects refer to it. What the kernel answers for a descriptor is an argument.
\<close>

subsection \<open>State\<close>

record listener =
  ls_fd :: fd
  ls_addr :: sockaddr

datatype net_error = AddressInUse | InvalidFd | Unsupported | NetPermissionDenied | WouldBlock | InvalidInput | NetIo string

datatype host_net_error =
    AlreadyBound
  | NotBound
  | NoAddress io_error
  | ReplaceFailed string
  | NoListenerPassed
  | ShutdownFailed fd errno

record networking =
  nw_listen_port :: port
  nw_passed :: "listener option"
  nw_adopted :: "listener option"
  nw_connections :: "fd list"
  nw_listening :: nat

text \<open>
  \<open>PassedBoundSocket\<close> (with or without the listener it still holds) and
  \<open>UnservedBoundSocket\<close>.
\<close>

datatype bound_socket = PassedBound bool | UnservedBound sockaddr

subsection \<open>HostNetworking\<close>

definition new_networking :: "port \<Rightarrow> networking" where
  "new_networking listen_port =
     \<lparr>nw_listen_port = listen_port, nw_passed = None, nw_adopted = None, nw_connections = [],
      nw_listening = 0\<rparr>"

definition set_listener ::
  "(fd \<Rightarrow> io_error + sockaddr) \<Rightarrow> fd \<Rightarrow> networking \<Rightarrow> host_net_error + networking" where
  "set_listener local_addr fd n =
     (if nw_adopted n \<noteq> None then Inl AlreadyBound
      else case local_addr fd of
        Inl e \<Rightarrow> Inl (NoAddress e)
      | Inr addr \<Rightarrow> Inr (n\<lparr>nw_passed := Some \<lparr>ls_fd = fd, ls_addr = addr\<rparr>\<rparr>))"

text \<open>\<open>replace_std_listener\<close> belongs to the patched \<open>virtual-net\<close>; its failure is an argument.\<close>

definition replace_listener ::
  "string option \<Rightarrow> listener \<Rightarrow> networking \<Rightarrow> host_net_error + networking" where
  "replace_listener failure l n =
     (case nw_adopted n of
        None \<Rightarrow> Inl NotBound
      | Some _ \<Rightarrow>
          (case failure of
             Some e \<Rightarrow> Inl (ReplaceFailed e)
           | None \<Rightarrow> Inr (n\<lparr>nw_adopted := Some l\<rparr>)))"

datatype shutdown_how = ShutRead | ShutBoth

definition ENOTCONN :: errno where
  "ENOTCONN = 107"

definition shut_down ::
  "(fd \<Rightarrow> shutdown_how \<Rightarrow> errno option) \<Rightarrow> fd \<Rightarrow> shutdown_how \<Rightarrow> host_net_error + unit" where
  "shut_down shutdown fd how =
     (case shutdown fd how of
        None \<Rightarrow> Inr ()
      | Some err \<Rightarrow> if err = ENOTCONN then Inr () else Inl (ShutdownFailed fd err))"

fun shut_down_all ::
  "(fd \<Rightarrow> shutdown_how \<Rightarrow> errno option) \<Rightarrow> (fd \<times> shutdown_how) list
     \<Rightarrow> (fd \<times> shutdown_how) list \<times> (host_net_error + unit)" where
  "shut_down_all shutdown [] = ([], Inr ())"
| "shut_down_all shutdown ((fd, how) # rest) =
     (case shut_down shutdown fd how of
        Inl e \<Rightarrow> ([(fd, how)], Inl e)
      | Inr _ \<Rightarrow> (let (done, r) = shut_down_all shutdown rest in ((fd, how) # done, r)))"

text \<open>
  The calls made, in order, and the result. \<open>nw_connections\<close> lists the \<open>HashSet\<close> in the
  order it is iterated.
\<close>

definition shut_down_sockets ::
  "(fd \<Rightarrow> shutdown_how \<Rightarrow> errno option) \<Rightarrow> networking
     \<Rightarrow> (fd \<times> shutdown_how) list \<times> (host_net_error + unit)" where
  "shut_down_sockets shutdown n =
     shut_down_all shutdown
       ((case nw_adopted n of None \<Rightarrow> [] | Some l \<Rightarrow> [(ls_fd l, ShutRead)])
        @ map (\<lambda>fd. (fd, ShutBoth)) (nw_connections n))"

definition endpoint :: "networking \<Rightarrow> host_net_error + sockaddr" where
  "endpoint n =
     (case nw_adopted n of
        Some l \<Rightarrow> Inr (ls_addr l)
      | None \<Rightarrow>
          (case nw_passed n of
             Some l \<Rightarrow> Inr (ls_addr l)
           | None \<Rightarrow> Inl NoListenerPassed))"

subsection \<open>What the guest can do\<close>

text \<open>\<open>LocalTcpListener::from_std_listener\<close> can fail; the passed socket is then gone.\<close>

definition bind_tcp ::
  "net_error option \<Rightarrow> sockaddr \<Rightarrow> networking \<Rightarrow> networking \<times> (net_error + bound_socket)" where
  "bind_tcp failure addr n =
     (if sa_port addr \<noteq> nw_listen_port n then (n, Inr (UnservedBound addr))
      else case nw_passed n of
        None \<Rightarrow> (n, Inl AddressInUse)
      | Some l \<Rightarrow>
          (let n' = n\<lparr>nw_passed := None\<rparr> in
           case failure of
             Some e \<Rightarrow> (n', Inl e)
           | None \<Rightarrow> (n'\<lparr>nw_adopted := Some l\<rparr>, Inr (PassedBound True))))"

text \<open>\<open>listen\<close> on either bound socket: the socket afterwards and whether a listener came back.\<close>

definition listen ::
  "bound_socket \<Rightarrow> networking \<Rightarrow> networking \<times> bound_socket \<times> (net_error + unit)" where
  "listen s n =
     (case s of
        PassedBound True \<Rightarrow>
          (n\<lparr>nw_listening := Suc (nw_listening n)\<rparr>, PassedBound False, Inr ())
      | PassedBound False \<Rightarrow> (n, s, Inl InvalidFd)
      | UnservedBound _ \<Rightarrow> (n, s, Inl NetPermissionDenied))"

definition bound_connect :: "bound_socket \<Rightarrow> sockaddr \<Rightarrow> net_error + unit" where
  "bound_connect s peer =
     (case s of PassedBound _ \<Rightarrow> Inl Unsupported | UnservedBound _ \<Rightarrow> Inl NetPermissionDenied)"

definition bound_addr :: "bound_socket \<Rightarrow> networking \<Rightarrow> net_error + sockaddr" where
  "bound_addr s n =
     (case s of
        PassedBound True \<Rightarrow>
          (case nw_adopted n of Some l \<Rightarrow> Inr (ls_addr l) | None \<Rightarrow> Inl InvalidFd)
      | PassedBound False \<Rightarrow> Inl InvalidFd
      | UnservedBound addr \<Rightarrow> Inr addr)"

definition listen_tcp ::
  "net_error option \<Rightarrow> sockaddr \<Rightarrow> networking \<Rightarrow> networking \<times> (net_error + unit)" where
  "listen_tcp failure addr n =
     (case bind_tcp failure addr n of
        (n', Inl e) \<Rightarrow> (n', Inl e)
      | (n', Inr s) \<Rightarrow> (case listen s n' of (n'', _, r) \<Rightarrow> (n'', r)))"

text \<open>\<open>connect_tcp\<close> hands the permitted connection to the local network, whose answer is \<open>inner\<close>.\<close>

definition connect_tcp ::
  "(sockaddr \<Rightarrow> net_error + 's) \<Rightarrow> sockaddr \<Rightarrow> networking \<Rightarrow> net_error + 's" where
  "connect_tcp inner peer n =
     (case endpoint n of
        Inr e \<Rightarrow> if e = peer then inner peer else Inl NetPermissionDenied
      | Inl _ \<Rightarrow> Inl NetPermissionDenied)"

definition ascii_lower :: "char \<Rightarrow> char" where
  "ascii_lower c =
     (let n = of_char c in if 65 \<le> n \<and> n \<le> (90 :: nat) then char_of (n + 32) else c)"

definition resolve :: "string \<Rightarrow> net_error + ip list" where
  "resolve host =
     (if map ascii_lower host = ''localhost'' then Inr [LOCALHOST] else Inl NetPermissionDenied)"

text \<open>\<open>ConnectionGuard::track\<close> and its drop.\<close>

definition track :: "fd \<Rightarrow> networking \<Rightarrow> networking" where
  "track fd n = n\<lparr>nw_connections := List.insert fd (nw_connections n)\<rparr>"

definition drop_guard :: "fd \<Rightarrow> networking \<Rightarrow> networking" where
  "drop_guard fd n = n\<lparr>nw_connections := filter (\<lambda>f. f \<noteq> fd) (nw_connections n)\<rparr>"

text \<open>
  \<open>PassedListener::try_accept\<close>: the shared listener accepts, the stream is tracked. The
  result names the descriptor the connection was accepted on.
\<close>

definition accept_local ::
  "(fd \<Rightarrow> net_error + (fd \<times> sockaddr)) \<Rightarrow> networking \<Rightarrow> net_error + (fd \<times> sockaddr)" where
  "accept_local accept n = (case nw_adopted n of None \<Rightarrow> Inl InvalidFd | Some l \<Rightarrow> accept (ls_fd l))"

definition try_accept ::
  "(fd \<Rightarrow> net_error + (fd \<times> sockaddr)) \<Rightarrow> networking \<Rightarrow> networking \<times> (net_error + (fd \<times> sockaddr))" where
  "try_accept accept n =
     (case accept_local accept n of
        Inl e \<Rightarrow> (n, Inl e)
      | Inr (fd, addr) \<Rightarrow> (track fd n, Inr (fd, addr)))"

subsection \<open>Histories\<close>

text \<open>
  What can happen to the networking of one process: the host passes or replaces the listening
  socket, the guest's threads bind, listen, accept and drop streams, in any order. An accept
  is two steps, the kernel's and the tracking; so is a drop, for the guard of a
  \<open>TrackedStream\<close> is its first field: the descriptor is forgotten, then closed. Besides the
  state a configuration has the descriptors accepted and not yet tracked, of the streams the
  guest holds, and forgotten and not yet closed, and those the manager passed. The kernel
  gives an accepted connection a descriptor that is not open.
\<close>

record net_config =
  nc_net :: networking
  nc_accepted :: "fd list"
  nc_streams :: "fd list"
  nc_forgotten :: "fd list"
  nc_given :: "fd list"

definition open_fds :: "net_config \<Rightarrow> fd list" where
  "open_fds c = nc_accepted c @ nc_streams c @ nc_forgotten c"

inductive net_step :: "net_config \<Rightarrow> net_config \<Rightarrow> bool" where
  pass_listener:
    "set_listener local_addr fd (nc_net c) = Inr n
     \<Longrightarrow> net_step c (c\<lparr>nc_net := n, nc_given := fd # nc_given c\<rparr>)"
| swap_listener:
    "replace_listener failure l (nc_net c) = Inr n
     \<Longrightarrow> net_step c (c\<lparr>nc_net := n, nc_given := ls_fd l # nc_given c\<rparr>)"
| guest_binds:
    "bind_tcp failure addr (nc_net c) = (n, r) \<Longrightarrow> net_step c (c\<lparr>nc_net := n\<rparr>)"
| guest_listens:
    "listen s (nc_net c) = (n, s', r) \<Longrightarrow> net_step c (c\<lparr>nc_net := n\<rparr>)"
| guest_accepts:
    "accept_local accept (nc_net c) = Inr (fd, peer) \<Longrightarrow> fd \<notin> set (open_fds c)
     \<Longrightarrow> net_step c (c\<lparr>nc_accepted := fd # nc_accepted c\<rparr>)"
| guest_tracks:
    "fd \<in> set (nc_accepted c)
     \<Longrightarrow> net_step c (c\<lparr>nc_net := track fd (nc_net c), nc_accepted := removeAll fd (nc_accepted c),
          nc_streams := fd # nc_streams c\<rparr>)"
| guest_forgets:
    "fd \<in> set (nc_streams c)
     \<Longrightarrow> net_step c (c\<lparr>nc_net := drop_guard fd (nc_net c), nc_streams := removeAll fd (nc_streams c),
          nc_forgotten := fd # nc_forgotten c\<rparr>)"
| guest_closes:
    "fd \<in> set (nc_forgotten c) \<Longrightarrow> net_step c (c\<lparr>nc_forgotten := removeAll fd (nc_forgotten c)\<rparr>)"

inductive_cases net_stepE: "net_step c c'"

definition net_start :: "port \<Rightarrow> net_config" where
  "net_start p = \<lparr>nc_net = new_networking p, nc_accepted = [], nc_streams = [], nc_forgotten = [], nc_given = []\<rparr>"

definition net_inv :: "net_config \<Rightarrow> bool" where
  "net_inv c =
     (distinct (nw_connections (nc_net c)) \<and> distinct (open_fds c)
      \<and> set (nw_connections (nc_net c)) = set (nc_streams c)
      \<and> (nw_passed (nc_net c) = None \<or> nw_adopted (nc_net c) = None)
      \<and> (\<forall>l. nw_passed (nc_net c) = Some l \<or> nw_adopted (nc_net c) = Some l
            \<longrightarrow> ls_fd l \<in> set (nc_given c)))"

text \<open>A history: the manager passes socket 5, the guest binds it and accepts stream 9.\<close>

definition demo_addr :: sockaddr where
  "demo_addr = \<lparr>sa_ip = LOCALHOST, sa_port = 70\<rparr>"

definition demo_net1 :: net_config where
  "demo_net1 = (net_start 70)
     \<lparr>nc_net := (new_networking 70)\<lparr>nw_passed := Some \<lparr>ls_fd = 5, ls_addr = demo_addr\<rparr>\<rparr>, nc_given := [5]\<rparr>"

definition demo_net2 :: net_config where
  "demo_net2 = demo_net1
     \<lparr>nc_net := (new_networking 70)\<lparr>nw_adopted := Some \<lparr>ls_fd = 5, ls_addr = demo_addr\<rparr>\<rparr>\<rparr>"

definition demo_net3 :: net_config where
  "demo_net3 = demo_net2\<lparr>nc_accepted := [9]\<rparr>"

definition demo_net :: net_config where
  "demo_net = demo_net2
     \<lparr>nc_net := (nc_net demo_net2)\<lparr>nw_connections := [9]\<rparr>, nc_streams := [9]\<rparr>"

subsection \<open>Lemmas\<close>

lemma set_listener_Inr:
  "set_listener local_addr fd n = Inr n' \<longleftrightarrow>
     nw_adopted n = None \<and> (\<exists>addr. local_addr fd = Inr addr
       \<and> n' = n\<lparr>nw_passed := Some \<lparr>ls_fd = fd, ls_addr = addr\<rparr>\<rparr>)"
  by (auto simp: set_listener_def split: sum.splits)

lemma replace_listener_Inr:
  "replace_listener failure l n = Inr n' \<longleftrightarrow>
     failure = None \<and> nw_adopted n \<noteq> None \<and> n' = n\<lparr>nw_adopted := Some l\<rparr>"
  by (auto simp: replace_listener_def split: option.splits)

lemma try_accept_Inr:
  "try_accept accept n = (n', Inr (fd, peer)) \<longleftrightarrow>
     (\<exists>l. nw_adopted n = Some l \<and> accept (ls_fd l) = Inr (fd, peer) \<and> n' = track fd n)"
  by (auto simp: try_accept_def accept_local_def split: option.splits sum.splits)

lemma net_inv_start: "net_inv (net_start p)"
  by (simp add: net_inv_def open_fds_def net_start_def new_networking_def)

lemma bind_tcp_state:
  assumes "bind_tcp failure addr n = (n', r)"
  obtains "n' = n" | "n' = n\<lparr>nw_passed := None\<rparr>"
  | l where "nw_passed n = Some l" "n' = n\<lparr>nw_passed := None, nw_adopted := Some l\<rparr>"
  using assms by (cases "nw_passed n"; cases failure) (auto simp: bind_tcp_def Let_def split: if_splits)

lemma listen_state:
  assumes "listen s n = (n', s', r)"
  obtains "n' = n" | "n' = n\<lparr>nw_listening := Suc (nw_listening n)\<rparr>"
  using assms by (cases s) (auto simp: listen_def split: if_splits bool.splits)

lemma net_inv_bind:
  assumes "net_inv c" "bind_tcp failure addr (nc_net c) = (n, r)"
  shows "net_inv (c\<lparr>nc_net := n\<rparr>)"
  using assms(2) by (cases rule: bind_tcp_state) (use assms(1) in \<open>simp_all add: net_inv_def open_fds_def\<close>)

lemma net_inv_listen:
  assumes "net_inv c" "listen s (nc_net c) = (n, s', r)"
  shows "net_inv (c\<lparr>nc_net := n\<rparr>)"
  using assms(2) by (cases rule: listen_state) (use assms(1) in \<open>simp_all add: net_inv_def open_fds_def\<close>)

lemma net_inv_step: "net_step c c' \<Longrightarrow> net_inv c \<Longrightarrow> net_inv c'"
proof (induction rule: net_step.induct)
  case (guest_binds failure addr c n r)
  then show ?case by (auto intro: net_inv_bind)
next
  case (guest_listens s c n s' r)
  then show ?case by (auto intro: net_inv_listen)
next
  case (guest_tracks fd c)
  then show ?case by (auto simp: net_inv_def open_fds_def track_def distinct_removeAll)
next
  case (guest_forgets fd c)
  then show ?case by (auto simp: net_inv_def open_fds_def drop_guard_def distinct_removeAll)
qed (auto simp: net_inv_def open_fds_def set_listener_Inr replace_listener_Inr distinct_removeAll)

lemma net_inv_reachable: "net_step\<^sup>*\<^sup>* (net_start p) c \<Longrightarrow> net_inv c"
  by (induction rule: rtranclp_induct) (auto intro: net_inv_start net_inv_step)

lemma shut_down_all_done:
  "shut_down_all shutdown calls = (done, Inr ()) \<Longrightarrow> done = calls"
  by (induction shutdown calls arbitrary: "done" rule: shut_down_all.induct)
    (auto simp: Let_def split: sum.splits prod.splits)

lemma shut_down_all_ok:
  "(\<forall>(fd, how) \<in> set calls. shutdown fd how = None \<or> shutdown fd how = Some ENOTCONN)
     \<Longrightarrow> shut_down_all shutdown calls = (calls, Inr ())"
  by (induction shutdown calls rule: shut_down_all.induct)
    (auto simp: shut_down_def split: option.splits)

lemma bind_other_port:
  "sa_port addr \<noteq> nw_listen_port n \<Longrightarrow> bind_tcp failure addr n = (n, Inr (UnservedBound addr))"
  by (simp add: bind_tcp_def)

subsection \<open>Properties\<close>

text \<open>
  C22: When a freeze shuts the sockets down and succeeds, whatever the guest's threads and the
  host have done and however their accepts and drops were interleaved, the calls made are
  exactly: the listener the guest adopted for reading, and each stream the guest holds (its
  accept has returned, its drop has not begun) both ways, once each. No connection held survives, and no descriptor that was closed, and so may
  by then be another file, is touched.\<close>

theorem shut_down_exactly_held_streams:
  assumes "net_step\<^sup>*\<^sup>* (net_start p) c"
    and "shut_down_sockets shutdown (nc_net c) = (done, Inr ())"
  shows "distinct (map fst (filter (\<lambda>(_, how). how = ShutBoth) done))
    \<and> set done = {(ls_fd l, ShutRead) | l. nw_adopted (nc_net c) = Some l}
                 \<union> {(fd, ShutBoth) | fd. fd \<in> set (nc_streams c)}"
proof -
  have inv: "net_inv c" using assms(1) by (rule net_inv_reachable)
  have "done = (case nw_adopted (nc_net c) of None \<Rightarrow> [] | Some l \<Rightarrow> [(ls_fd l, ShutRead)])
        @ map (\<lambda>fd. (fd, ShutBoth)) (nw_connections (nc_net c))"
    using assms(2) unfolding shut_down_sockets_def by (rule shut_down_all_done)
  then show ?thesis
    using inv by (auto simp: net_inv_def filter_map o_def split: option.splits)
qed

theorem shut_down_exactly_held_streams_witness:
  "net_step\<^sup>*\<^sup>* (net_start 70) demo_net
   \<and> (\<exists>done. shut_down_sockets (\<lambda>_ _. None) (nc_net demo_net) = (done, Inr ())
        \<and> set done = {(5, ShutRead), (9, ShutBoth)})"
proof -
  have "net_step (net_start 70) demo_net1"
    using pass_listener [of "\<lambda>_. Inr demo_addr" 5 "net_start 70"]
    by (simp add: demo_net1_def net_start_def new_networking_def set_listener_def)
  moreover have "net_step demo_net1 demo_net2"
    using guest_binds [of None demo_addr demo_net1]
    by (simp add: demo_net2_def demo_net1_def net_start_def new_networking_def bind_tcp_def demo_addr_def)
  moreover have "net_step demo_net2 demo_net3"
    using guest_accepts [of "\<lambda>_. Inr (9, demo_addr)" demo_net2]
    by (simp add: demo_net3_def demo_net2_def demo_net1_def net_start_def new_networking_def
        accept_local_def open_fds_def)
  moreover have "net_step demo_net3 demo_net"
    using guest_tracks [of 9 demo_net3]
    by (simp add: demo_net3_def demo_net_def demo_net2_def demo_net1_def net_start_def new_networking_def
        track_def)
  ultimately have reach: "net_step\<^sup>*\<^sup>* (net_start 70) demo_net" by simp
  have "snd (shut_down_sockets (\<lambda>_ _. None) (nc_net demo_net)) = Inr ()" by code_simp
  then obtain calls where calls: "shut_down_sockets (\<lambda>_ _. None) (nc_net demo_net) = (calls, Inr ())"
    by (cases "shut_down_sockets (\<lambda>_ _. None) (nc_net demo_net)") auto
  have "set calls = {(5, ShutRead), (9, ShutBoth)}"
    using shut_down_exactly_held_streams [OF reach calls]
    by (auto simp: demo_net_def demo_net2_def demo_net1_def net_start_def new_networking_def)
  with reach calls show ?thesis by blast
qed

text \<open>
  C23: In every history the listening socket in use, adopted or passed, is one the manager
  passed: no bind of the guest brings in a socket of its own, and a bind on a port other than
  the manifest's changes nothing and yields a socket that can neither listen nor connect.\<close>

theorem guest_listens_only_on_passed_sockets:
  assumes "net_step\<^sup>*\<^sup>* (net_start p) c"
  shows "(\<forall>l. nw_adopted (nc_net c) = Some l \<or> nw_passed (nc_net c) = Some l
            \<longrightarrow> ls_fd l \<in> set (nc_given c))
    \<and> (\<forall>failure addr. sa_port addr \<noteq> nw_listen_port (nc_net c) \<longrightarrow>
         (\<exists>s. bind_tcp failure addr (nc_net c) = (nc_net c, Inr s)
            \<and> bound_addr s (nc_net c) = Inr addr
            \<and> listen s (nc_net c) = (nc_net c, s, Inl NetPermissionDenied)
            \<and> (\<forall>peer. bound_connect s peer = Inl NetPermissionDenied)))"
  using net_inv_reachable [OF assms]
  by (auto simp: net_inv_def bind_other_port bound_addr_def listen_def bound_connect_def)

theorem guest_listens_only_on_passed_sockets_witness:
  "\<exists>s. bind_tcp None (demo_addr\<lparr>sa_port := 80\<rparr>) (nc_net (net_start 70)) = (nc_net (net_start 70), Inr s)
     \<and> listen s (nc_net (net_start 70)) = (nc_net (net_start 70), s, Inl NetPermissionDenied)"
proof -
  have "net_step\<^sup>*\<^sup>* (net_start 70) (net_start 70)" by simp
  from guest_listens_only_on_passed_sockets [OF this]
  have "\<forall>failure addr. sa_port addr \<noteq> nw_listen_port (nc_net (net_start 70)) \<longrightarrow>
      (\<exists>s. bind_tcp failure addr (nc_net (net_start 70)) = (nc_net (net_start 70), Inr s)
         \<and> listen s (nc_net (net_start 70)) = (nc_net (net_start 70), s, Inl NetPermissionDenied))"
    by blast
  then show ?thesis
    by (simp add: net_start_def new_networking_def demo_addr_def)
qed

end
