(* ===== verification/GuestSockets.thy ===== *)
theory GuestSockets
  imports Networking
begin

text \<open>
  The socket objects the guest gets (\<open>src/crates/servicecache/src/host/net.rs\<close>): the
  time-to-live calls of a bound socket, the calls \<open>PassedListener\<close> forwards to the listener it
  shares with the host, and those \<open>TrackedStream\<close> forwards to its stream. The local sockets of
  \<open>virtual-net\<close> are arguments: what a call answers and does to their state.
\<close>

subsection \<open>Bound sockets\<close>

text \<open>A time-to-live is a \<open>u32\<close> here and a \<open>u8\<close> below.\<close>

definition bound_set_ttl ::
  "(fd \<Rightarrow> 8 word \<Rightarrow> net_error + unit) \<Rightarrow> bound_socket \<Rightarrow> 32 word \<Rightarrow> networking \<Rightarrow> net_error + unit" where
  "bound_set_ttl set_ttl s ttl n =
     (case s of
        PassedBound True \<Rightarrow>
          (case nw_adopted n of
             Some l \<Rightarrow> if ttl \<le> 255 then set_ttl (ls_fd l) (ucast ttl) else Inl InvalidInput
           | None \<Rightarrow> Inl InvalidFd)
      | PassedBound False \<Rightarrow> Inl InvalidFd
      | UnservedBound _ \<Rightarrow> Inr ())"

definition bound_ttl ::
  "(fd \<Rightarrow> net_error + 8 word) \<Rightarrow> bound_socket \<Rightarrow> networking \<Rightarrow> net_error + 32 word" where
  "bound_ttl get_ttl s n =
     (case s of
        PassedBound True \<Rightarrow>
          (case nw_adopted n of Some l \<Rightarrow> map_sum id ucast (get_ttl (ls_fd l)) | None \<Rightarrow> Inl InvalidFd)
      | PassedBound False \<Rightarrow> Inl InvalidFd
      | UnservedBound _ \<Rightarrow> Inr 64)"

text \<open>\<open>UnservedBoundSocket\<close> on its own: it answers for its address and refuses the rest.\<close>

datatype bound_call = BoundAddr | BoundListen | BoundConnect sockaddr | BoundSetTtl "32 word" | BoundTtl

datatype bound_answer = AnswerAddr sockaddr | AnswerTtl "32 word" | AnswerDone

fun unserved_call :: "sockaddr \<Rightarrow> bound_call \<Rightarrow> net_error + bound_answer" where
  "unserved_call addr BoundAddr = Inr (AnswerAddr addr)"
| "unserved_call addr BoundListen = Inl NetPermissionDenied"
| "unserved_call addr (BoundConnect peer) = Inl NetPermissionDenied"
| "unserved_call addr (BoundSetTtl ttl) = Inr AnswerDone"
| "unserved_call addr BoundTtl = Inr (AnswerTtl 64)"

subsection \<open>The listener\<close>

datatype listener_call =
    ListenerHostFd
  | ListenerSetHandler nat
  | ListenerAddrLocal
  | ListenerSetTtl "8 word"
  | ListenerTtl
  | ListenerRemoveHandler
  | ListenerPollRead
  | ListenerPollWrite

text \<open>
  \<open>PassedListener\<close> holds the listener \<open>HostNetworking\<close> adopted, not a copy: each call locks it
  and goes to the socket it has at that moment.
\<close>

definition passed_call ::
  "(fd \<Rightarrow> listener_call \<Rightarrow> 's \<Rightarrow> 'r \<times> 's) \<Rightarrow> listener_call \<Rightarrow> networking \<Rightarrow> 's \<Rightarrow> ('r \<times> 's) option" where
  "passed_call inner call n s = map_option (\<lambda>l. inner (ls_fd l) call s) (nw_adopted n)"

subsection \<open>Streams\<close>

datatype io_call = RemoveHandler | PollReadReady | PollWriteReady

datatype socket_call = SetTtl "32 word" | GetTtl | AddrLocal | SocketStatus | LastError | SetHandler nat

datatype connected_call =
    SetLinger "duration option"
  | GetLinger
  | TrySend "byte list"
  | TryFlush
  | CloseStream
  | TryRecv nat bool

datatype tcp_call =
    StreamHostFd
  | SetRecvBufSize nat
  | RecvBufSize
  | SetSendBufSize nat
  | SendBufSize
  | SetNodelay bool
  | Nodelay
  | SetKeepalive bool
  | Keepalive
  | SetDontroute bool
  | Dontroute
  | AddrPeer
  | ShutdownStream shutdown_how
  | IsClosed

datatype stream_call = IoCall io_call | SocketCall socket_call | ConnectedCall connected_call | TcpCall tcp_call

text \<open>\<open>TrackedStream\<close>: the guard with its descriptor, and the stream.\<close>

record 's tracked_stream =
  ts_fd :: fd
  ts_inner :: 's

definition tracked_call ::
  "(stream_call \<Rightarrow> 's \<Rightarrow> 'r \<times> 's) \<Rightarrow> stream_call \<Rightarrow> 's tracked_stream \<Rightarrow> 'r \<times> 's tracked_stream" where
  "tracked_call inner call t = (case inner call (ts_inner t) of (r, s) \<Rightarrow> (r, t\<lparr>ts_inner := s\<rparr>))"

text \<open>A stream as it comes from an accept, and as it is dropped: first the guard, then the stream.\<close>

definition accept_stream ::
  "(fd \<Rightarrow> net_error + (fd \<times> sockaddr)) \<Rightarrow> (fd \<Rightarrow> 's) \<Rightarrow> networking
     \<Rightarrow> networking \<times> (net_error + ('s tracked_stream \<times> sockaddr))" where
  "accept_stream accept stream n =
     (case try_accept accept n of
        (n', Inl e) \<Rightarrow> (n', Inl e)
      | (n', Inr (fd, addr)) \<Rightarrow> (n', Inr (\<lparr>ts_fd = fd, ts_inner = stream fd\<rparr>, addr)))"

datatype drop_step = Forgets fd | Closes fd

definition drop_stream :: "'s tracked_stream \<Rightarrow> networking \<Rightarrow> networking \<times> drop_step list" where
  "drop_stream t n = (drop_guard (ts_fd t) n, [Forgets (ts_fd t), Closes (ts_fd t)])"

fun calls :: "('c \<Rightarrow> 's \<Rightarrow> 'r \<times> 's) \<Rightarrow> 'c list \<Rightarrow> 's \<Rightarrow> 'r list \<times> 's" where
  "calls f [] s = ([], s)"
| "calls f (c # cs) s = (case f c s of (r, s') \<Rightarrow> case calls f cs s' of (rs, s'') \<Rightarrow> (r # rs, s''))"

subsection \<open>Lemmas\<close>

lemma ttl_fits:
  assumes "ttl \<le> (255 :: 32 word)"
  shows "ucast (ucast ttl :: 8 word) = ttl"
proof -
  have "unat ttl \<le> 255" using assms by (simp add: word_le_nat_alt)
  then have "take_bit 8 ttl = ttl" by (simp add: unsigned_take_bit_eq word_unat_eq_iff take_bit_nat_eq_self)
  then show ?thesis by (simp add: unsigned_ucast_eq word_unat_eq_iff unsigned_take_bit_eq)
qed

text \<open>
  A time-to-live that fits is set on the socket and reads back; one that does not is refused
  before the socket is touched.
\<close>

lemma bound_ttl_roundtrip:
  assumes "nw_adopted n = Some l" "get_ttl (ls_fd l) = Inr (ucast ttl)" "ttl \<le> 255"
  shows "bound_ttl get_ttl (PassedBound True) n = Inr ttl"
  using assms by (simp add: bound_ttl_def ttl_fits)

lemma bound_set_ttl_refused:
  "nw_adopted n = Some l \<Longrightarrow> 255 < ttl \<Longrightarrow> bound_set_ttl set_ttl (PassedBound True) ttl n = Inl InvalidInput"
  by (auto simp: bound_set_ttl_def dest: leD)

lemma unserved_call_agrees:
  "unserved_call addr BoundAddr = map_sum id AnswerAddr (bound_addr (UnservedBound addr) n)"
  "unserved_call addr BoundListen = map_sum id (\<lambda>_. AnswerDone) (snd (snd (listen (UnservedBound addr) n)))"
  "unserved_call addr (BoundConnect peer) = map_sum id (\<lambda>_. AnswerDone) (bound_connect (UnservedBound addr) peer)"
  "unserved_call addr (BoundSetTtl ttl) = map_sum id (\<lambda>_. AnswerDone) (bound_set_ttl set_ttl (UnservedBound addr) ttl n)"
  "unserved_call addr BoundTtl = map_sum id AnswerTtl (bound_ttl get_ttl (UnservedBound addr) n)"
  by (simp_all add: bound_addr_def listen_def bound_connect_def bound_set_ttl_def bound_ttl_def)

text \<open>In a forked child the listener the guest already has is the child's own socket.\<close>

lemma listener_follows_replacement:
  assumes "replace_listener failure l n = Inr n'"
  shows "passed_call inner call n' s = Some (inner (ls_fd l) call s)"
    "accept_local accept n' = accept (ls_fd l)"
  using assms by (auto simp: replace_listener_Inr passed_call_def accept_local_def)

lemma calls_tracked:
  "calls (tracked_call inner) cs t
     = (case calls inner cs (ts_inner t) of (rs, s) \<Rightarrow> (rs, t\<lparr>ts_inner := s\<rparr>))"
  by (induction cs arbitrary: t) (simp_all add: tracked_call_def split: prod.splits)

lemma drop_guard_track: "fd \<notin> set (nw_connections n) \<Longrightarrow> drop_guard fd (track fd n) = n"
  by (cases n) (auto simp: drop_guard_def track_def intro!: filter_True)

lemma track_known [simp]: "fd \<in> set (nw_connections (track fd n))"
  by (simp add: track_def)

lemma accept_stream_Inr:
  "accept_stream accept stream n = (n', Inr (t, addr)) \<longleftrightarrow>
     (\<exists>l. nw_adopted n = Some l \<and> accept (ls_fd l) = Inr (ts_fd t, addr) \<and> n' = track (ts_fd t) n
        \<and> ts_inner t = stream (ts_fd t))"
  by (cases t) (auto simp: accept_stream_def try_accept_def accept_local_def split: sum.splits option.splits)

subsection \<open>Properties\<close>

text \<open>
  A connection the guest accepted is the kernel's connection, watched by the host. Whatever
  calls the guest makes on the stream, it gets what the local stream would answer, and leaves
  it as the calls would; all the while the descriptor is among those a freeze shuts down; and
  dropping the stream takes exactly that descriptor off the list, before it is closed.
\<close>

theorem accepted_stream_is_transparent:
  assumes "accept_stream accept stream n = (n', Inr (t, peer))" "ts_fd t \<notin> set (nw_connections n)"
    and "calls (tracked_call inner) cs t = (answers, t')"
  shows "calls inner cs (stream (ts_fd t)) = (answers, ts_inner t')
    \<and> ts_fd t' \<in> set (nw_connections n') \<and> drop_stream t' n' = (n, [Forgets (ts_fd t), Closes (ts_fd t)])"
  using assms
  by (auto simp: accept_stream_Inr calls_tracked drop_stream_def drop_guard_track split: prod.splits)

text \<open>A stream of the kernel that counts the bytes it was sent.\<close>

definition demo_local :: "stream_call \<Rightarrow> nat \<Rightarrow> (nat + bool) \<times> nat" where
  "demo_local call sent =
     (case call of
        ConnectedCall (TrySend bytes) \<Rightarrow> (Inl (length bytes), sent + length bytes)
      | _ \<Rightarrow> (Inr False, sent))"

theorem accepted_stream_is_transparent_witness:
  "\<exists>n' t t'. accept_stream (\<lambda>_. Inr (9, demo_addr)) (\<lambda>_. 0) (nc_net demo_net2) = (n', Inr (t, demo_addr))
     \<and> calls (tracked_call demo_local) [ConnectedCall (TrySend [1, 2]), TcpCall IsClosed] t = ([Inl 2, Inr False], t')
     \<and> drop_stream t' n' = (nc_net demo_net2, [Forgets 9, Closes 9])"
proof -
  let ?n = "nc_net demo_net2"
  let ?t = "\<lparr>ts_fd = 9, ts_inner = 0 :: nat\<rparr>"
  have accepted: "accept_stream (\<lambda>_. Inr (9, demo_addr)) (\<lambda>_. 0) ?n = (track 9 ?n, Inr (?t, demo_addr))"
    by (simp add: accept_stream_def try_accept_def accept_local_def demo_net2_def demo_net1_def)
  have fresh: "ts_fd ?t \<notin> set (nw_connections ?n)" by (simp add: demo_net2_def new_networking_def)
  have called: "calls (tracked_call demo_local) [ConnectedCall (TrySend [1, 2]), TcpCall IsClosed] ?t
      = ([Inl 2, Inr False], ?t\<lparr>ts_inner := 2\<rparr>)"
    by (simp add: tracked_call_def demo_local_def)
  from accepted_stream_is_transparent [OF accepted fresh called] accepted called show ?thesis by auto
qed

end
