(* ===== verification/Compaction.thy ===== *)
theory Compaction
  imports Paths "HOL-Library.Product_Lexorder"
begin

text \<open>
  The release of a frozen guest's zero pages
  (\<open>src/crates/servicecache/src/host/freeze.rs\<close>, from \<open>ZeroPages\<close> on): which page ranges of a
  linear memory are scanned, the scan of one block, the pending run of pages, and the slices.
  The process's memory is a byte per address with the pages that are resident and, for a file
  mapping, the byte the file holds; \<open>mincore\<close> and \<open>madvise\<close> act on it and may fail.
\<close>

subsection \<open>Memory and the calls on it\<close>

record ram =
  rm_byte :: "nat \<Rightarrow> byte"
  rm_resident :: "nat \<Rightarrow> bool"
  rm_backing :: "nat \<Rightarrow> byte option"

text \<open>
  \<open>MADV_DONTNEED\<close> drops the pages of a range of a private mapping: an anonymous page reads as
  zeros again, a page of a file as the file. \<open>rm_resident\<close> is by page number.
\<close>

definition dontneed :: "nat \<Rightarrow> nat \<Rightarrow> nat \<Rightarrow> ram \<Rightarrow> ram" where
  "dontneed page addr len ram =
     ram\<lparr>rm_byte := (\<lambda>a. if addr \<le> a \<and> a < addr + len
                         then (case rm_backing ram a of None \<Rightarrow> 0 | Some b \<Rightarrow> b) else rm_byte ram a),
         rm_resident := (\<lambda>n. rm_resident ram n \<and> \<not> (addr \<le> n * page \<and> n * page < addr + len))\<rparr>"

record vm_calls =
  vm_mincore :: "nat \<Rightarrow> bool"
  vm_madvise :: "nat \<Rightarrow> nat \<Rightarrow> bool"

definition mincore :: "nat \<Rightarrow> nat \<Rightarrow> nat \<Rightarrow> ram \<Rightarrow> bool list" where
  "mincore page addr count ram = map (\<lambda>i. rm_resident ram (addr div page + i)) [0..<count]"

text \<open>A little-endian \<open>u64\<close> at an address, by its value.\<close>

definition u64_at :: "ram \<Rightarrow> nat \<Rightarrow> nat" where
  "u64_at ram a = sum_list (map (\<lambda>k. unat (rm_byte ram (a + k)) * 256 ^ k) [0..<8])"

definition is_zero :: "ram \<Rightarrow> nat \<Rightarrow> nat \<Rightarrow> bool" where
  "is_zero ram addr len = list_all (\<lambda>i. u64_at ram (addr + 8 * i) = 0) [0..<len div 8]"

subsection \<open>State\<close>

record zero_pages =
  zp_memories :: nat
  zp_scanned :: nat
  zp_overlay :: nat
  zp_resident :: nat
  zp_zero :: nat
  zp_released :: nat
  zp_kept_blocks :: nat
  zp_runs :: nat

record memory_scan =
  ms_base :: nat
  ms_pages :: nat
  ms_mappings :: "(nat \<times> nat \<times> bool) list"
  ms_extents :: "(nat \<times> nat) list"
  ms_next :: nat
  ms_pending :: "(nat \<times> nat) option"

record compaction =
  cp_page :: nat
  cp_huge_page :: nat
  cp_memories :: "memory_scan list"
  cp_totals :: zero_pages

text \<open>What the runtime says of a linear memory (\<open>wasmer_vm::linear_memories\<close>).\<close>

record linear_memory =
  lm_base :: nat
  lm_len :: nat
  lm_private_anonymous :: bool
  lm_overlays :: "(nat \<times> nat) list"

subsection \<open>Preparing the scan\<close>

definition div_ceil :: "nat \<Rightarrow> nat \<Rightarrow> nat" where
  "div_ceil a b = (a + b - 1) div b"

definition mapping_pages ::
  "nat \<Rightarrow> nat \<Rightarrow> nat \<Rightarrow> (nat \<times> nat \<times> bool) list \<Rightarrow> (nat \<times> nat \<times> bool) list" where
  "mapping_pages page base end mappings =
     map (\<lambda>(start, stop, huge). ((max start base - base) div page, div_ceil (min stop end - base) page, huge))
       (filter (\<lambda>(start, stop, _). start < end \<and> base < stop) mappings)"

definition overlay_pages :: "nat \<Rightarrow> nat \<Rightarrow> nat \<Rightarrow> (nat \<times> nat) list \<Rightarrow> (nat \<times> nat) list" where
  "overlay_pages page base pages overlays =
     sort (filter (\<lambda>(start, end). start < min end pages)
       (map (\<lambda>(addr, len). ((addr - base) div page, div_ceil (addr - base + len) page)) overlays))"

fun extents_from :: "nat \<Rightarrow> (nat \<times> nat) list \<Rightarrow> nat \<Rightarrow> (nat \<times> nat) list" where
  "extents_from from [] pages = (if from < pages then [(from, pages)] else [])"
| "extents_from from ((start, end) # overlays) pages =
     (if from < start then [(from, start)] else []) @ extents_from (max from end) overlays pages"

definition memory_scan_of :: "nat \<Rightarrow> (nat \<times> nat \<times> bool) list \<Rightarrow> linear_memory \<Rightarrow> memory_scan" where
  "memory_scan_of page mappings memory =
     (let base = lm_base memory; pages = div_ceil (lm_len memory) page in
      \<lparr>ms_base = base, ms_pages = pages,
       ms_mappings = mapping_pages page base (base + pages * page) mappings,
       ms_extents = extents_from 0 (overlay_pages page base pages (lm_overlays memory)) pages,
       ms_next = 0, ms_pending = None\<rparr>)"

definition start_compaction ::
  "nat \<Rightarrow> nat \<Rightarrow> (nat \<times> nat \<times> bool) list option \<Rightarrow> linear_memory list \<Rightarrow> compaction" where
  "start_compaction page huge_page mappings memories =
     (let scans = map (memory_scan_of page (case mappings of None \<Rightarrow> [] | Some ms \<Rightarrow> ms))
                    (filter (\<lambda>m. lm_private_anonymous m \<and> 0 < lm_len m) memories);
          scanned = sum_list (map (\<lambda>(start, end). end - start) (concat (map ms_extents scans)))
      in \<lparr>cp_page = page, cp_huge_page = huge_page, cp_memories = scans,
          cp_totals = \<lparr>zp_memories = length scans, zp_scanned = scanned,
            zp_overlay = sum_list (map ms_pages scans) - scanned, zp_resident = 0, zp_zero = 0,
            zp_released = 0, zp_kept_blocks = 0, zp_runs = 0\<rparr>\<rparr>)"

subsection \<open>Scanning\<close>

type_synonym scan_state = "memory_scan \<times> zero_pages \<times> ram"

definition release_pending :: "vm_calls \<Rightarrow> nat \<Rightarrow> scan_state \<Rightarrow> scan_state" where
  "release_pending vm page = (\<lambda>(m, t, ram).
     case ms_pending m of
       None \<Rightarrow> (m, t, ram)
     | Some (start, end) \<Rightarrow>
         (let m' = m\<lparr>ms_pending := None\<rparr>; addr = ms_base m + start * page; len = (end - start) * page in
          if vm_madvise vm addr len
          then (m', t\<lparr>zp_released := zp_released t + (end - start), zp_runs := zp_runs t + 1\<rparr>,
                dontneed page addr len ram)
          else (m', t, ram)))"

definition mark_page :: "vm_calls \<Rightarrow> nat \<Rightarrow> nat \<Rightarrow> bool \<Rightarrow> scan_state \<Rightarrow> scan_state" where
  "mark_page vm page index dropped st =
     (if \<not> dropped then release_pending vm page st
      else case ms_pending (fst st) of
        Some (start, end) \<Rightarrow>
          if end = index then ((fst st)\<lparr>ms_pending := Some (start, end + 1)\<rparr>, snd st)
          else (let st' = release_pending vm page st
                in ((fst st')\<lparr>ms_pending := Some (index, index + 1)\<rparr>, snd st'))
      | None \<Rightarrow>
          (let st' = release_pending vm page st
           in ((fst st')\<lparr>ms_pending := Some (index, index + 1)\<rparr>, snd st')))"

fun mark_pages :: "vm_calls \<Rightarrow> nat \<Rightarrow> nat \<Rightarrow> bool list \<Rightarrow> scan_state \<Rightarrow> scan_state" where
  "mark_pages vm page index [] st = st"
| "mark_pages vm page index (d # ds) st = mark_pages vm page (index + 1) ds (mark_page vm page index d st)"

definition spares_full_blocks :: "memory_scan \<Rightarrow> nat \<Rightarrow> bool" where
  "spares_full_blocks m first =
     (case find (\<lambda>(start, stop, _). start \<le> first \<and> first < stop) (ms_mappings m) of
        None \<Rightarrow> True
      | Some (_, _, huge) \<Rightarrow> huge)"

text \<open>Where the block at \<open>first\<close> ends, in bytes.\<close>

definition block_end :: "nat \<Rightarrow> nat \<Rightarrow> nat \<Rightarrow> nat" where
  "block_end huge_page addr end = min ((addr div huge_page + 1) * huge_page) end"

text \<open>Which pages of a block to drop, and the totals after the decision.\<close>

definition judge_block ::
  "nat \<Rightarrow> nat \<Rightarrow> bool \<Rightarrow> bool list \<Rightarrow> ram \<Rightarrow> zero_pages \<Rightarrow> bool list \<times> zero_pages" where
  "judge_block page addr full resident ram t =
     (let count = length resident in
      if full
      then (let zero = is_zero ram addr (count * page);
                t1 = t\<lparr>zp_resident := zp_resident t + count\<rparr>
            in (replicate count zero,
                if zero then t1\<lparr>zp_zero := zp_zero t1 + count\<rparr>
                else t1\<lparr>zp_kept_blocks := zp_kept_blocks t1 + 1\<rparr>))
      else (let drops = map (\<lambda>i. resident ! i \<and> is_zero ram (addr + i * page) page) [0..<count]
            in (drops, t\<lparr>zp_resident := zp_resident t + length (filter id resident),
                         zp_zero := zp_zero t + length (filter id drops)\<rparr>)))"

text \<open>A run never spans an overlay.\<close>

definition skip_overlay :: "vm_calls \<Rightarrow> nat \<Rightarrow> nat \<Rightarrow> scan_state \<Rightarrow> scan_state" where
  "skip_overlay vm page start st =
     (if ms_next (fst st) < start
      then (let st' = release_pending vm page st in ((fst st')\<lparr>ms_next := start\<rparr>, snd st'))
      else st)"

definition scan_extent :: "vm_calls \<Rightarrow> nat \<Rightarrow> nat \<Rightarrow> nat \<Rightarrow> scan_state \<Rightarrow> scan_state" where
  "scan_extent vm page huge_page extent_end = (\<lambda>(m, t, ram).
     let base = ms_base m;
         first = ms_next m;
         addr = base + first * page;
         blk = block_end huge_page addr (base + extent_end * page);
         last = (blk - base) div page;
         count = last - first
     in if \<not> vm_mincore vm addr
        then release_pending vm page (m\<lparr>ms_next := ms_pages m\<rparr>, t, ram)
        else
          let resident = mincore page addr count ram;
              full = (spares_full_blocks m first \<and> blk - addr = huge_page \<and> list_all id resident);
              (drops, t') = judge_block page addr full resident ram t;
              (m', rest) = mark_pages vm page first drops (m, t', ram);
              m'' = m'\<lparr>ms_next := last\<rparr>
          in if ms_pages m'' \<le> last then release_pending vm page (m'', rest) else (m'', rest))"

definition scan_block :: "vm_calls \<Rightarrow> nat \<Rightarrow> nat \<Rightarrow> scan_state \<Rightarrow> scan_state" where
  "scan_block vm page huge_page st =
     (case find (\<lambda>(_, extent_end). ms_next (fst st) < extent_end) (ms_extents (fst st)) of
        None \<Rightarrow> release_pending vm page ((fst st)\<lparr>ms_next := ms_pages (fst st)\<rparr>, snd st)
      | Some (start, extent_end) \<Rightarrow>
          scan_extent vm page huge_page extent_end (skip_overlay vm page start st))"

subsection \<open>Slices\<close>

text \<open>
  The first memory that is not done gets one block. A slice is the number of blocks it gets
  to before its budget has passed, at least one.
\<close>

fun scan_first ::
  "vm_calls \<Rightarrow> nat \<Rightarrow> nat \<Rightarrow> memory_scan list \<Rightarrow> zero_pages \<Rightarrow> ram
     \<Rightarrow> (memory_scan list \<times> zero_pages \<times> ram) option" where
  "scan_first vm page huge_page [] t ram = None"
| "scan_first vm page huge_page (m # ms) t ram =
     (if ms_next m < ms_pages m
      then (case scan_block vm page huge_page (m, t, ram) of (m', t', ram') \<Rightarrow> Some (m' # ms, t', ram'))
      else map_option (\<lambda>(ms', rest). (m # ms', rest)) (scan_first vm page huge_page ms t ram))"

fun step_loop :: "vm_calls \<Rightarrow> nat \<Rightarrow> compaction \<times> ram \<Rightarrow> compaction \<times> ram" where
  "step_loop vm 0 st = st"
| "step_loop vm (Suc blocks) (c, ram) =
     (case scan_first vm (cp_page c) (cp_huge_page c) (cp_memories c) (cp_totals c) ram of
        None \<Rightarrow> (c, ram)
      | Some (ms, t, ram') \<Rightarrow> step_loop vm blocks (c\<lparr>cp_memories := ms, cp_totals := t\<rparr>, ram'))"

definition compaction_done :: "compaction \<Rightarrow> bool" where
  "compaction_done c = list_all (\<lambda>m. ms_pages m \<le> ms_next m) (cp_memories c)"

definition compaction_step :: "vm_calls \<Rightarrow> nat \<Rightarrow> compaction \<times> ram \<Rightarrow> bool \<times> compaction \<times> ram" where
  "compaction_step vm blocks st =
     (let st' = step_loop vm blocks st in (compaction_done (fst st'), st'))"

fun compaction_slices :: "vm_calls \<Rightarrow> nat list \<Rightarrow> compaction \<times> ram \<Rightarrow> compaction \<times> ram" where
  "compaction_slices vm [] st = st"
| "compaction_slices vm (blocks # slices) st =
     compaction_slices vm slices (snd (compaction_step vm blocks st))"

subsection \<open>Invariants\<close>

definition in_page :: "nat \<Rightarrow> nat \<Rightarrow> nat \<Rightarrow> nat \<Rightarrow> bool" where
  "in_page page base i a = (base + i * page \<le> a \<and> a < base + (i + 1) * page)"

definition zero_page :: "nat \<Rightarrow> ram \<Rightarrow> nat \<Rightarrow> nat \<Rightarrow> bool" where
  "zero_page page ram base i = (\<forall>a. in_page page base i a \<longrightarrow> rm_byte ram a = 0)"

definition anonymous_page :: "nat \<Rightarrow> ram \<Rightarrow> nat \<Rightarrow> nat \<Rightarrow> bool" where
  "anonymous_page page ram base i = (\<forall>a. in_page page base i a \<longrightarrow> rm_backing ram a = None)"

definition pending_ok :: "nat \<Rightarrow> ram \<Rightarrow> memory_scan \<Rightarrow> bool" where
  "pending_ok page ram m =
     (case ms_pending m of
        None \<Rightarrow> True
      | Some (s, e) \<Rightarrow> s < e \<and> (\<forall>i. s \<le> i \<longrightarrow> i < e \<longrightarrow>
          zero_page page ram (ms_base m) i \<and> anonymous_page page ram (ms_base m) i))"

definition extents_ok :: "nat \<Rightarrow> ram \<Rightarrow> memory_scan \<Rightarrow> bool" where
  "extents_ok page ram m =
     (sorted_wrt (\<lambda>(_, e) (s', _). e \<le> s') (ms_extents m)
      \<and> (\<forall>(s, e) \<in> set (ms_extents m). s < e \<and> e \<le> ms_pages m
           \<and> (\<forall>i. s \<le> i \<longrightarrow> i < e \<longrightarrow> anonymous_page page ram (ms_base m) i)))"

definition same_content :: "ram \<Rightarrow> ram \<Rightarrow> bool" where
  "same_content ram ram' =
     (rm_byte ram' = rm_byte ram \<and> rm_backing ram' = rm_backing ram
      \<and> (\<forall>n. rm_resident ram' n \<longrightarrow> rm_resident ram n))"

text \<open>
  A page is left when it is resident and zero and not part of the pending run. One piece of
  the scan advances another: it shows the guest the same bytes, keeps the pending run sound
  and, unless a release fails, leaves only pages that were left before and are not \<open>caught\<close>.
\<close>

definition left :: "nat \<Rightarrow> ram \<Rightarrow> memory_scan \<Rightarrow> nat \<Rightarrow> bool" where
  "left page ram m i =
     (rm_resident ram (ms_base m div page + i) \<and> zero_page page ram (ms_base m) i
      \<and> (case ms_pending m of None \<Rightarrow> True | Some (s, e) \<Rightarrow> \<not> (s \<le> i \<and> i < e)))"

definition same_shape :: "memory_scan \<Rightarrow> memory_scan \<Rightarrow> bool" where
  "same_shape m m' =
     (ms_base m' = ms_base m \<and> ms_pages m' = ms_pages m \<and> ms_mappings m' = ms_mappings m
      \<and> ms_extents m' = ms_extents m)"

definition releases_succeed :: "vm_calls \<Rightarrow> bool" where
  "releases_succeed vm = (\<forall>addr len. vm_madvise vm addr len)"

definition advances :: "vm_calls \<Rightarrow> nat \<Rightarrow> (nat \<Rightarrow> bool) \<Rightarrow> scan_state \<Rightarrow> scan_state \<Rightarrow> bool" where
  "advances vm page caught = (\<lambda>(m, t, ram) (m', t', ram').
     same_content ram ram' \<and> same_shape m m' \<and> pending_ok page ram' m'
     \<and> (releases_succeed vm \<longrightarrow> (\<forall>i. left page ram' m' i \<longrightarrow> left page ram m i \<and> \<not> caught i)))"

text \<open>The sizes of a host: pages are whole words and huge pages whole pages.\<close>

definition sizes_ok :: "nat \<Rightarrow> nat \<Rightarrow> bool" where
  "sizes_ok page huge_page = (0 < page \<and> 8 dvd page \<and> 0 < huge_page \<and> page dvd huge_page)"

subsection \<open>Lemmas\<close>

lemma same_content_refl [simp]: "same_content ram ram"
  by (simp add: same_content_def)

lemma same_content_trans: "same_content r r' \<Longrightarrow> same_content r' r'' \<Longrightarrow> same_content r r''"
  by (simp add: same_content_def)

lemma same_content_pages:
  assumes "same_content ram ram'"
  shows "zero_page page ram' = zero_page page ram" "anonymous_page page ram' = anonymous_page page ram"
    "pending_ok page ram' = pending_ok page ram" "extents_ok page ram' = extents_ok page ram"
proof -
  show z: "zero_page page ram' = zero_page page ram" and a: "anonymous_page page ram' = anonymous_page page ram"
    using assms by (auto simp: same_content_def zero_page_def anonymous_page_def fun_eq_iff)
  show "pending_ok page ram' = pending_ok page ram" "extents_ok page ram' = extents_ok page ram"
    unfolding pending_ok_def [abs_def] extents_ok_def [abs_def] z a by simp_all
qed

lemma address_page:
  fixes page :: nat
  assumes "0 < page" "base + s * page \<le> a" "a < base + s * page + (e - s) * page"
  shows "\<exists>i. s \<le> i \<and> i < e \<and> in_page page base i a"
proof -
  define d where "d = a - base"
  have a: "a = base + d" and d: "s * page \<le> d" using assms(2) by (auto simp: d_def)
  have "s < e" using assms(2,3) by (cases "s < e") auto
  then have "d < e * page" using assms(3) a by (simp add: diff_mult_distrib)
  then have "d div page < e" using assms(1) by (simp add: div_less_iff_less_mult)
  moreover have "s \<le> d div page" using d assms(1) by (simp add: less_eq_div_iff_mult_less_eq)
  moreover have "in_page page base (d div page) a"
    using assms(1) dividend_less_div_times [of page d] by (simp add: in_page_def a)
  ultimately show ?thesis by blast
qed

lemma dontneed_same_content:
  assumes "0 < page" "\<And>i. s \<le> i \<Longrightarrow> i < e \<Longrightarrow> zero_page page ram base i \<and> anonymous_page page ram base i"
  shows "same_content ram (dontneed page (base + s * page) ((e - s) * page) ram)"
proof -
  have "rm_byte ram a = 0 \<and> rm_backing ram a = None"
    if "base + s * page \<le> a" "a < base + s * page + (e - s) * page" for a
    using address_page [OF assms(1) that] assms(2) by (auto simp: zero_page_def anonymous_page_def)
  then show ?thesis by (auto simp: same_content_def dontneed_def fun_eq_iff)
qed

lemma release_pending_ok:
  assumes "0 < page" "pending_ok page ram m" "release_pending vm page (m, t, ram) = (m', t', ram')"
  shows "same_content ram ram' \<and> m' = m\<lparr>ms_pending := None\<rparr>"
  using assms dontneed_same_content [OF assms(1), of _ _ ram "ms_base m"]
  by (auto simp: release_pending_def pending_ok_def Let_def split: option.splits if_splits)

lemma u64_at_zero: "u64_at ram a = 0 \<longleftrightarrow> (\<forall>k < 8. rm_byte ram (a + k) = 0)"
  by (auto simp: u64_at_def sum_list_eq_0_iff unsigned_eq_0_iff)

lemma is_zero_iff:
  assumes "8 dvd len"
  shows "is_zero ram addr len \<longleftrightarrow> (\<forall>d < len. rm_byte ram (addr + d) = 0)"
proof -
  have "is_zero ram addr len \<longleftrightarrow> (\<forall>i < len div 8. \<forall>k < 8. rm_byte ram (addr + (8 * i + k)) = 0)"
    by (auto simp: is_zero_def list_all_iff u64_at_zero add.assoc)
  also have "\<dots> \<longleftrightarrow> (\<forall>d < len. rm_byte ram (addr + d) = 0)"
  proof (intro iffI allI impI)
    fix d assume all: "\<forall>i < len div 8. \<forall>k < 8. rm_byte ram (addr + (8 * i + k)) = 0" and "d < len"
    then have "d div 8 < len div 8" using assms by (auto elim!: dvdE)
    moreover have "d mod 8 < 8" by simp
    ultimately have "rm_byte ram (addr + (8 * (d div 8) + d mod 8)) = 0" using all by blast
    then show "rm_byte ram (addr + d) = 0" by simp
  next
    fix i k :: nat assume all: "\<forall>d < len. rm_byte ram (addr + d) = 0" and "i < len div 8" "k < 8"
    then have "8 * i + k < len" using assms by (auto elim!: dvdE)
    with all show "rm_byte ram (addr + (8 * i + k)) = 0" by blast
  qed
  finally show ?thesis .
qed

lemma is_zero_pages:
  assumes "8 dvd page" "0 < page"
  shows "is_zero ram (base + first * page) (count * page) \<longleftrightarrow>
    (\<forall>i. first \<le> i \<longrightarrow> i < first + count \<longrightarrow> zero_page page ram base i)"
proof -
  have "is_zero ram (base + first * page) (count * page) \<longleftrightarrow>
      (\<forall>d < count * page. rm_byte ram (base + first * page + d) = 0)"
    using assms by (simp add: is_zero_iff)
  also have "\<dots> \<longleftrightarrow> (\<forall>i. first \<le> i \<longrightarrow> i < first + count \<longrightarrow> zero_page page ram base i)"
  proof (intro iffI allI impI)
    fix i assume all: "\<forall>d < count * page. rm_byte ram (base + first * page + d) = 0"
      and i: "first \<le> i" "i < first + count"
    show "zero_page page ram base i"
      unfolding zero_page_def in_page_def
    proof (intro allI impI)
      fix a assume a: "base + i * page \<le> a \<and> a < base + (i + 1) * page"
      have "first * page \<le> i * page" "(i + 1) * page \<le> (first + count) * page"
        using i by (intro mult_le_mono1; simp)+
      with a have "base + first * page \<le> a" "a < base + first * page + count * page"
        unfolding add_mult_distrib by linarith+
      then have "a - (base + first * page) < count * page" "base + first * page \<le> a" by linarith+
      with all show "rm_byte ram a = 0" by (metis le_add_diff_inverse)
    qed
  next
    fix d assume all: "\<forall>i. first \<le> i \<longrightarrow> i < first + count \<longrightarrow> zero_page page ram base i"
      and d: "d < count * page"
    with address_page [of page base first "base + first * page + d" "first + count"] assms(2)
    obtain i where "first \<le> i" "i < first + count" "in_page page base i (base + first * page + d)" by auto
    with all show "rm_byte ram (base + first * page + d) = 0" by (auto simp: zero_page_def)
  qed
  finally show ?thesis .
qed

lemma is_zero_page:
  "8 dvd page \<Longrightarrow> 0 < page \<Longrightarrow> is_zero ram (base + i * page) page \<longleftrightarrow> zero_page page ram base i"
  using is_zero_pages [of page ram base i 1] by (auto simp: less_Suc_eq_le)

lemma same_shape_simps [simp]:
  "same_shape m m" "same_shape m (m'\<lparr>ms_pending := p\<rparr>) = same_shape m m'"
  "same_shape m (m'\<lparr>ms_next := n\<rparr>) = same_shape m m'"
  "same_shape (m\<lparr>ms_next := n\<rparr>) m' = same_shape m m'"
  by (auto simp: same_shape_def)

lemma left_next [simp]: "left page ram (m\<lparr>ms_next := n\<rparr>) = left page ram m"
  "pending_ok page ram (m\<lparr>ms_next := n\<rparr>) = pending_ok page ram m"
  by (simp_all add: left_def pending_ok_def fun_eq_iff split: option.splits)

lemma advances_trans:
  assumes "advances vm page c st st'" "advances vm page c' st' st''"
  shows "advances vm page (\<lambda>i. c i \<or> c' i) st st''"
  using assms
  by (cases st; cases st'; cases st'') (auto simp: advances_def same_shape_def intro: same_content_trans)

lemma advances_weaken:
  "advances vm page c st st' \<Longrightarrow> (\<And>i. c' i \<Longrightarrow> c i) \<Longrightarrow> advances vm page c' st st'"
  by (cases st; cases st') (auto simp: advances_def)

lemma release_pending_advances:
  assumes "0 < page" "page dvd ms_base m" "pending_ok page ram m"
  shows "advances vm page (\<lambda>_. False) (m, t, ram) (release_pending vm page (m, t, ram))"
    and "ms_pending (fst (release_pending vm page (m, t, ram))) = None"
    and "ms_next (fst (release_pending vm page (m, t, ram))) = ms_next m"
proof -
  obtain m' t' ram' where run: "release_pending vm page (m, t, ram) = (m', t', ram')" by (metis prod.exhaust)
  note ok = release_pending_ok [OF assms(1,3) run]
  have "left page ram m i" if "releases_succeed vm" "left page ram' m' i" for i
  proof (cases "ms_pending m")
    case None
    with that run show ?thesis by (simp add: release_pending_def)
  next
    case (Some p)
    obtain s e where p: "p = (s, e)" by (cases p)
    with Some that(1) run have ram': "ram' = dontneed page (ms_base m + s * page) ((e - s) * page) ram"
      by (auto simp: release_pending_def Let_def releases_succeed_def)
    have n: "(ms_base m div page + i) * page = ms_base m + i * page"
      using assms(2) by (simp add: add_mult_distrib)
    have se: "s < e" using assms(3) Some p by (simp add: pending_ok_def)
    have "\<not> (s \<le> i \<and> i < e)"
    proof
      assume "s \<le> i \<and> i < e"
      then have "s * page \<le> i * page" "i * page < e * page" using assms(1) by auto
      moreover have "s * page + (e - s) * page = e * page" using se by (simp add: add_mult_distrib [symmetric])
      ultimately show False
        using that(2) ok by (auto simp: ram' left_def dontneed_def n)
    qed
    with that(2) ok Some p show ?thesis
      using same_content_pages(1) by (auto simp: left_def same_content_def zero_page_def)
  qed
  with ok run show "advances vm page (\<lambda>_. False) (m, t, ram) (release_pending vm page (m, t, ram))"
    "ms_pending (fst (release_pending vm page (m, t, ram))) = None"
    "ms_next (fst (release_pending vm page (m, t, ram))) = ms_next m"
    by (simp_all add: advances_def pending_ok_def)
qed

lemma advances_shape: "advances vm page c (m, t, ram) (m', t', ram') \<Longrightarrow> ms_base m' = ms_base m"
  by (simp add: advances_def same_shape_def)

lemma mark_page_advances:
  assumes "0 < page" "page dvd ms_base m" "pending_ok page ram m"
    and "d \<Longrightarrow> zero_page page ram (ms_base m) index \<and> anonymous_page page ram (ms_base m) index"
  shows "advances vm page (\<lambda>i. i = index \<and> d) (m, t, ram) (mark_page vm page index d (m, t, ram))"
    and "ms_next (fst (mark_page vm page index d (m, t, ram))) = ms_next m"
proof -
  note rel = release_pending_advances [OF assms(1-3), of vm t]
  obtain m' t' ram' where run: "release_pending vm page (m, t, ram) = (m', t', ram')" by (metis prod.exhaust)
  have fresh: "advances vm page (\<lambda>i. i = index \<and> d) (m, t, ram)
      (m'\<lparr>ms_pending := Some (index, index + 1)\<rparr>, t', ram')" if "d"
  proof -
    have "zero_page page ram' (ms_base m) index \<and> anonymous_page page ram' (ms_base m) index"
      using rel(1) assms(4) that by (auto simp: run advances_def same_content_pages)
    with rel that show ?thesis
      by (auto simp: run advances_def pending_ok_def left_def same_shape_def less_Suc_eq)
  qed
  have grown: "advances vm page (\<lambda>i. i = index \<and> d) (m, t, ram)
      (m\<lparr>ms_pending := Some (s, index + 1)\<rparr>, t, ram)" if "d" "ms_pending m = Some (s, index)" for s
    using assms(3,4) that by (auto simp: advances_def pending_ok_def left_def less_Suc_eq)
  show "advances vm page (\<lambda>i. i = index \<and> d) (m, t, ram) (mark_page vm page index d (m, t, ram))"
    using fresh grown rel(1)
    by (auto simp: mark_page_def run Let_def elim: advances_weaken split: option.splits)
  show "ms_next (fst (mark_page vm page index d (m, t, ram))) = ms_next m"
    using rel(3) by (auto simp: mark_page_def run Let_def split: option.splits)
qed

lemma mark_pages_advances:
  assumes "0 < page" "page dvd ms_base m" "pending_ok page ram m"
    and "\<And>k. k < length ds \<Longrightarrow> ds ! k \<Longrightarrow>
      zero_page page ram (ms_base m) (index + k) \<and> anonymous_page page ram (ms_base m) (index + k)"
  shows "advances vm page (\<lambda>i. \<exists>k < length ds. i = index + k \<and> ds ! k) (m, t, ram)
      (mark_pages vm page index ds (m, t, ram))
    \<and> ms_next (fst (mark_pages vm page index ds (m, t, ram))) = ms_next m"
  using assms
proof (induction ds arbitrary: index m t ram)
  case Nil
  then show ?case by (simp add: advances_def)
next
  case (Cons d ds)
  obtain m1 t1 ram1 where run: "mark_page vm page index d (m, t, ram) = (m1, t1, ram1)" by (metis prod.exhaust)
  have one: "advances vm page (\<lambda>i. i = index \<and> d) (m, t, ram) (m1, t1, ram1)" "ms_next m1 = ms_next m"
    using mark_page_advances [of page m ram d index vm t] Cons.prems(1-3) Cons.prems(4) [of 0] run by simp_all
  then have base: "ms_base m1 = ms_base m" and same: "same_content ram ram1" and pend: "pending_ok page ram1 m1"
    by (auto simp: advances_def same_shape_def)
  have later: "zero_page page ram1 (ms_base m1) (index + 1 + k) \<and> anonymous_page page ram1 (ms_base m1) (index + 1 + k)"
    if "k < length ds" "ds ! k" for k
    using Cons.prems(4) [of "Suc k"] that base same_content_pages(1,2) [OF same] by simp
  have rest: "advances vm page (\<lambda>i. \<exists>k < length ds. i = index + 1 + k \<and> ds ! k) (m1, t1, ram1)
      (mark_pages vm page (index + 1) ds (m1, t1, ram1))"
    "ms_next (fst (mark_pages vm page (index + 1) ds (m1, t1, ram1))) = ms_next m1"
    using Cons.IH [OF Cons.prems(1) _ pend, of "index + 1" t1] later Cons.prems(2) base by auto
  have "advances vm page (\<lambda>i. (i = index \<and> d) \<or> (\<exists>k < length ds. i = index + 1 + k \<and> ds ! k)) (m, t, ram)
      (mark_pages vm page index (d # ds) (m, t, ram))"
    using advances_trans [OF one(1) rest(1)] by (simp add: run)
  then have "advances vm page (\<lambda>i. \<exists>k < length (d # ds). i = index + k \<and> (d # ds) ! k) (m, t, ram)
      (mark_pages vm page index (d # ds) (m, t, ram))"
    by (rule advances_weaken) (auto simp: less_Suc_eq_0_disj)
  with rest(2) one(2) show ?case by (simp add: run)
qed

lemma block_geometry:
  assumes "sizes_ok page huge_page" "page dvd base" "first < extent_end"
    and "blk = block_end huge_page (base + first * page) (base + extent_end * page)"
    and "stop = (blk - base) div page"
  shows "first < stop" "stop \<le> extent_end" "stop - first \<le> huge_page div page"
proof -
  obtain b h where base: "base = page * b" and huge: "huge_page = page * h"
    using assms(1,2) by (auto simp: sizes_ok_def elim!: dvdE)
  have pos: "0 < page" "0 < h" using assms(1) huge by (auto simp: sizes_ok_def)
  define q where "q = ((b + first) div h + 1) * h"
  have q: "b + first < q" "q \<le> b + first + h"
    using pos(2) dividend_less_div_times [of h "b + first"] div_times_less_eq_dividend [of "b + first" h]
    by (simp_all add: q_def add_mult_distrib)
  have "(base + first * page) div huge_page = (b + first) div h"
    using pos by (simp add: base huge add_mult_distrib2 [symmetric] mult.commute [of first])
  then have "blk = page * min q (b + extent_end)"
    using assms(4) by (simp add: block_end_def q_def base huge nat_mult_min_right algebra_simps)
  then have stop: "stop = min q (b + extent_end) - b"
    using assms(5) pos by (simp add: base diff_mult_distrib2 [symmetric])
  show "first < stop" "stop \<le> extent_end" using q assms(3) by (auto simp: stop)
  show "stop - first \<le> huge_page div page" using q pos by (simp add: stop huge)
qed

lemma length_mincore [simp]: "length (mincore page addr count ram) = count"
  by (simp add: mincore_def)

lemma judge_block_drops:
  assumes "0 < page" "8 dvd page" "judge_block page (base + first * page) full resident ram t = (drops, t')"
  shows "length drops = length resident"
    and "k < length resident \<Longrightarrow> drops ! k \<Longrightarrow> zero_page page ram base (first + k)"
    and "k < length resident \<Longrightarrow> \<not> full \<Longrightarrow> drops ! k \<longleftrightarrow> resident ! k \<and> zero_page page ram base (first + k)"
proof -
  have addr: "base + first * page + i * page = base + (first + i) * page" for i
    by (simp add: add_mult_distrib)
  have whole: "drops = replicate (length resident) (is_zero ram (base + first * page) (length resident * page))"
    if full using assms(3) that by (simp add: judge_block_def Let_def)
  have single: "drops = map (\<lambda>i. resident ! i \<and> is_zero ram (base + (first + i) * page) page) [0..<length resident]"
    if "\<not> full" using assms(3) that by (simp add: judge_block_def Let_def addr)
  show "length drops = length resident" using whole single by (cases full) simp_all
  show part: "k < length resident \<Longrightarrow> \<not> full \<Longrightarrow> drops ! k \<longleftrightarrow> resident ! k \<and> zero_page page ram base (first + k)"
    using single is_zero_page [OF assms(2,1), of ram base "first + k"] by simp
  show "zero_page page ram base (first + k)" if "k < length resident" "drops ! k"
  proof (cases full)
    case True
    with whole that have "is_zero ram (base + first * page) (length resident * page)" by simp
    with that(1) show ?thesis by (simp add: is_zero_pages [OF assms(2,1)])
  qed (use part that in simp)
qed

text \<open>The block \<open>scan_extent\<close> looks at: where it stops, the pages it marks, and what is left to do.\<close>

lemma scan_extent_marks:
  assumes "sizes_ok page huge_page" "page dvd ms_base m" "pending_ok page ram m" "ms_next m < ee"
    and "\<forall>i. ms_next m \<le> i \<longrightarrow> i < ee \<longrightarrow> anonymous_page page ram (ms_base m) i"
  obtains stop drops m1 t1 ram1 where "ms_next m < stop" "stop \<le> ee" "length drops = stop - ms_next m"
    "advances vm page (\<lambda>i. \<exists>k < length drops. i = ms_next m + k \<and> drops ! k) (m, t, ram) (m1, t1, ram1)"
    "\<And>k. \<not> spares_full_blocks m (ms_next m) \<Longrightarrow> k < stop - ms_next m \<Longrightarrow> left page ram m (ms_next m + k) \<Longrightarrow> drops ! k"
    "scan_extent vm page huge_page ee (m, t, ram) =
      (if \<not> vm_mincore vm (ms_base m + ms_next m * page) then release_pending vm page (m\<lparr>ms_next := ms_pages m\<rparr>, t, ram)
       else if ms_pages m \<le> stop then release_pending vm page (m1\<lparr>ms_next := stop\<rparr>, t1, ram1)
       else (m1\<lparr>ms_next := stop\<rparr>, t1, ram1))"
proof -
  have pos: "0 < page" "8 dvd page" using assms(1) by (auto simp: sizes_ok_def)
  let ?first = "ms_next m" and ?addr = "ms_base m + ms_next m * page"
  define blk where "blk = block_end huge_page ?addr (ms_base m + ee * page)"
  define stop where "stop = (blk - ms_base m) div page"
  note geo = block_geometry [OF assms(1,2,4) blk_def stop_def]
  define resident where "resident = mincore page ?addr (stop - ?first) ram"
  define full where "full = (spares_full_blocks m ?first \<and> blk - ?addr = huge_page \<and> list_all id resident)"
  obtain drops t1 where judged: "judge_block page ?addr full resident ram t = (drops, t1)" by (meson surj_pair)
  note drops = judge_block_drops [OF pos judged]
  have len: "length resident = stop - ?first" by (simp add: resident_def)
  obtain m1 t2 ram1 where marked: "mark_pages vm page ?first drops (m, t1, ram) = (m1, t2, ram1)"
    by (metis prod.exhaust)
  have mark: "advances vm page (\<lambda>i. \<exists>k < length drops. i = ?first + k \<and> drops ! k) (m, t, ram) (m1, t2, ram1)"
    using mark_pages_advances [OF pos(1) assms(2,3), of drops ?first vm t1] drops(1,2) len geo(2) assms(5) marked
    by (auto simp: advances_def)
  then have pages: "ms_pages m1 = ms_pages m" by (auto simp: advances_def same_shape_def)
  have caught: "drops ! k" if "\<not> spares_full_blocks m ?first" "k < stop - ?first" "left page ram m (?first + k)" for k
  proof -
    have "resident ! k"
      using that(2,3) assms(2) pos by (auto simp: resident_def mincore_def left_def add.assoc elim!: dvdE)
    with that len drops(3) [of k] show ?thesis by (simp add: full_def left_def)
  qed
  show thesis
    by (rule that [OF geo(1,2) drops(1) [unfolded len] mark caught])
      (use judged marked pages in \<open>simp_all add: scan_extent_def Let_def blk_def [symmetric] stop_def [symmetric]
        resident_def [symmetric] full_def [symmetric]\<close>)
qed

text \<open>Releasing what is pending at the end of a memory, after a step that advanced.\<close>

lemma release_after_advance:
  assumes "0 < page" "page dvd ms_base m" "advances vm page caught (m, t, ram) (m1, t1, ram1)"
    and "release_pending vm page (m1\<lparr>ms_next := n\<rparr>, t1, ram1) = (m', t', ram')"
  shows "advances vm page caught (m, t, ram) (m', t', ram') \<and> ms_next m' = n \<and> ms_pending m' = None"
proof -
  have ok: "page dvd ms_base m1" "pending_ok page ram1 m1"
    using assms(2,3) by (auto simp: advances_def same_shape_def)
  note fin = release_pending_advances [OF assms(1), of "m1\<lparr>ms_next := n\<rparr>" ram1 vm t1]
  have "advances vm page (\<lambda>i. caught i \<or> False) (m, t, ram) (release_pending vm page (m1\<lparr>ms_next := n\<rparr>, t1, ram1))"
    by (rule advances_trans [of _ _ _ _ "(m1\<lparr>ms_next := n\<rparr>, t1, ram1)"]) (use assms(3) fin(1) ok in \<open>auto simp: advances_def\<close>)
  with fin(2,3) ok show ?thesis by (simp add: assms(4))
qed

lemma scan_extent_advances:
  assumes "sizes_ok page huge_page" "page dvd ms_base m" "pending_ok page ram m"
    and "ms_next m < ee" "ee \<le> ms_pages m"
    and "\<forall>i. ms_next m \<le> i \<longrightarrow> i < ee \<longrightarrow> anonymous_page page ram (ms_base m) i"
    and "scan_extent vm page huge_page ee (m, t, ram) = (m', t', ram')"
  shows "advances vm page (\<lambda>_. False) (m, t, ram) (m', t', ram')"
    and "ms_next m < ms_next m' \<and> ms_next m' \<le> ms_pages m' \<and> (ms_pages m' \<le> ms_next m' \<longrightarrow> ms_pending m' = None)"
    and "\<forall>a. vm_mincore vm a \<Longrightarrow> ms_next m' \<le> ee"
    and "\<forall>a. vm_mincore vm a \<Longrightarrow> releases_succeed vm \<Longrightarrow> \<not> spares_full_blocks m (ms_next m) \<Longrightarrow>
      ms_next m \<le> i \<Longrightarrow> i < ms_next m' \<Longrightarrow> \<not> left page ram' m' i"
proof -
  have pos: "0 < page" using assms(1) by (simp add: sizes_ok_def)
  let ?addr = "ms_base m + ms_next m * page"
  obtain stop drops m1 t1 ram1 where geo: "ms_next m < stop" "stop \<le> ee" and len: "length drops = stop - ms_next m"
    and mark: "advances vm page (\<lambda>i. \<exists>k < length drops. i = ms_next m + k \<and> drops ! k) (m, t, ram) (m1, t1, ram1)"
    and caught: "\<And>k. \<not> spares_full_blocks m (ms_next m) \<Longrightarrow> k < stop - ms_next m \<Longrightarrow>
      left page ram m (ms_next m + k) \<Longrightarrow> drops ! k"
    and run: "scan_extent vm page huge_page ee (m, t, ram) =
      (if \<not> vm_mincore vm ?addr then release_pending vm page (m\<lparr>ms_next := ms_pages m\<rparr>, t, ram)
       else if ms_pages m \<le> stop then release_pending vm page (m1\<lparr>ms_next := stop\<rparr>, t1, ram1)
       else (m1\<lparr>ms_next := stop\<rparr>, t1, ram1))"
    by (rule scan_extent_marks [OF assms(1-4,6), where vm = vm and t = t]) (rule that)
  have stay: "advances vm page (\<lambda>_. False) (m, t, ram) (m, t, ram)"
    using assms(3) by (simp add: advances_def same_shape_def same_content_def)
  have failed: "advances vm page (\<lambda>_. False) (m, t, ram) (m', t', ram') \<and> ms_next m' = ms_pages m \<and> ms_pending m' = None"
    if "\<not> vm_mincore vm ?addr"
    by (rule release_after_advance [OF pos assms(2) stay]) (use that run assms(7) in simp)
  have whole: "advances vm page (\<lambda>i. \<exists>k < length drops. i = ms_next m + k \<and> drops ! k) (m, t, ram) (m', t', ram')
      \<and> ms_next m' = stop \<and> (ms_pages m' \<le> stop \<longrightarrow> ms_pending m' = None)" if "vm_mincore vm ?addr"
    using release_after_advance [OF pos assms(2) mark, of stop m' t' ram'] that run assms(7) mark
    by (cases "ms_pages m \<le> stop") (auto simp: advances_def same_shape_def)
  show adv: "advances vm page (\<lambda>_. False) (m, t, ram) (m', t', ram')"
    using whole failed by (cases "vm_mincore vm ?addr") (auto elim: advances_weaken)
  then have pages: "ms_pages m' = ms_pages m" by (simp add: advances_def same_shape_def)
  show "ms_next m < ms_next m' \<and> ms_next m' \<le> ms_pages m' \<and> (ms_pages m' \<le> ms_next m' \<longrightarrow> ms_pending m' = None)"
    using whole failed geo assms(4,5) pages by (cases "vm_mincore vm ?addr") auto
  show "\<forall>a. vm_mincore vm a \<Longrightarrow> ms_next m' \<le> ee" using whole geo by auto
  show "\<not> left page ram' m' i" if "\<forall>a. vm_mincore vm a" "releases_succeed vm"
    "\<not> spares_full_blocks m (ms_next m)" "ms_next m \<le> i" "i < ms_next m'"
  proof -
    from that(4) obtain k where k: "i = ms_next m + k" using le_Suc_ex by blast
    with whole that(1,5) have "k < stop - ms_next m" by auto
    with whole that k len caught [of k] show ?thesis by (auto simp: advances_def)
  qed
qed

text \<open>What holds of a memory under scan, and what a scan without failures has caught so far.\<close>

definition scan_inv :: "nat \<Rightarrow> ram \<Rightarrow> memory_scan \<Rightarrow> bool" where
  "scan_inv page ram m =
     (page dvd ms_base m \<and> pending_ok page ram m \<and> extents_ok page ram m \<and> ms_next m \<le> ms_pages m
      \<and> (ms_pages m \<le> ms_next m \<longrightarrow> ms_pending m = None))"

definition in_extents :: "memory_scan \<Rightarrow> nat \<Rightarrow> bool" where
  "in_extents m i = (\<exists>(s, e) \<in> set (ms_extents m). s \<le> i \<and> i < e)"

definition swept :: "nat \<Rightarrow> ram \<Rightarrow> memory_scan \<Rightarrow> bool" where
  "swept page ram m = (\<forall>i < ms_next m. in_extents m i \<longrightarrow> \<not> left page ram m i)"

definition calls_succeed :: "vm_calls \<Rightarrow> bool" where
  "calls_succeed vm = ((\<forall>a. vm_mincore vm a) \<and> releases_succeed vm)"

lemma scan_inv_same: "same_content ram ram' \<Longrightarrow> scan_inv page ram' m = scan_inv page ram m"
  by (simp add: scan_inv_def same_content_pages)

lemma swept_same: "same_content ram ram' \<Longrightarrow> swept page ram m \<Longrightarrow> swept page ram' m"
  by (auto simp: swept_def left_def same_content_pages) (simp add: same_content_def)

lemma extents_ok_shape: "same_shape m m' \<Longrightarrow> extents_ok page ram m' = extents_ok page ram m"
  by (simp add: extents_ok_def same_shape_def)

lemma in_extents_shape: "same_shape m m' \<Longrightarrow> in_extents m' = in_extents m"
  by (simp add: in_extents_def same_shape_def fun_eq_iff)

lemma find_extent:
  fixes xs :: "(nat \<times> nat) list"
  assumes "sorted_wrt (\<lambda>(_, e) (s', _). e \<le> s') xs" "find (\<lambda>(_, e). n < e) xs = Some (s, e)"
    and "\<forall>(s, e) \<in> set xs. s < e"
  shows "(s, e) \<in> set xs" "n < e" "(s', e') \<in> set xs \<Longrightarrow> n \<le> i \<Longrightarrow> s' \<le> i \<Longrightarrow> i < e' \<Longrightarrow> s \<le> i"
proof -
  from assms(2) obtain j where found: "j < length xs" "n < snd (xs ! j)" "(s, e) = xs ! j"
    and before: "\<And>k. k < j \<Longrightarrow> \<not> n < snd (xs ! k)"
    unfolding find_Some_iff case_prod_beta by blast
  then have j: "j < length xs" "xs ! j = (s, e)" "n < e" by (simp_all, metis snd_conv)
  then show "(s, e) \<in> set xs" "n < e" by (metis nth_mem, simp)
  show "s \<le> i" if mem: "(s', e') \<in> set xs" and "n \<le> i" "s' \<le> i" "i < e'"
  proof -
    obtain k where k: "k < length xs" "xs ! k = (s', e')" using mem unfolding in_set_conv_nth by blast
    have "n < snd (xs ! k)" using k that by simp
    then have "\<not> k < j" using before [of k] by blast
    then consider "k = j" | "j < k" by linarith
    then show ?thesis
    proof cases
      case 1
      with j k that show ?thesis by simp
    next
      case 2
      have "e \<le> s'" using sorted_wrt_nth_less [OF assms(1) 2 k(1)] k(2) j(2) by simp
      moreover have "s < e" using assms(3) j by (metis (mono_tags, lifting) case_prodD nth_mem)
      ultimately show ?thesis using that by simp
    qed
  qed
qed

lemma skip_overlay_advances:
  assumes "0 < page" "page dvd ms_base m" "pending_ok page ram m"
    and "skip_overlay vm page start (m, t, ram) = (m', t', ram')"
  shows "advances vm page (\<lambda>_. False) (m, t, ram) (m', t', ram') \<and> ms_next m' = max (ms_next m) start"
proof -
  obtain m1 t1 ram1 where run: "release_pending vm page (m, t, ram) = (m1, t1, ram1)" by (metis prod.exhaust)
  with release_pending_advances [OF assms(1-3), of vm t] assms(3,4) show ?thesis
    by (auto simp: skip_overlay_def advances_def split: if_splits)
qed

lemma scan_block_finish:
  assumes "0 < page" "scan_inv page ram m" "ms_next m < ms_pages m"
    and "find (\<lambda>(_, e). ms_next m < e) (ms_extents m) = None"
    and "scan_block vm page huge_page (m, t, ram) = (m', t', ram')"
  shows "advances vm page (\<lambda>_. False) (m, t, ram) (m', t', ram') \<and> ms_next m' = ms_pages m
    \<and> ms_pending m' = None \<and> (\<forall>i. in_extents m i \<longrightarrow> i < ms_next m)"
proof -
  have run: "release_pending vm page (m\<lparr>ms_next := ms_pages m\<rparr>, t, ram) = (m', t', ram')"
    using assms(4,5) by (simp add: scan_block_def)
  have "\<not> ms_next m < e" if "(s, e) \<in> set (ms_extents m)" for s e
    using assms(4) that by (auto simp: find_None_iff)
  then have "\<forall>i. in_extents m i \<longrightarrow> i < ms_next m" by (fastforce simp: in_extents_def)
  with release_pending_advances [OF assms(1), of "m\<lparr>ms_next := ms_pages m\<rparr>" ram vm t] assms(2) show ?thesis
    by (simp add: run scan_inv_def advances_def)
qed

lemma scan_block_inside:
  assumes "sizes_ok page huge_page" "scan_inv page ram m" "ms_next m < ms_pages m"
    and "find (\<lambda>(_, e). ms_next m < e) (ms_extents m) = Some (s, ee)"
    and "scan_block vm page huge_page (m, t, ram) = (m', t', ram')"
  shows "advances vm page (\<lambda>_. False) (m, t, ram) (m', t', ram')
    \<and> ms_next m < ms_next m' \<and> ms_next m' \<le> ms_pages m' \<and> (ms_pages m' \<le> ms_next m' \<longrightarrow> ms_pending m' = None)"
    and "calls_succeed vm \<Longrightarrow> \<not> spares_full_blocks m (max (ms_next m) s) \<Longrightarrow>
      max (ms_next m) s \<le> i \<Longrightarrow> i < ms_next m' \<Longrightarrow> \<not> left page ram' m' i"
    and "s < ee" "\<And>i s' e'. (s', e') \<in> set (ms_extents m) \<Longrightarrow> ms_next m \<le> i \<Longrightarrow> s' \<le> i \<Longrightarrow> i < e' \<Longrightarrow> s \<le> i"
    and "ee \<le> ms_pages m"
proof -
  have pos: "0 < page" using assms(1) by (simp add: sizes_ok_def)
  have inv: "page dvd ms_base m" "pending_ok page ram m" "extents_ok page ram m"
    using assms(2) by (auto simp: scan_inv_def)
  have ext: "sorted_wrt (\<lambda>(_, e) (s', _). e \<le> s') (ms_extents m)" "\<forall>(s, e) \<in> set (ms_extents m). s < e"
    using inv(3) by (auto simp: extents_ok_def)
  note found = find_extent [OF ext(1) assms(4) ext(2)]
  have ee: "s < ee" "ee \<le> ms_pages m" "\<And>i. s \<le> i \<Longrightarrow> i < ee \<Longrightarrow> anonymous_page page ram (ms_base m) i"
    using inv(3) found(1) by (auto simp: extents_ok_def)
  obtain m1 t1 ram1 where skip: "skip_overlay vm page s (m, t, ram) = (m1, t1, ram1)" by (metis prod.exhaust)
  note skipped = skip_overlay_advances [OF pos inv(1,2) skip]
  then have m1: "same_shape m m1" "same_content ram ram1" "pending_ok page ram1 m1" "ms_next m1 = max (ms_next m) s"
    by (auto simp: advances_def)
  have run: "scan_extent vm page huge_page ee (m1, t1, ram1) = (m', t', ram')"
    using assms(4,5) skip by (simp add: scan_block_def)
  have pre: "page dvd ms_base m1" "ms_next m1 < ee" "ee \<le> ms_pages m1"
    using m1(1,4) inv(1) ee(1,2) found(2) by (simp_all add: same_shape_def)
  have anon: "\<forall>i. ms_next m1 \<le> i \<longrightarrow> i < ee \<longrightarrow> anonymous_page page ram1 (ms_base m1) i"
    using m1 ee(3) by (auto simp: same_shape_def same_content_pages)
  note block = scan_extent_advances [OF assms(1) pre(1) m1(3) pre(2,3) anon run]
  have "advances vm page (\<lambda>_. False \<or> False) (m, t, ram) (m', t', ram')"
    by (rule advances_trans [OF conjunct1 [OF skipped] block(1)])
  with block(2) m1(4) show "advances vm page (\<lambda>_. False) (m, t, ram) (m', t', ram')
    \<and> ms_next m < ms_next m' \<and> ms_next m' \<le> ms_pages m' \<and> (ms_pages m' \<le> ms_next m' \<longrightarrow> ms_pending m' = None)"
    by auto
  show "calls_succeed vm \<Longrightarrow> \<not> spares_full_blocks m (max (ms_next m) s) \<Longrightarrow>
      max (ms_next m) s \<le> i \<Longrightarrow> i < ms_next m' \<Longrightarrow> \<not> left page ram' m' i"
    using block(4) m1(1,4) by (simp add: calls_succeed_def spares_full_blocks_def same_shape_def)
  show "s < ee" "ee \<le> ms_pages m" by (rule ee)+
  show "\<And>i s' e'. (s', e') \<in> set (ms_extents m) \<Longrightarrow> ms_next m \<le> i \<Longrightarrow> s' \<le> i \<Longrightarrow> i < e' \<Longrightarrow> s \<le> i"
    by (rule found(3))
qed

lemma swept_advances:
  assumes "advances vm page caught (m, t, ram) (m', t', ram')" "calls_succeed vm" "swept page ram m"
    and "\<forall>i. in_extents m i \<longrightarrow> ms_next m \<le> i \<longrightarrow> i < ms_next m' \<longrightarrow> \<not> left page ram' m' i"
  shows "swept page ram' m'"
  unfolding swept_def
proof (intro allI impI)
  fix i assume i: "i < ms_next m'" "in_extents m' i"
  from assms(1) have "same_shape m m'" by (simp add: advances_def)
  with i(2) have ext: "in_extents m i" by (simp add: in_extents_shape)
  show "\<not> left page ram' m' i"
  proof (cases "i < ms_next m")
    case True
    with ext assms(3) have "\<not> left page ram m i" by (simp add: swept_def)
    with assms(1,2) show ?thesis by (auto simp: advances_def calls_succeed_def)
  next
    case False
    with assms(4) ext i(1) show ?thesis by (simp add: not_less)
  qed
qed

lemma scan_block_ok:
  assumes "sizes_ok page huge_page" "scan_inv page ram m" "ms_next m < ms_pages m"
    and "scan_block vm page huge_page (m, t, ram) = (m', t', ram')"
  shows "same_content ram ram'" "same_shape m m'" "scan_inv page ram' m'" "ms_next m < ms_next m'"
    and "calls_succeed vm \<Longrightarrow> \<forall>i < ms_pages m. \<not> spares_full_blocks m i \<Longrightarrow> swept page ram m \<Longrightarrow> swept page ram' m'"
proof -
  have pos: "0 < page" using assms(1) by (simp add: sizes_ok_def)
  have main: "advances vm page (\<lambda>_. False) (m, t, ram) (m', t', ram') \<and> ms_next m < ms_next m'
      \<and> ms_next m' \<le> ms_pages m' \<and> (ms_pages m' \<le> ms_next m' \<longrightarrow> ms_pending m' = None)
      \<and> (calls_succeed vm \<longrightarrow> (\<forall>i < ms_pages m. \<not> spares_full_blocks m i) \<longrightarrow>
           (\<forall>i. in_extents m i \<longrightarrow> ms_next m \<le> i \<longrightarrow> i < ms_next m' \<longrightarrow> \<not> left page ram' m' i))"
  proof (cases "find (\<lambda>(_, e). ms_next m < e) (ms_extents m)")
    case None
    note fin = scan_block_finish [OF pos assms(2,3) None assms(4)]
    then have "ms_pages m' = ms_pages m" by (simp add: advances_def same_shape_def)
    with fin assms(3) show ?thesis by (auto dest: leD)
  next
    case (Some x)
    obtain s ee where x: "x = (s, ee)" by (cases x)
    note inside = scan_block_inside [OF assms(1-3) Some [unfolded x] assms(4)]
    have "\<not> left page ram' m' i" if "calls_succeed vm" "\<forall>i < ms_pages m. \<not> spares_full_blocks m i" "in_extents m i"
      "ms_next m \<le> i" "i < ms_next m'" for i
      using inside(2) [of i] inside(3,5) inside(4) [of _ _ i] assms(3) that by (auto simp: in_extents_def)
    with inside(1) show ?thesis by blast
  qed
  then show same: "same_content ram ram'" "same_shape m m'" "ms_next m < ms_next m'" by (auto simp: advances_def)
  have "pending_ok page ram' m'" "extents_ok page ram' m'"
    using main assms(2)
    by (auto simp: advances_def scan_inv_def extents_ok_shape [OF same(2)] same_content_pages(4) [OF same(1)])
  then show "scan_inv page ram' m'"
    using main assms(2) same(2) by (simp add: scan_inv_def same_shape_def)
  show "swept page ram' m'" if "calls_succeed vm" "\<forall>i < ms_pages m. \<not> spares_full_blocks m i" "swept page ram m"
    using swept_advances [of vm page _ m t ram m' t' ram'] main that by blast
qed

subsection \<open>All the memories\<close>

definition remaining :: "memory_scan list \<Rightarrow> nat" where
  "remaining ms = sum_list (map (\<lambda>m. ms_pages m - ms_next m) ms)"

definition no_huge_pages :: "memory_scan \<Rightarrow> bool" where
  "no_huge_pages m = (\<forall>i < ms_pages m. \<not> spares_full_blocks m i)"

definition scans_ok :: "nat \<Rightarrow> ram \<Rightarrow> memory_scan list \<Rightarrow> bool" where
  "scans_ok page ram ms = list_all (scan_inv page ram) ms"

lemma no_huge_pages_shape: "same_shape m m' \<Longrightarrow> no_huge_pages m' = no_huge_pages m"
  by (simp add: no_huge_pages_def same_shape_def spares_full_blocks_def)

lemma scan_first_ok:
  assumes "sizes_ok page huge_page" "scans_ok page ram ms"
    and "scan_first vm page huge_page ms t ram = Some (ms', t', ram')"
  shows "same_content ram ram' \<and> list_all2 same_shape ms ms' \<and> scans_ok page ram' ms' \<and> remaining ms' < remaining ms
    \<and> (calls_succeed vm \<longrightarrow> list_all no_huge_pages ms \<longrightarrow> list_all (swept page ram) ms \<longrightarrow> list_all (swept page ram') ms')"
  using assms(2,3)
proof (induction ms arbitrary: ms' t' ram')
  case (Cons m ms)
  show ?case
  proof (cases "ms_next m < ms_pages m")
    case True
    obtain m1 where run: "scan_block vm page huge_page (m, t, ram) = (m1, t', ram')" and ms': "ms' = m1 # ms"
      using Cons.prems(2) True by (auto split: prod.splits)
    have inv: "scan_inv page ram m" using Cons.prems(1) by (simp add: scans_ok_def)
    note block = scan_block_ok [OF assms(1) inv True run]
    have "list_all (scan_inv page ram') ms"
      using Cons.prems(1) by (simp add: scans_ok_def list_all_iff scan_inv_same [OF block(1)])
    moreover have "list_all (swept page ram') ms" if "list_all (swept page ram) ms"
      using that swept_same [OF block(1)] by (auto simp: list_all_iff)
    moreover have "ms_pages m1 - ms_next m1 < ms_pages m - ms_next m"
      using block(2,4) True by (simp add: same_shape_def)
    ultimately show ?thesis
      using block by (auto simp: ms' scans_ok_def remaining_def no_huge_pages_def list_all2_same)
  next
    case False
    obtain ms1 where rest: "scan_first vm page huge_page ms t ram = Some (ms1, t', ram')" and ms': "ms' = m # ms1"
      using Cons.prems(2) False by auto
    have "scans_ok page ram ms" "scan_inv page ram m" using Cons.prems(1) by (auto simp: scans_ok_def)
    with Cons.IH [OF _ rest] scan_inv_same [of ram ram' page m] swept_same [of ram ram' page m] show ?thesis
      by (auto simp: ms' scans_ok_def remaining_def)
  qed
qed simp

lemma scan_first_None: "scan_first vm page huge_page ms t ram = None \<longleftrightarrow> list_all (\<lambda>m. ms_pages m \<le> ms_next m) ms"
  by (induction ms) (auto split: prod.splits)

text \<open>What slices of a scan keep, and how far they get.\<close>

definition compacted :: "vm_calls \<Rightarrow> nat \<Rightarrow> compaction \<times> ram \<Rightarrow> compaction \<times> ram \<Rightarrow> bool" where
  "compacted vm blocks = (\<lambda>(c, ram) (c', ram').
     same_content ram ram' \<and> cp_page c' = cp_page c \<and> cp_huge_page c' = cp_huge_page c
     \<and> list_all2 same_shape (cp_memories c) (cp_memories c') \<and> scans_ok (cp_page c) ram' (cp_memories c')
     \<and> (compaction_done c' \<or> remaining (cp_memories c') + blocks \<le> remaining (cp_memories c))
     \<and> (calls_succeed vm \<longrightarrow> list_all no_huge_pages (cp_memories c) \<longrightarrow>
          list_all (swept (cp_page c) ram) (cp_memories c) \<longrightarrow>
          list_all (swept (cp_page c) ram') (cp_memories c')))"

lemma list_all2_shape_refl: "list_all2 same_shape ms ms"
  by (simp add: list_all2_same)

lemma list_all2_shape_trans:
  "list_all2 same_shape xs ys \<Longrightarrow> list_all2 same_shape ys zs \<Longrightarrow> list_all2 same_shape xs zs"
  by (rule list_all2_trans [of same_shape same_shape same_shape]) (auto simp: same_shape_def)

lemma list_all_shape:
  "list_all2 same_shape xs ys \<Longrightarrow> list_all no_huge_pages ys = list_all no_huge_pages xs"
  by (induction rule: list_all2_induct) (simp_all add: no_huge_pages_shape)

lemma compaction_done_remaining: "remaining (cp_memories c) = 0 \<Longrightarrow> compaction_done c"
  by (auto simp: remaining_def compaction_done_def list_all_iff)

lemma compacted_trans:
  assumes "compacted vm n st st'" "compacted vm k st' st''" "compaction_done (fst st') \<Longrightarrow> st'' = st'"
  shows "compacted vm (n + k) st st''"
proof -
  obtain c ram c' ram' c'' ram'' where st: "st = (c, ram)" "st' = (c', ram')" "st'' = (c'', ram'')"
    by (metis prod.exhaust)
  have "compaction_done c'' \<or> remaining (cp_memories c'') + (n + k) \<le> remaining (cp_memories c)"
    using assms by (cases "compaction_done c'") (auto simp: st compacted_def)
  moreover have "list_all2 same_shape (cp_memories c) (cp_memories c'')"
    using assms(1,2) by (auto simp: st compacted_def intro: list_all2_shape_trans)
  moreover have "list_all no_huge_pages (cp_memories c') = list_all no_huge_pages (cp_memories c)"
    by (rule list_all_shape) (use assms(1) in \<open>simp add: st compacted_def\<close>)
  ultimately show ?thesis
    using assms(1,2) by (auto simp: st compacted_def intro: same_content_trans)
qed

lemma step_loop_compacted:
  assumes "sizes_ok (cp_page c) (cp_huge_page c)" "scans_ok (cp_page c) ram (cp_memories c)"
  shows "compacted vm blocks (c, ram) (step_loop vm blocks (c, ram))
    \<and> (compaction_done c \<longrightarrow> step_loop vm blocks (c, ram) = (c, ram))"
  using assms
proof (induction blocks arbitrary: c ram)
  case 0
  then show ?case by (simp add: compacted_def list_all2_shape_refl)
next
  case (Suc blocks)
  show ?case
  proof (cases "scan_first vm (cp_page c) (cp_huge_page c) (cp_memories c) (cp_totals c) ram")
    case None
    then have "compaction_done c" by (simp add: scan_first_None compaction_done_def)
    with None Suc.prems show ?thesis by (simp add: compacted_def list_all2_shape_refl)
  next
    case (Some x)
    obtain ms t ram1 where x: "x = (ms, t, ram1)" by (metis prod.exhaust)
    note first = scan_first_ok [OF Suc.prems Some [unfolded x]]
    let ?c = "c\<lparr>cp_memories := ms, cp_totals := t\<rparr>"
    have one: "compacted vm 1 (c, ram) (?c, ram1)" using first by (auto simp: compacted_def)
    have rest: "compacted vm blocks (?c, ram1) (step_loop vm blocks (?c, ram1))
        \<and> (compaction_done ?c \<longrightarrow> step_loop vm blocks (?c, ram1) = (?c, ram1))"
      using Suc.IH [of ?c ram1] Suc.prems(1) first by simp
    have "compacted vm (1 + blocks) (c, ram) (step_loop vm blocks (?c, ram1))"
      by (rule compacted_trans [OF one conjunct1 [OF rest]]) (use rest in simp)
    moreover have "\<not> compaction_done c"
      unfolding compaction_done_def
      using Some scan_first_None [of vm "cp_page c" "cp_huge_page c" "cp_memories c" "cp_totals c" ram] by simp
    ultimately show ?thesis using Some x by simp
  qed
qed

lemma slices_compacted:
  assumes "sizes_ok (cp_page c) (cp_huge_page c)" "scans_ok (cp_page c) ram (cp_memories c)"
  shows "compacted vm (sum_list slices) (c, ram) (compaction_slices vm slices (c, ram))
    \<and> (compaction_done c \<longrightarrow> compaction_slices vm slices (c, ram) = (c, ram))"
  using assms
proof (induction slices arbitrary: c ram)
  case Nil
  then show ?case by (simp add: compacted_def list_all2_shape_refl)
next
  case (Cons n slices)
  obtain c1 ram1 where step: "step_loop vm n (c, ram) = (c1, ram1)" by (meson surj_pair)
  note one = step_loop_compacted [OF Cons.prems, of vm n, unfolded step]
  then have "cp_page c1 = cp_page c" "cp_huge_page c1 = cp_huge_page c" "scans_ok (cp_page c) ram1 (cp_memories c1)"
    by (auto simp: compacted_def)
  with Cons.IH [of c1 ram1] Cons.prems(1)
  have rest: "compacted vm (sum_list slices) (c1, ram1) (compaction_slices vm slices (c1, ram1))
      \<and> (compaction_done c1 \<longrightarrow> compaction_slices vm slices (c1, ram1) = (c1, ram1))" by simp
  have "compacted vm (n + sum_list slices) (c, ram) (compaction_slices vm slices (c1, ram1))"
    by (rule compacted_trans [OF conjunct1 [OF one] conjunct1 [OF rest]]) (use rest in simp)
  with one rest step show ?case by (auto simp: compaction_step_def)
qed

subsection \<open>The start\<close>

text \<open>
  The runtime tells of every file mapped inside a memory: only bytes in an overlay have a file
  behind them.
\<close>

definition memory_ok :: "nat \<Rightarrow> ram \<Rightarrow> linear_memory \<Rightarrow> bool" where
  "memory_ok page ram m =
     (page dvd lm_base m
      \<and> (\<forall>a. lm_base m \<le> a \<longrightarrow> a < lm_base m + div_ceil (lm_len m) page * page \<longrightarrow> rm_backing ram a \<noteq> None \<longrightarrow>
           (\<exists>(addr, len) \<in> set (lm_overlays m). lm_base m \<le> addr \<and> addr \<le> a \<and> a < addr + len)))"

definition overlaid :: "nat \<Rightarrow> linear_memory \<Rightarrow> nat \<Rightarrow> bool" where
  "overlaid page m i =
     (\<exists>(addr, len) \<in> set (lm_overlays m).
        (addr - lm_base m) div page \<le> i \<and> i < div_ceil (addr - lm_base m + len) page)"

lemma less_div_ceil: "0 < page \<Longrightarrow> i < div_ceil n page \<longleftrightarrow> i * page < n"
proof -
  assume page: "0 < page"
  have "i < div_ceil n page \<longleftrightarrow> Suc i \<le> (n + page - 1) div page" by (auto simp: div_ceil_def)
  also have "\<dots> \<longleftrightarrow> Suc i * page \<le> n + page - 1" using page by (simp add: less_eq_div_iff_mult_less_eq)
  also have "\<dots> \<longleftrightarrow> i * page < n" using page by auto
  finally show ?thesis .
qed

lemma extents_complement:
  assumes "sorted_wrt (\<lambda>(s, _) (s', _). s \<le> s') overlays" "\<forall>(s, _) \<in> set overlays. s < pages"
  shows "(\<exists>(s, e) \<in> set (extents_from from overlays pages). s \<le> i \<and> i < e)
    \<longleftrightarrow> from \<le> i \<and> i < pages \<and> (\<forall>(s, e) \<in> set overlays. \<not> (s \<le> i \<and> i < e))"
  using assms
proof (induction "from" overlays pages rule: extents_from.induct)
  case (2 "from" start "end" overlays pages)
  have ih: "(\<exists>(s, e) \<in> set (extents_from (max from end) overlays pages). s \<le> i \<and> i < e)
    \<longleftrightarrow> max from end \<le> i \<and> i < pages \<and> (\<forall>(s, e) \<in> set overlays. \<not> (s \<le> i \<and> i < e))"
    using 2 by (intro "2.IH") auto
  have later: "start \<le> s" if "(s, e) \<in> set overlays" for s e using 2(2) that by auto
  show ?case
  proof (cases "i < start")
    case True
    with later have "\<forall>(s, e) \<in> set overlays. \<not> (s \<le> i \<and> i < e)" by fastforce
    with True ih 2(3) show ?thesis by auto
  next
    case False
    with ih show ?thesis by auto
  qed
qed auto

lemma extents_shape:
  assumes "\<forall>(s, e) \<in> set overlays. s < min e pages"
  shows "sorted_wrt (\<lambda>(_, e) (s', _). e \<le> s') (extents_from from overlays pages)
    \<and> (\<forall>(s, e) \<in> set (extents_from from overlays pages). from \<le> s \<and> s < e \<and> e \<le> pages)"
  using assms
proof (induction "from" overlays pages rule: extents_from.induct)
  case (2 "from" start "end" overlays pages)
  then have ih: "sorted_wrt (\<lambda>(_, e) (s', _). e \<le> s') (extents_from (max from end) overlays pages)"
    "\<forall>(s, e) \<in> set (extents_from (max from end) overlays pages). max from end \<le> s \<and> s < e \<and> e \<le> pages" by auto
  with 2(2) show ?case by (fastforce simp: sorted_wrt_append)
qed auto

lemma sort_starts:
  fixes xs :: "(nat \<times> nat) list"
  shows "sorted_wrt (\<lambda>(s, _) (s', _). s \<le> s') (sort xs)"
  by (rule sorted_wrt_mono_rel [of _ "(\<le>)"]) (auto simp: less_eq_prod_def)

lemma overlay_pages_set:
  "set (overlay_pages page base pages overlays) =
     {(s, e). \<exists>(addr, len) \<in> set overlays. s = (addr - base) div page \<and> e = div_ceil (addr - base + len) page
        \<and> s < min e pages}"
  by (auto simp: overlay_pages_def)

lemma memory_scan_of_extents:
  "in_extents (memory_scan_of page maps m) i \<longleftrightarrow> i < div_ceil (lm_len m) page \<and> \<not> overlaid page m i"
proof -
  let ?pages = "div_ceil (lm_len m) page"
  let ?ov = "overlay_pages page (lm_base m) ?pages (lm_overlays m)"
  have "in_extents (memory_scan_of page maps m) i
      \<longleftrightarrow> 0 \<le> i \<and> i < ?pages \<and> (\<forall>(s, e) \<in> set ?ov. \<not> (s \<le> i \<and> i < e))"
    unfolding in_extents_def memory_scan_of_def Let_def memory_scan.simps
    by (rule extents_complement) (auto simp: overlay_pages_set sort_starts overlay_pages_def [of page "lm_base m"])
  also have "\<dots> \<longleftrightarrow> i < ?pages \<and> \<not> overlaid page m i"
    unfolding overlay_pages_set overlaid_def by fastforce
  finally show ?thesis .
qed

lemma memory_scan_of_inv:
  assumes "0 < page" "memory_ok page ram m"
  shows "scan_inv page ram (memory_scan_of page maps m)"
proof -
  let ?m = "memory_scan_of page maps m" and ?pages = "div_ceil (lm_len m) page"
  have fields: "ms_base ?m = lm_base m" "ms_pages ?m = ?pages" "ms_pending ?m = None" "ms_next ?m = 0"
    by (simp_all add: memory_scan_of_def Let_def)
  have "anonymous_page page ram (lm_base m) i" if "in_extents ?m i" for i
    unfolding anonymous_page_def
  proof (intro allI impI)
    fix a assume a: "in_page page (lm_base m) i a"
    have i: "i < ?pages" "\<not> overlaid page m i" using that by (simp_all add: memory_scan_of_extents)
    have "(i + 1) * page \<le> ?pages * page" using i(1) by (intro mult_le_mono1) simp
    with a have range: "lm_base m \<le> a" "a < lm_base m + ?pages * page" by (auto simp: in_page_def)
    show "rm_backing ram a = None"
    proof (rule ccontr)
      assume "rm_backing ram a \<noteq> None"
      with assms(2) range obtain addr len where ov: "(addr, len) \<in> set (lm_overlays m)" "lm_base m \<le> addr" "addr \<le> a" "a < addr + len"
        by (auto simp: memory_ok_def)
      have "addr - lm_base m < (i + 1) * page" "i * page < addr - lm_base m + len"
        using a ov(2-4) by (auto simp: in_page_def)
      then have "(addr - lm_base m) div page \<le> i" "i < div_ceil (addr - lm_base m + len) page"
        using assms(1) by (simp_all add: less_div_ceil less_Suc_eq_le [symmetric] div_less_iff_less_mult)
      with ov(1) i(2) show False by (auto simp: overlaid_def)
    qed
  qed
  moreover have "sorted_wrt (\<lambda>(_, e) (s', _). e \<le> s') (ms_extents ?m)
    \<and> (\<forall>(s, e) \<in> set (ms_extents ?m). 0 \<le> s \<and> s < e \<and> e \<le> ms_pages ?m)"
    unfolding fields(2) unfolding memory_scan_of_def Let_def memory_scan.simps
    by (rule extents_shape) (auto simp: overlay_pages_set)
  ultimately have "extents_ok page ram ?m"
    by (fastforce simp: extents_ok_def fields in_extents_def)
  with assms(2) show ?thesis by (simp add: scan_inv_def fields pending_ok_def memory_ok_def)
qed

lemma start_compaction_fields:
  "cp_page (start_compaction page huge_page maps memories) = page"
  "cp_huge_page (start_compaction page huge_page maps memories) = huge_page"
  "cp_memories (start_compaction page huge_page maps memories) =
     map (memory_scan_of page (case maps of None \<Rightarrow> [] | Some ms \<Rightarrow> ms))
       (filter (\<lambda>m. lm_private_anonymous m \<and> 0 < lm_len m) memories)"
  by (simp_all add: start_compaction_def Let_def)

lemma memory_scan_of_next [simp]: "ms_next (memory_scan_of page maps m) = 0"
  "ms_pages (memory_scan_of page maps m) = div_ceil (lm_len m) page"
  "ms_base (memory_scan_of page maps m) = lm_base m"
  by (simp_all add: memory_scan_of_def Let_def)

lemma started_compaction:
  assumes "sizes_ok page huge_page" "list_all (memory_ok page ram) memories"
  shows "compacted vm (sum_list slices) (start_compaction page huge_page maps memories, ram)
    (compaction_slices vm slices (start_compaction page huge_page maps memories, ram))"
proof -
  let ?c = "start_compaction page huge_page maps memories"
  have "scans_ok page ram (cp_memories ?c)"
    using assms memory_scan_of_inv [of page ram] by (auto simp: scans_ok_def start_compaction_fields list_all_iff sizes_ok_def)
  with assms(1) slices_compacted [of ?c ram vm slices] show ?thesis by (simp add: start_compaction_fields)
qed

definition total_pages :: "nat \<Rightarrow> linear_memory list \<Rightarrow> nat" where
  "total_pages page memories =
     sum_list (map (\<lambda>m. div_ceil (lm_len m) page) (filter (\<lambda>m. lm_private_anonymous m \<and> 0 < lm_len m) memories))"

lemma started_remaining:
  "remaining (cp_memories (start_compaction page huge_page maps memories)) = total_pages page memories"
  by (simp add: remaining_def start_compaction_fields total_pages_def comp_def)

lemma compacted_done:
  assumes "compacted vm blocks (c, ram) (c', ram')" "remaining (cp_memories c) \<le> blocks"
  shows "compaction_done c'"
  using assms compaction_done_remaining [of c'] by (auto simp: compacted_def)

subsection \<open>Properties\<close>

text \<open>A host with pages of 8 bytes: four pages of memory at 16, the second a file overlay.\<close>

definition demo_memory :: linear_memory where
  "demo_memory = \<lparr>lm_base = 16, lm_len = 32, lm_private_anonymous = True, lm_overlays = [(24, 8)]\<rparr>"

definition demo_ram :: ram where
  "demo_ram =
     \<lparr>rm_byte = (\<lambda>a. if 24 \<le> a \<and> a < 32 then 5 else if a = 41 then 7 else 0),
      rm_resident = (\<lambda>_. True), rm_backing = (\<lambda>a. if 24 \<le> a \<and> a < 32 then Some 6 else None)\<rparr>"

definition demo_vm :: vm_calls where
  "demo_vm = \<lparr>vm_mincore = (\<lambda>_. True), vm_madvise = (\<lambda>_ _. True)\<rparr>"

lemma demo_memory_ok: "sizes_ok 8 16" "list_all (memory_ok 8 demo_ram) [demo_memory]"
  by (auto simp: sizes_ok_def memory_ok_def demo_memory_def demo_ram_def)

lemma demo_total_pages: "total_pages 8 [demo_memory] = 4"
  by (simp add: total_pages_def demo_memory_def div_ceil_def)

text \<open>
  C8: releasing zero pages is invisible to the guest. Whatever the slices, whichever calls
  fail and whatever the huge pages, every byte of the process reads as before, files stay
  mapped where they were, and no page becomes resident that was not.
\<close>

theorem compaction_invisible:
  assumes "sizes_ok page huge_page" "list_all (memory_ok page ram) memories"
    and "compaction_slices vm slices (start_compaction page huge_page maps memories, ram) = (c', ram')"
  shows "rm_byte ram' = rm_byte ram \<and> rm_backing ram' = rm_backing ram
    \<and> {n. rm_resident ram' n} \<subseteq> {n. rm_resident ram n}"
  using started_compaction [OF assms(1,2), of vm slices maps] assms(3)
  by (auto simp: compacted_def same_content_def)

theorem compaction_invisible_witness:
  "rm_byte (snd (compaction_slices demo_vm [1, 2] (start_compaction 8 16 None [demo_memory], demo_ram)))
     = rm_byte demo_ram"
  using compaction_invisible [OF demo_memory_ok prod.collapse [symmetric], of demo_vm "[1, 2]" None] by simp

text \<open>
  C26: the scan ends. Slices that together reach at least as many blocks as the scanned
  memories have pages finish it, whatever the calls answer, so a frozen template does not scan
  for ever.
\<close>

theorem compaction_terminates:
  assumes "sizes_ok page huge_page" "list_all (memory_ok page ram) memories"
    and "total_pages page memories \<le> sum_list slices"
  shows "compaction_done (fst (compaction_slices vm slices (start_compaction page huge_page maps memories, ram)))"
proof -
  obtain c' ram' where run: "compaction_slices vm slices (start_compaction page huge_page maps memories, ram) = (c', ram')"
    by (meson surj_pair)
  have "remaining (cp_memories (start_compaction page huge_page maps memories)) \<le> sum_list slices"
    unfolding started_remaining by (rule assms(3))
  from compacted_done [OF started_compaction [OF assms(1,2), of vm slices maps, unfolded run] this]
  have "compaction_done c'" .
  then show ?thesis by (simp add: run)
qed

theorem compaction_terminates_witness:
  "compaction_done (fst (compaction_slices demo_vm [1, 1, 1, 1] (start_compaction 8 16 None [demo_memory], demo_ram)))"
  by (rule compaction_terminates [OF demo_memory_ok]) (simp add: demo_total_pages)

text \<open>
  C25: when no call fails and the mappings hold no huge pages, a finished scan has released
  every zero page there was: no page of a private anonymous memory outside its overlays is
  both resident and entirely zero.
\<close>

theorem compaction_releases_every_zero_page:
  assumes "sizes_ok page huge_page" "list_all (memory_ok page ram) memories" "calls_succeed vm"
    and "list_all no_huge_pages (cp_memories (start_compaction page huge_page maps memories))"
    and "compaction_slices vm slices (start_compaction page huge_page maps memories, ram) = (c', ram')"
    and "compaction_done c'"
    and "m \<in> set memories" "lm_private_anonymous m" "i < div_ceil (lm_len m) page" "\<not> overlaid page m i"
  shows "\<not> (rm_resident ram' (lm_base m div page + i) \<and> zero_page page ram (lm_base m) i)"
proof -
  let ?c = "start_compaction page huge_page maps memories"
  note ran = started_compaction [OF assms(1,2), of vm slices maps, unfolded assms(5)]
  have "list_all (swept page ram) (cp_memories ?c)"
    by (auto simp: list_all_iff start_compaction_fields swept_def)
  with ran assms(3,4) have swept: "list_all (swept page ram') (cp_memories c')"
    and shape: "list_all2 same_shape (cp_memories ?c) (cp_memories c')"
    and inv: "scans_ok page ram' (cp_memories c')" and same: "same_content ram ram'"
    by (auto simp: compacted_def start_compaction_fields)
  let ?s = "memory_scan_of page (case maps of None \<Rightarrow> [] | Some ms \<Rightarrow> ms) m"
  have "0 < lm_len m" using assms(1,9) less_div_ceil [of page i "lm_len m"] by (auto simp: sizes_ok_def)
  then have "?s \<in> set (cp_memories ?c)" using assms(7,8) by (auto simp: start_compaction_fields)
  then obtain s' where s': "s' \<in> set (cp_memories c')" "same_shape ?s s'"
    using shape unfolding list_all2_conv_all_nth in_set_conv_nth by metis
  have "ms_pages s' \<le> ms_next s'" "scan_inv page ram' s'" "swept page ram' s'"
    using assms(6) inv swept s'(1) by (auto simp: compaction_done_def scans_ok_def list_all_iff)
  moreover have "in_extents s' i"
    using assms(9,10) by (simp add: in_extents_shape [OF s'(2)] memory_scan_of_extents)
  moreover have "i < ms_pages s'" "ms_base s' = lm_base m"
    using s'(2) assms(9) by (simp_all add: same_shape_def)
  ultimately have "\<not> left page ram' s' i" "ms_pending s' = None" "ms_base s' = lm_base m"
    by (auto simp: swept_def scan_inv_def)
  then show ?thesis by (simp add: left_def same_content_pages(1) [OF same])
qed

lemma demo_no_huge_pages:
  "list_all no_huge_pages (cp_memories (start_compaction 8 16 (Some [(0, 100, False)]) [demo_memory]))"
  by (simp add: start_compaction_fields demo_memory_def memory_scan_of_def no_huge_pages_def
      spares_full_blocks_def mapping_pages_def div_ceil_def)

theorem compaction_releases_every_zero_page_witness:
  "\<not> rm_resident (snd (compaction_slices demo_vm [4] (start_compaction 8 16 (Some [(0, 100, False)]) [demo_memory], demo_ram))) 4"
proof -
  let ?run = "compaction_slices demo_vm [4] (start_compaction 8 16 (Some [(0, 100, False)]) [demo_memory], demo_ram)"
  have succeed: "calls_succeed demo_vm"
    by (simp add: calls_succeed_def releases_succeed_def demo_vm_def)
  have few: "remaining (cp_memories (start_compaction 8 16 (Some [(0, 100, False)]) [demo_memory])) \<le> sum_list [4]"
    unfolding started_remaining demo_total_pages by simp
  have "compacted demo_vm (sum_list [4]) (start_compaction 8 16 (Some [(0, 100, False)]) [demo_memory], demo_ram)
      (fst ?run, snd ?run)"
    using started_compaction [OF demo_memory_ok, of demo_vm "[4]" "Some [(0, 100, False)]"] by simp
  from compacted_done [OF this few] have finished: "compaction_done (fst ?run)" .
  have "zero_page 8 demo_ram 16 2" "\<not> overlaid 8 demo_memory 2"
    by (auto simp: zero_page_def in_page_def demo_ram_def overlaid_def demo_memory_def div_ceil_def)
  with compaction_releases_every_zero_page
    [OF demo_memory_ok succeed demo_no_huge_pages prod.collapse [symmetric] finished, of demo_memory 2]
  show ?thesis by (simp add: demo_memory_def div_ceil_def)
qed

end
