(* ===== verification/Protocol.thy ===== *)
theory Protocol
  imports Prelude
begin

unbundle bit_operations_syntax

text \<open>
  The control protocol between the manager and a host process
  (\<open>src/crates/servicecache/src/host/protocol.rs\<close>): the messages, one frame on the wire,
  and \<open>Channel::send\<close> and \<open>Channel::recv\<close> over a stream socket.

  The wire is the sequence of bytes in flight, each with the descriptors that travel with
  it (\<open>SCM_RIGHTS\<close> data arrives with the first byte of the \<open>sendmsg\<close> that carried it).
  The end of the sequence is the end of the stream. How many bytes one system call moves,
  and whether it fails, is the kernel's choice: it is the record \<open>kernel\<close>, an argument of
  the operations, asked with the number of the call and the bytes offered. The JSON codec
  (\<open>serde_json\<close>) is a pair of functions, arguments as well.
\<close>

subsection \<open>Messages\<close>

datatype request = RqPrepare | RqStart | RqInitialize | RqFreeze | RqFork | RqStop

datatype run = RunPrepare | RunGuest | RunInitializer | RunChild

datatype reply =
    Ready string
  | Exited run int "nat option"
  | Frozen nat
  | Forked nat string
  | Error string

subsection \<open>Frames and limits\<close>

definition HEADER_LEN :: nat where "HEADER_LEN = 8"
definition MAX_JSON_LEN :: nat where "MAX_JSON_LEN = 64 * 1024"
definition MAX_PAYLOAD_LEN :: nat where "MAX_PAYLOAD_LEN = 256 * 1024 * 1024"
definition MAX_FDS :: nat where "MAX_FDS = 4"

record 'm frame =
  fr_message :: 'm
  fr_payload :: "byte list"
  fr_fds :: "fd list"

datatype chan_error =
    EncodeFailed
  | MessageTooLong
  | PayloadTooLong
  | SendFailed errno
  | ClosedWhileSending
  | RecvFailed errno
  | BadControlMessage
  | ClosedInsideFrame
  | FrameTooLarge nat nat
  | DupFailed
  | DecodeFailed

text \<open>\<open>u32::to_le_bytes\<close>, \<open>u32::from_le_bytes\<close> and \<open>u32::try_from\<close> on a length.\<close>

definition u32_to_le :: "u32 \<Rightarrow> byte list" where
  "u32_to_le w = [ucast w, ucast (drop_bit 8 w), ucast (drop_bit 16 w), ucast (drop_bit 24 w)]"

definition u32_from_le :: "byte \<Rightarrow> byte \<Rightarrow> byte \<Rightarrow> byte \<Rightarrow> u32" where
  "u32_from_le a b c d =
     ucast a OR push_bit 8 (ucast b) OR push_bit 16 (ucast c) OR push_bit 24 (ucast d)"

definition u32_try_from :: "nat \<Rightarrow> u32 option" where
  "u32_try_from n = (if n < 2 ^ 32 then Some (of_nat n) else None)"

subsection \<open>The kernel's side of the socket\<close>

type_synonym wire = "(byte \<times> fd list) list"

record kernel =
  k_sendmsg :: "nat \<Rightarrow> nat \<Rightarrow> errno + nat"
  k_recvmsg :: "nat \<Rightarrow> nat \<Rightarrow> errno + nat"
  k_dup :: "nat \<Rightarrow> bool"

text \<open>The bytes one \<open>sendmsg\<close> puts on the wire, its descriptors with the first.\<close>

definition attach :: "fd list \<Rightarrow> byte list \<Rightarrow> wire" where
  "attach fds bs = (case bs of [] \<Rightarrow> [] | b # bs' \<Rightarrow> (b, fds) # map (\<lambda>b. (b, [])) bs')"

subsection \<open>Channel::send\<close>

text \<open>
  The loop that sends what the first \<open>sendmsg\<close> left over. The result is what reached the
  wire and whether the call succeeded: a failing send may leave part of a frame behind.
\<close>

function send_rest :: "kernel \<Rightarrow> nat \<Rightarrow> byte list \<Rightarrow> wire \<times> (chan_error + unit)" where
  "send_rest k i bs =
     (if bs = [] then ([], Inr ())
      else case k_sendmsg k i (length bs) of
             Inl e \<Rightarrow> ([], Inl (SendFailed e))
           | Inr n \<Rightarrow>
               if min n (length bs) = 0 then ([], Inl ClosedWhileSending)
               else let (w, r) = send_rest k (Suc i) (drop (min n (length bs)) bs)
                    in (attach [] (take (min n (length bs)) bs) @ w, r))"
  by pat_completeness auto
termination
  by (relation "measure (\<lambda>(k, i, bs). length bs)") auto

declare send_rest.simps [simp del]

definition encode_frame :: "byte list \<Rightarrow> byte list \<Rightarrow> chan_error + byte list" where
  "encode_frame json payload =
     (case u32_try_from (length json) of
        None \<Rightarrow> Inl MessageTooLong
      | Some json_len \<Rightarrow>
          (case u32_try_from (length payload) of
             None \<Rightarrow> Inl PayloadTooLong
           | Some payload_len \<Rightarrow>
               Inr (u32_to_le json_len @ u32_to_le payload_len @ json @ payload)))"

definition send ::
  "('m \<Rightarrow> byte list option) \<Rightarrow> kernel \<Rightarrow> 'm \<Rightarrow> byte list \<Rightarrow> fd list
     \<Rightarrow> wire \<times> (chan_error + unit)" where
  "send enc k message payload fds =
     (case enc message of
        None \<Rightarrow> ([], Inl EncodeFailed)
      | Some json \<Rightarrow>
          (case encode_frame json payload of
             Inl e \<Rightarrow> ([], Inl e)
           | Inr frame \<Rightarrow>
               (case k_sendmsg k 0 (length frame) of
                  Inl e \<Rightarrow> ([], Inl (SendFailed e))
                | Inr n \<Rightarrow>
                    let sent = min n (length frame);
                        (w, r) = send_rest k 1 (drop sent frame)
                    in (attach fds (take sent frame) @ w, r))))"

subsection \<open>Channel::recv\<close>

text \<open>
  Filling the header: a blocking \<open>recvmsg\<close> returns at least one byte unless the stream has
  ended. \<open>None\<close> is a clean end of stream: nothing of a frame has arrived.
\<close>

function recv_header ::
  "kernel \<Rightarrow> nat \<Rightarrow> byte list \<Rightarrow> fd list \<Rightarrow> wire
     \<Rightarrow> chan_error + (byte list \<times> fd list \<times> wire) option" where
  "recv_header k i header fds q =
     (if HEADER_LEN \<le> length header then Inr (Some (header, fds, q))
      else case k_recvmsg k i (HEADER_LEN - length header) of
             Inl e \<Rightarrow> Inl (RecvFailed e)
           | Inr n \<Rightarrow>
               let got = take (min (max 1 n) (HEADER_LEN - length header)) q;
                   received = concat (map snd got)
               in if MAX_FDS < length received then Inl BadControlMessage
                  else if got = []
                  then (if header = [] \<and> fds @ received = [] then Inr None
                        else Inl ClosedInsideFrame)
                  else recv_header k (Suc i) (header @ map fst got) (fds @ received)
                         (drop (min (max 1 n) (HEADER_LEN - length header)) q))"
  by pat_completeness auto
termination
proof (relation "measure (\<lambda>(k, i, header, fds, q). HEADER_LEN - length header)", goal_cases)
  case 1
  show ?case by simp
next
  case (2 k i header fds q n got received)
  from 2(6) have "0 < length got" by (rule length_greater_0_conv [THEN iffD2])
  with 2(1) show ?case by (simp del: length_greater_0_conv)
qed

declare recv_header.simps [simp del]

definition read_exact :: "bool \<Rightarrow> nat \<Rightarrow> wire \<Rightarrow> chan_error + (byte list \<times> wire)" where
  "read_exact dup_ok n q =
     (if \<not> dup_ok then Inl DupFailed
      else if length q < n then Inl ClosedInsideFrame
      else Inr (map fst (take n q), drop n q))"

definition recv ::
  "(byte list \<Rightarrow> 'm option) \<Rightarrow> kernel \<Rightarrow> wire \<Rightarrow> chan_error + ('m frame option \<times> wire)" where
  "recv dec k q =
     and_then (recv_header k 0 [] [] q) (\<lambda>h.
       case h of
         None \<Rightarrow> Inr (None, q)
       | Some (header, fds, q1) \<Rightarrow>
           let json_len = unat (u32_from_le (header ! 0) (header ! 1) (header ! 2) (header ! 3));
               payload_len = unat (u32_from_le (header ! 4) (header ! 5) (header ! 6) (header ! 7))
           in if MAX_JSON_LEN < json_len \<or> MAX_PAYLOAD_LEN < payload_len
              then Inl (FrameTooLarge json_len payload_len)
              else and_then (read_exact (k_dup k 0) json_len q1) (\<lambda>(json, q2).
                   and_then (read_exact (k_dup k 1) payload_len q2) (\<lambda>(payload, q3).
                     case dec json of
                       None \<Rightarrow> Inl DecodeFailed
                     | Some message \<Rightarrow>
                         Inr (Some \<lparr>fr_message = message, fr_payload = payload, fr_fds = fds\<rparr>, q3))))"

subsection \<open>Channel::wait_readable\<close>

text \<open>
  A timeout is milliseconds in an \<open>i32\<close>. The calls of \<open>poll\<close> are given with the time each took:
  one that an interruption ended is made again with the whole timeout. A list that ends in
  interruptions leaves the wait going on.
\<close>

datatype poll_error = PollTimeoutTooLong | PollCallFailed nat

datatype poll_call = PollCount nat | PollInterrupted | PollErrno nat

definition poll_timeout :: "duration option \<Rightarrow> poll_error + int option" where
  "poll_timeout timeout =
     (case timeout of
        None \<Rightarrow> Inr None
      | Some d \<Rightarrow> (let ms = d div 1000000 in if ms < 2 ^ 31 then Inr (Some ms) else Inl PollTimeoutTooLong))"

fun poll_loop :: "(poll_call \<times> duration) list \<Rightarrow> (poll_error + bool) option \<times> duration" where
  "poll_loop [] = (None, 0)"
| "poll_loop ((PollCount n, took) # calls) = (Some (Inr (n \<noteq> 0)), took)"
| "poll_loop ((PollErrno e, took) # calls) = (Some (Inl (PollCallFailed e)), took)"
| "poll_loop ((PollInterrupted, took) # calls) = (case poll_loop calls of (r, later) \<Rightarrow> (r, took + later))"

definition wait_readable ::
  "duration option \<Rightarrow> (poll_call \<times> duration) list \<Rightarrow> (poll_error + bool) option \<times> duration" where
  "wait_readable timeout calls =
     (case poll_timeout timeout of Inl e \<Rightarrow> (Some (Inl e), 0) | Inr _ \<Rightarrow> poll_loop calls)"

text \<open>
  Undisturbed, a wait lasts no longer than its one call; each interruption starts the timeout
  afresh, so a wait of ten seconds interrupted after nine takes nineteen.
\<close>

lemma wait_readable_undisturbed:
  assumes "poll_timeout timeout = Inr ms" "fst call \<noteq> PollInterrupted"
  shows "snd (wait_readable timeout (call # calls)) = snd call"
  using assms by (cases call rule: prod.exhaust; cases "fst call") (auto simp: wait_readable_def)

lemma interruptions_prolong_the_wait:
  "wait_readable (Some (10 * SECOND)) [(PollInterrupted, 9 * SECOND), (PollCount 0, 10 * SECOND)]
     = (Some (Inr False), 19 * SECOND)"
  by (simp add: wait_readable_def poll_timeout_def SECOND_def)

subsection \<open>Little-endian lengths\<close>

lemma u32_le_roundtrip:
  "u32_from_le (ucast w) (ucast (drop_bit 8 w)) (ucast (drop_bit 16 w)) (ucast (drop_bit 24 w)) = w"
proof (rule bit_word_eqI)
  fix n
  assume "n < LENGTH(32)"
  then consider "n < 8" | "8 \<le> n" "n < 16" | "16 \<le> n" "n < 24" | "24 \<le> n" "n < 32"
    by (simp, linarith)
  then show "bit (u32_from_le (ucast w) (ucast (drop_bit 8 w)) (ucast (drop_bit 16 w))
                   (ucast (drop_bit 24 w))) n = bit w n"
    by cases (simp add: u32_from_le_def bit_simps; linarith?)+
qed

lemma length_u32_to_le [simp]: "length (u32_to_le w) = 4"
  by (simp add: u32_to_le_def)

lemma u32_to_le_not_Nil [simp]: "u32_to_le w \<noteq> []"
  by (simp add: u32_to_le_def)

lemma u32_try_from_Some: "u32_try_from n = Some w \<longleftrightarrow> n < 2 ^ 32 \<and> w = of_nat n"
  by (auto simp: u32_try_from_def)

lemma u32_try_from_unat:
  assumes "u32_try_from n = Some w"
  shows "unat w = n"
proof -
  from assms have "n < 2 ^ LENGTH(32)" and w: "w = of_nat n"
    by (simp_all add: u32_try_from_Some)
  then have "unat (of_nat n :: u32) = n"
    by (simp add: unat_of_nat take_bit_nat_eq_self)
  with w show ?thesis by simp
qed

subsection \<open>Sending\<close>

text \<open>The kernel contract under which a send goes through: every call takes something.\<close>

definition sends_all :: "kernel \<Rightarrow> bool" where
  "sends_all k \<longleftrightarrow> (\<forall>i n. 0 < n \<longrightarrow> (\<exists>m. k_sendmsg k i n = Inr m \<and> 0 < m))"

definition recvs_all :: "kernel \<Rightarrow> bool" where
  "recvs_all k \<longleftrightarrow> (\<forall>i n. \<exists>m. k_recvmsg k i n = Inr m) \<and> (\<forall>i. k_dup k i)"

lemma attach_Nil [simp]: "attach fds [] = []"
  by (simp add: attach_def)

lemma attach_plain: "attach [] bs = map (\<lambda>b. (b, [])) bs"
  by (cases bs) (simp_all add: attach_def)

lemma map_fst_attach [simp]: "map fst (attach fds bs) = bs"
  by (cases bs) (simp_all add: attach_def comp_def)

lemma length_attach [simp]: "length (attach fds bs) = length bs"
  by (metis length_map map_fst_attach)

lemma attach_append:
  "bs \<noteq> [] \<Longrightarrow> attach fds (bs @ cs) = attach fds bs @ attach [] cs"
  by (cases bs) (simp_all add: attach_def attach_plain [unfolded attach_def])

lemma send_rest_delivers:
  assumes "sends_all k"
  shows "send_rest k i bs = (attach [] bs, Inr ())"
  using assms
proof (induction k i bs rule: send_rest.induct)
  case (1 k i bs)
  show ?case
  proof (cases "bs = []")
    case True
    then show ?thesis by (simp add: send_rest.simps)
  next
    case False
    with 1(2) obtain m where m: "k_sendmsg k i (length bs) = Inr m" "0 < m"
      unfolding sends_all_def by (meson length_greater_0_conv)
    let ?n = "min m (length bs)"
    have n: "?n \<noteq> 0" using m False by simp
    have "send_rest k (Suc i) (drop ?n bs) = (attach [] (drop ?n bs), Inr ())"
      by (rule 1(1) [OF False m(1) n 1(2)])
    then show ?thesis
      using False m n
      by (simp add: send_rest.simps [of k i bs] attach_plain flip: map_append)
  qed
qed

lemma send_delivers:
  assumes k: "sends_all k" and enc: "enc m = Some json"
    and frame: "encode_frame json payload = Inr bs"
  shows "send enc k m payload fds = (attach fds bs, Inr ())"
proof -
  from frame have ne: "bs \<noteq> []"
    by (auto simp: encode_frame_def u32_to_le_def split: option.splits)
  with k obtain n where n: "k_sendmsg k 0 (length bs) = Inr n" "0 < n"
    unfolding sends_all_def by (meson length_greater_0_conv)
  then have "take (min n (length bs)) bs \<noteq> []" using ne by simp
  then have "attach fds (take (min n (length bs)) bs) @ attach [] (drop (min n (length bs)) bs)
             = attach fds bs"
    by (metis append_take_drop_id attach_append)
  then show ?thesis
    using enc frame n by (simp add: send_def send_rest_delivers [OF k] Let_def)
qed

subsection \<open>Receiving\<close>

definition wire_fds :: "wire \<Rightarrow> fd list" where
  "wire_fds w = concat (map snd w)"

lemma wire_fds_simps [simp]:
  "wire_fds [] = []" "wire_fds (x # w) = snd x @ wire_fds w" "wire_fds (v @ w) = wire_fds v @ wire_fds w"
  by (simp_all add: wire_fds_def)

lemma wire_fds_plain [simp]: "wire_fds (attach [] bs) = []"
  by (simp add: wire_fds_def attach_plain)

lemma wire_fds_attach: "wire_fds (attach fds bs) = (if bs = [] then [] else fds)"
  by (cases bs) (simp_all add: attach_def wire_fds_def comp_def)

lemma wire_fds_take_mono: "a \<le> b \<Longrightarrow> length (wire_fds (take a w)) \<le> length (wire_fds (take b w))"
proof -
  assume "a \<le> b"
  then have "take b w = take a w @ take (b - a) (drop a w)"
    by (metis le_add_diff_inverse take_add)
  then show ?thesis by simp
qed

lemma wire_fds_drop_le: "length (wire_fds (take b (drop a w))) \<le> length (wire_fds (take (a + b) w))"
  by (simp add: take_add)

lemma recv_header_step:
  assumes "length header < HEADER_LEN"
    and "k_recvmsg k i (HEADER_LEN - length header) = Inr n"
    and "a = min (max 1 n) (HEADER_LEN - length header)"
  shows "recv_header k i header fds q =
           (if MAX_FDS < length (wire_fds (take a q)) then Inl BadControlMessage
            else if q = [] then (if header = [] \<and> fds = [] then Inr None else Inl ClosedInsideFrame)
            else recv_header k (Suc i) (header @ map fst (take a q)) (fds @ wire_fds (take a q))
                   (drop a q))"
proof -
  have "0 < a" using assms(1,3) by simp
  then have "take a q = [] \<longleftrightarrow> q = []" by simp
  with assms(1,2) show ?thesis
    unfolding assms(3) by (subst recv_header.simps) (simp add: Let_def wire_fds_def less_max_iff_disj)
qed

lemma recv_header_full:
  assumes "recvs_all k" and "length header \<le> HEADER_LEN"
    and "HEADER_LEN \<le> length header + length q"
    and "length (wire_fds (take (HEADER_LEN - length header) q)) \<le> MAX_FDS"
  shows "recv_header k i header fds q =
           Inr (Some (header @ map fst (take (HEADER_LEN - length header) q),
                      fds @ wire_fds (take (HEADER_LEN - length header) q),
                      drop (HEADER_LEN - length header) q))"
  using assms
proof (induction "HEADER_LEN - length header" arbitrary: i header fds q rule: less_induct)
  case less
  show ?case
  proof (cases "length header < HEADER_LEN")
    case False
    with less.prems show ?thesis by (simp add: recv_header.simps)
  next
    case True
    from less.prems(1) obtain n where n: "k_recvmsg k i (HEADER_LEN - length header) = Inr n"
      unfolding recvs_all_def by blast
    define r where "r = HEADER_LEN - length header"
    define a where "a = min (max 1 n) r"
    have a: "0 < a" "a \<le> r" "r \<le> length q" and ne: "q \<noteq> []"
      using True less.prems(3) by (auto simp: a_def r_def)
    have fits: "\<not> MAX_FDS < length (wire_fds (take a q))"
      using less.prems(4) wire_fds_take_mono [OF a(2), of q] by (simp add: r_def)
    have room: "HEADER_LEN - length (header @ map fst (take a q)) = r - a"
      using a by (simp add: r_def)
    have split: "take r q = take a q @ take (r - a) (drop a q)"
      using a by (metis le_add_diff_inverse take_add)
    have rest: "length (wire_fds (take (r - a) (drop a q))) \<le> MAX_FDS"
      using less.prems(4) wire_fds_drop_le [of "r - a" a q] a by (simp add: r_def)
    have "recv_header k (Suc i) (header @ map fst (take a q)) (fds @ wire_fds (take a q)) (drop a q) =
            Inr (Some ((header @ map fst (take a q)) @ map fst (take (r - a) (drop a q)),
                       (fds @ wire_fds (take a q)) @ wire_fds (take (r - a) (drop a q)),
                       drop (r - a) (drop a q)))"
      using less.hyps [of "header @ map fst (take a q)" "drop a q" "Suc i" "fds @ wire_fds (take a q)"]
        less.prems True a rest room by (simp add: r_def)
    then show ?thesis
      using recv_header_step [OF True n a_def [unfolded r_def], of fds q] ne fits split a
      by (simp flip: r_def)
  qed
qed

lemma recv_header_short:
  assumes "recvs_all k" and "length header + length q < HEADER_LEN"
    and "length (wire_fds q) \<le> MAX_FDS"
  shows "recv_header k i header fds q =
           (if header = [] \<and> fds = [] \<and> q = [] then Inr None else Inl ClosedInsideFrame)"
  using assms
proof (induction "length q" arbitrary: i header fds q rule: less_induct)
  case less
  from less.prems(1) obtain n where n: "k_recvmsg k i (HEADER_LEN - length header) = Inr n"
    unfolding recvs_all_def by blast
  define a where "a = min (max 1 n) (HEADER_LEN - length header)"
  have a: "0 < a" using less.prems(2) by (simp add: a_def)
  have lt: "length header < HEADER_LEN" using less.prems(2) by simp
  have "wire_fds q = wire_fds (take a q) @ wire_fds (drop a q)"
    by (metis append_take_drop_id wire_fds_simps(3))
  then have fits: "length (wire_fds (take a q)) \<le> MAX_FDS" "length (wire_fds (drop a q)) \<le> MAX_FDS"
    using less.prems(3) by simp_all
  show ?case
  proof (cases "q = []")
    case True
    with fits show ?thesis by (simp add: recv_header_step [OF lt n a_def])
  next
    case False
    with a have "length (drop a q) < length q" by simp
    from less.hyps [OF this less.prems(1) _ fits(2), of "header @ map fst (take a q)" "Suc i"
        "fds @ wire_fds (take a q)"] less.prems(2) a False
    show ?thesis using fits(1) by (simp add: recv_header_step [OF lt n a_def] min_def)
  qed
qed

subsection \<open>Whole frames\<close>

lemma encode_frame_Inr:
  "encode_frame json payload = Inr bs \<longleftrightarrow>
     length json < 2 ^ 32 \<and> length payload < 2 ^ 32 \<and>
     bs = u32_to_le (of_nat (length json)) @ u32_to_le (of_nat (length payload)) @ json @ payload"
  by (auto simp: encode_frame_def u32_try_from_def split: if_splits)

lemma unat_length_u32: "n < 2 ^ 32 \<Longrightarrow> unat (of_nat n :: u32) = n"
  by (rule u32_try_from_unat) (simp add: u32_try_from_Some)

lemma frame_header:
  assumes "encode_frame json payload = Inr bs"
  shows "take HEADER_LEN bs =
           u32_to_le (of_nat (length json)) @ u32_to_le (of_nat (length payload))"
    and "drop HEADER_LEN bs = json @ payload"
    and "length bs = HEADER_LEN + length json + length payload"
  using assms by (simp_all add: encode_frame_Inr HEADER_LEN_def)

lemma header_lengths:
  assumes "length json < 2 ^ 32" and "length payload < 2 ^ 32"
    and "header = u32_to_le (of_nat (length json)) @ u32_to_le (of_nat (length payload))"
  shows "unat (u32_from_le (header ! 0) (header ! 1) (header ! 2) (header ! 3)) = length json"
    and "unat (u32_from_le (header ! 4) (header ! 5) (header ! 6) (header ! 7)) = length payload"
  using assms(1,2)
  by (simp_all add: assms(3) u32_to_le_def u32_le_roundtrip nth_append nth_Cons' unat_length_u32)

text \<open>What \<open>recv\<close> sees of a wire that starts with (part of) a frame.\<close>

lemma recv_after_header:
  assumes "encode_frame json payload = Inr bs"
    and "recv_header k 0 [] [] q =
           Inr (Some (u32_to_le (of_nat (length json)) @ u32_to_le (of_nat (length payload)), fds, q1))"
  shows "recv dec k q =
           (if MAX_JSON_LEN < length json \<or> MAX_PAYLOAD_LEN < length payload
            then Inl (FrameTooLarge (length json) (length payload))
            else and_then (read_exact (k_dup k 0) (length json) q1) (\<lambda>(json, q2).
                 and_then (read_exact (k_dup k 1) (length payload) q2) (\<lambda>(payload, q3).
                   case dec json of
                     None \<Rightarrow> Inl DecodeFailed
                   | Some message \<Rightarrow>
                       Inr (Some \<lparr>fr_message = message, fr_payload = payload, fr_fds = fds\<rparr>, q3))))"
proof -
  from assms(1) have lens: "length json < 2 ^ 32" "length payload < 2 ^ 32"
    by (simp_all add: encode_frame_Inr)
  show ?thesis
    unfolding recv_def assms(2)
    by (simp only: and_then_Inr option.case prod.case Let_def header_lengths [OF lens refl])
qed

lemma attach_take:
  "0 < n \<Longrightarrow> take n (attach fds bs) = attach fds (take n bs)"
  by (cases bs; cases n) (simp_all add: attach_def take_map)

lemma attach_drop: "0 < n \<Longrightarrow> drop n (attach fds bs) = attach [] (drop n bs)"
  by (cases bs; cases n) (simp_all add: attach_def drop_map attach_plain [unfolded attach_def])

lemma recv_header_frame:
  assumes "recvs_all k" and "length fds \<le> MAX_FDS" and "encode_frame json payload = Inr bs"
  shows "recv_header k 0 [] [] (attach fds bs @ rest) =
           Inr (Some (u32_to_le (of_nat (length json)) @ u32_to_le (of_nat (length payload)), fds,
                      attach [] (json @ payload) @ rest))"
proof -
  have len: "HEADER_LEN \<le> length bs" and pos: "0 < HEADER_LEN"
    using frame_header(3) [OF assms(3)] by (simp_all add: HEADER_LEN_def)
  then have ne: "take HEADER_LEN bs \<noteq> []" by auto
  have tk: "take HEADER_LEN (attach fds bs @ rest) = attach fds (take HEADER_LEN bs)"
    using len attach_take [OF pos] by simp
  have dr: "drop HEADER_LEN (attach fds bs @ rest) = attach [] (json @ payload) @ rest"
    using len attach_drop [OF pos] frame_header(2) [OF assms(3)] by simp
  have "length (wire_fds (attach fds (take HEADER_LEN bs))) \<le> MAX_FDS"
    using assms(2) by (simp add: wire_fds_attach)
  then show ?thesis
    using recv_header_full [OF assms(1), of "[]" "attach fds bs @ rest" 0 "[]"] len ne
    unfolding list.size(3) diff_zero tk dr
    by (simp add: wire_fds_attach frame_header(1) [OF assms(3)])
qed

lemma recv_frame:
  assumes "recvs_all k" and "length fds \<le> MAX_FDS" and "encode_frame json payload = Inr bs"
    and "dec json = Some m"
    and "length json \<le> MAX_JSON_LEN" and "length payload \<le> MAX_PAYLOAD_LEN"
  shows "recv dec k (attach fds bs @ rest) =
           Inr (Some \<lparr>fr_message = m, fr_payload = payload, fr_fds = fds\<rparr>, rest)"
proof -
  from assms(1) have "k_dup k i" for i by (simp add: recvs_all_def)
  with assms(4-6) show ?thesis
    by (simp add: recv_after_header [OF assms(3) recv_header_frame [OF assms(1-3)]]
        read_exact_def attach_plain comp_def)
qed

lemma recv_oversized:
  assumes "recvs_all k" and "length fds \<le> MAX_FDS" and "encode_frame json payload = Inr bs"
    and "MAX_JSON_LEN < length json \<or> MAX_PAYLOAD_LEN < length payload"
  shows "recv dec k (attach fds bs @ rest) = Inl (FrameTooLarge (length json) (length payload))"
  using assms(4) by (simp add: recv_after_header [OF assms(3) recv_header_frame [OF assms(1-3)]])

lemma recv_truncated:
  assumes "recvs_all k" and "length fds \<le> MAX_FDS" and "encode_frame json payload = Inr bs"
    and "length json \<le> MAX_JSON_LEN" and "length payload \<le> MAX_PAYLOAD_LEN"
    and n: "0 < n" "n < length bs"
  shows "recv dec k (take n (attach fds bs)) = Inl ClosedInsideFrame"
proof (cases "n < HEADER_LEN")
  case True
  have "take n bs \<noteq> []" using n by auto
  then have "recv_header k 0 [] [] (attach fds (take n bs)) = Inl ClosedInsideFrame"
    using recv_header_short [OF assms(1), of "[]" "attach fds (take n bs)" 0 "[]"] True n assms(2)
    by (auto simp: wire_fds_attach simp flip: length_greater_0_conv)
  then show ?thesis by (simp add: recv_def attach_take [OF n(1)])
next
  case False
  let ?q = "attach fds (take n bs)"
  have pos: "0 < HEADER_LEN" by (simp add: HEADER_LEN_def)
  have len: "HEADER_LEN \<le> length ?q" using False n by simp
  have tk: "take HEADER_LEN ?q = attach fds (take HEADER_LEN bs)"
    using attach_take [OF pos] False by (simp add: min_def)
  have ne: "take HEADER_LEN bs \<noteq> []" using pos n by auto
  have hdr: "recv_header k 0 [] [] ?q =
          Inr (Some (u32_to_le (of_nat (length json)) @ u32_to_le (of_nat (length payload)), fds,
                     drop HEADER_LEN ?q))"
    using recv_header_full [OF assms(1), of "[]" ?q 0 "[]"] len assms(2) ne
    unfolding list.size(3) diff_zero tk
    by (simp add: wire_fds_attach frame_header(1) [OF assms(3)])
  have short: "n - HEADER_LEN < length json + length payload"
    using n False frame_header(3) [OF assms(3)] by simp
  from assms(1) have dup: "k_dup k i" for i by (simp add: recvs_all_def)
  have "\<not> n - HEADER_LEN < length json \<Longrightarrow> n - (length json + HEADER_LEN) < length payload"
    using short False by linarith
  then show ?thesis
    using short n assms(4,5) dup
    by (simp add: attach_take [OF n(1)] recv_after_header [OF assms(3) hdr] read_exact_def)
qed

subsection \<open>Properties of the channel\<close>

text \<open>
  C40: Control frames survive the wire. However the kernel cuts the bytes into system calls
  on either side, a sent message is received as it was sent: same message, same payload,
  same descriptors in the same order, and what follows it on the wire is left for the next
  \<open>recv\<close>. The JSON codec only has to decode what it encoded.
\<close>

theorem frame_roundtrip:
  assumes "sends_all k" and "recvs_all k'"
    and "enc m = Some json" and "dec json = Some m"
    and "length json \<le> MAX_JSON_LEN" and "length payload \<le> MAX_PAYLOAD_LEN"
    and "length fds \<le> MAX_FDS"
  shows "\<exists>w. send enc k m payload fds = (w, Inr ()) \<and>
             (\<forall>rest. recv dec k' (w @ rest) =
                Inr (Some \<lparr>fr_message = m, fr_payload = payload, fr_fds = fds\<rparr>, rest))"
proof -
  have "length json < 2 ^ 32" "length payload < 2 ^ 32"
    using assms(5,6) by (simp_all add: MAX_JSON_LEN_def MAX_PAYLOAD_LEN_def)
  then obtain bs where bs: "encode_frame json payload = Inr bs"
    by (simp add: encode_frame_Inr)
  show ?thesis
    using send_delivers [where enc = enc and m = m, OF assms(1,3) bs] recv_frame [where dec = dec and m = m, OF assms(2,7) bs assms(4-6)] by blast
qed

text \<open>
  A kernel that moves one byte per call and never fails, and a codec that writes a request
  as one byte, for the witnesses.
\<close>

definition slow_kernel :: kernel where
  "slow_kernel = \<lparr>k_sendmsg = (\<lambda>i n. Inr 1), k_recvmsg = (\<lambda>i n. Inr 1), k_dup = (\<lambda>i. True)\<rparr>"

definition one_byte_enc :: "request \<Rightarrow> byte list option" where
  "one_byte_enc r = Some [case r of RqPrepare \<Rightarrow> 0 | RqStart \<Rightarrow> 1 | RqInitialize \<Rightarrow> 2
                            | RqFreeze \<Rightarrow> 3 | RqFork \<Rightarrow> 4 | RqStop \<Rightarrow> 5]"

definition one_byte_dec :: "byte list \<Rightarrow> request option" where
  "one_byte_dec bs = (if bs = [0] then Some RqPrepare else if bs = [1] then Some RqStart
     else if bs = [2] then Some RqInitialize else if bs = [3] then Some RqFreeze
     else if bs = [4] then Some RqFork else if bs = [5] then Some RqStop else None)"

lemma slow_kernel_ok [simp]: "sends_all slow_kernel" "recvs_all slow_kernel"
  by (simp_all add: sends_all_def recvs_all_def slow_kernel_def)

theorem frame_roundtrip_witness:
  "\<exists>w. send one_byte_enc slow_kernel RqFork [7, 8] [3, 9] = (w, Inr ()) \<and>
       (\<forall>rest. recv one_byte_dec slow_kernel (w @ rest) =
          Inr (Some \<lparr>fr_message = RqFork, fr_payload = [7, 8], fr_fds = [3, 9]\<rparr>, rest))"
  by (rule frame_roundtrip [where json = "[4]"])
     (simp_all add: one_byte_enc_def one_byte_dec_def MAX_JSON_LEN_def MAX_PAYLOAD_LEN_def
       MAX_FDS_def)

text \<open>
  A connection that ends inside a frame is an error, never a frame: any proper,
  non-empty prefix of what \<open>send\<close> put on the wire is refused with \<open>closed inside a
  frame\<close>, and only an empty wire reads as the end of the stream.
\<close>

theorem truncated_frame_refused:
  assumes "sends_all k" and "recvs_all k'"
    and "enc m = Some json"
    and "length json \<le> MAX_JSON_LEN" and "length payload \<le> MAX_PAYLOAD_LEN"
    and "length fds \<le> MAX_FDS"
    and "send enc k m payload fds = (w, Inr ())" and "n < length w"
  shows "recv dec k' (take n w) = (if n = 0 then Inr (None, []) else Inl ClosedInsideFrame)"
proof -
  have "length json < 2 ^ 32" "length payload < 2 ^ 32"
    using assms(4,5) by (simp_all add: MAX_JSON_LEN_def MAX_PAYLOAD_LEN_def)
  then obtain bs where bs: "encode_frame json payload = Inr bs"
    by (simp add: encode_frame_Inr)
  with assms(7) send_delivers [where enc = enc and m = m, OF assms(1,3) bs] have w: "w = attach fds bs" by simp
  have "recv dec k' [] = Inr (None, [])"
    using recv_header_short [OF assms(2), of "[]" "[]" 0 "[]"]
    by (simp add: recv_def HEADER_LEN_def)
  with w assms(8) recv_truncated [where dec = dec, OF assms(2,6) bs assms(4,5)] show ?thesis by simp
qed

theorem truncated_frame_refused_witness:
  "recv one_byte_dec slow_kernel (take 4 (fst (send one_byte_enc slow_kernel RqStop [] [])))
     = Inl ClosedInsideFrame"
proof -
  have snd: "send one_byte_enc slow_kernel RqStop [] [] = (attach [] [1, 0, 0, 0, 0, 0, 0, 0, 5], Inr ())"
    by (rule send_delivers [where json = "[5]"])
       (simp_all add: one_byte_enc_def encode_frame_def u32_try_from_def u32_to_le_def)
  show ?thesis
    using truncated_frame_refused [where json = "[5]" and n = 4 and dec = one_byte_dec,
        OF slow_kernel_ok _ _ _ _ snd]
    by (simp add: snd one_byte_enc_def MAX_JSON_LEN_def MAX_PAYLOAD_LEN_def)
qed

text \<open>
  The size limits are enforced by the receiver alone. A message whose JSON or payload
  is over its limit, but whose lengths still fit the header, is sent without an error and
  refused by the other end, whatever the codec would have made of it.
\<close>

theorem oversized_frame_refused_by_receiver:
  assumes "sends_all k" and "recvs_all k'"
    and "enc m = Some json"
    and "length json < 2 ^ 32" and "length payload < 2 ^ 32"
    and "MAX_JSON_LEN < length json \<or> MAX_PAYLOAD_LEN < length payload"
    and "length fds \<le> MAX_FDS"
  shows "\<exists>w. send enc k m payload fds = (w, Inr ()) \<and>
             recv dec k' (w @ rest) = Inl (FrameTooLarge (length json) (length payload))"
proof -
  from assms(4,5) obtain bs where bs: "encode_frame json payload = Inr bs"
    by (simp add: encode_frame_Inr)
  show ?thesis
    using send_delivers [where enc = enc and m = m, OF assms(1,3) bs] recv_oversized [OF assms(2,7) bs assms(6)] by blast
qed

theorem oversized_frame_refused_by_receiver_witness:
  "\<exists>w. send one_byte_enc slow_kernel RqInitialize (replicate (MAX_PAYLOAD_LEN + 1) 0) [] = (w, Inr ()) \<and>
       recv one_byte_dec slow_kernel (w @ []) = Inl (FrameTooLarge 1 (MAX_PAYLOAD_LEN + 1))"
  using oversized_frame_refused_by_receiver [where json = "[2]" and m = RqInitialize and fds = "[]"
      and payload = "replicate (MAX_PAYLOAD_LEN + 1) 0" and rest = "[]" and dec = one_byte_dec,
      OF slow_kernel_ok]
  by (simp add: one_byte_enc_def MAX_PAYLOAD_LEN_def)

end
