(* ===== verification/Title.thy ===== *)
theory Title
  imports Sockets
begin

text \<open>
  The host's process title (\<open>src/crates/servicecache/src/host/title.rs\<close>): the padding
  argument, the text of a title, the location of the argument memory in \<open>/proc/self/stat\<close>, and
  the write over that memory. Memory is a function from addresses to bytes; the text of
  \<open>/proc/self/stat\<close> is an argument.
\<close>

subsection \<open>The padding argument\<close>

definition BUFFER_FLAG :: string where
  "BUFFER_FLAG = ''--internal-name-buffer''"

definition BUFFER_LEN :: nat where
  "BUFFER_LEN = 256"

definition BUFFER_ARG :: string where
  "BUFFER_ARG =
     (let text = BUFFER_FLAG @ ''='' @ ''_SERVICECACHE_NAME_BUFFER''
      in text @ replicate (BUFFER_LEN - length text) (CHR ''_''))"

subsection \<open>The text\<close>

datatype title_state = Starting | Serving sockaddr | TitleFrozen

definition render :: "string \<Rightarrow> string \<Rightarrow> byte list option \<Rightarrow> title_state \<Rightarrow> string" where
  "render name version recipe state =
     (let role = (case state of Starting \<Rightarrow> ''instance'' | Serving _ \<Rightarrow> ''instance''
                  | TitleFrozen \<Rightarrow> ''template'')
      in ''servicecache '' @ role @ '' '' @ name @ ''@'' @ version
         @ (case recipe of None \<Rightarrow> []
            | Some digest \<Rightarrow> '' recipe '' @ concat (map hex2 (take 4 digest)))
         @ (case state of Starting \<Rightarrow> '' starting''
            | Serving endpoint \<Rightarrow> '' listening on '' @ show_addr endpoint
            | TitleFrozen \<Rightarrow> []))"

subsection \<open>The argument memory\<close>

text \<open>\<open>str::rsplit_once\<close>, \<open>split_ascii_whitespace\<close> and \<open>usize::from_str\<close>.\<close>

fun rsplit_once :: "char \<Rightarrow> string \<Rightarrow> (string \<times> string) option" where
  "rsplit_once sep [] = None"
| "rsplit_once sep (c # cs) =
     (case rsplit_once sep cs of
        Some (before, after) \<Rightarrow> Some (c # before, after)
      | None \<Rightarrow> if c = sep then Some ([], cs) else None)"

definition is_ascii_space :: "char \<Rightarrow> bool" where
  "is_ascii_space c = ((of_char c :: nat) \<in> {9, 10, 12, 13, 32})"

fun split_ascii_whitespace :: "string \<Rightarrow> string list" where
  "split_ascii_whitespace [] = []"
| "split_ascii_whitespace [c] = (if is_ascii_space c then [] else [[c]])"
| "split_ascii_whitespace (c # d # s) =
     (if is_ascii_space c then split_ascii_whitespace (d # s)
      else if is_ascii_space d then [c] # split_ascii_whitespace (d # s)
      else (case split_ascii_whitespace (d # s) of
              [] \<Rightarrow> [[c]] | w # ws \<Rightarrow> (c # w) # ws))"

definition parse_usize :: "string \<Rightarrow> nat option" where
  "parse_usize s =
     (case parse_nat (case s of CHR ''+'' # s' \<Rightarrow> s' | _ \<Rightarrow> s) of
        None \<Rightarrow> None
      | Some n \<Rightarrow> if int n < 2 ^ 64 then Some n else None)"

datatype region_error = StatUnreadable io_error | Unparseable | NoField | BadNumber | NoRegion

definition nth_field :: "string list \<Rightarrow> nat \<Rightarrow> region_error + nat" where
  "nth_field fs n =
     (if n < length fs
      then (case parse_usize (fs ! n) of None \<Rightarrow> Inl BadNumber | Some v \<Rightarrow> Inr v)
      else Inl NoField)"

definition region :: "io_error + string \<Rightarrow> region_error + (nat \<times> nat)" where
  "region stat_text =
     (case stat_text of
        Inl e \<Rightarrow> Inl (StatUnreadable e)
      | Inr stat \<Rightarrow>
          (case rsplit_once (CHR '')'') stat of
             None \<Rightarrow> Inl Unparseable
           | Some (_, after_comm) \<Rightarrow>
               (let fs = split_ascii_whitespace after_comm in
                and_then (nth_field fs (48 - 3)) (\<lambda>arg_start.
                and_then (nth_field fs (48 - 3 + 1)) (\<lambda>arg_end.
                  if arg_start = 0 \<or> arg_end \<le> arg_start then Inl NoRegion
                  else Inr (arg_start, arg_end - arg_start))))))"

definition write_title ::
  "io_error + string \<Rightarrow> string \<Rightarrow> (nat \<Rightarrow> byte) \<Rightarrow> (nat \<Rightarrow> byte)" where
  "write_title stat_text title mem =
     (case region stat_text of
        Inl _ \<Rightarrow> mem
      | Inr (start, len) \<Rightarrow>
          (let room = len - 1;
               shown = take room (map byte_of_char title)
           in (\<lambda>a. if start \<le> a \<and> a < start + length shown then shown ! (a - start)
                   else if start + length shown \<le> a \<and> a < start + len then 0
                   else mem a)))"

definition set_title ::
  "io_error + string \<Rightarrow> string \<Rightarrow> string \<Rightarrow> byte list option \<Rightarrow> title_state \<Rightarrow> (nat \<Rightarrow> byte) \<Rightarrow> (nat \<Rightarrow> byte)" where
  "set_title stat_text name version recipe state =
     write_title stat_text (render name version recipe state)"

text \<open>A process whose arguments occupy 300 bytes at address 64, as the kernel reports it.\<close>

definition demo_stat :: string where
  "demo_stat = ''7 (a) b) '' @ join_strings '' '' (replicate 45 ''0'' @ [''64'', ''364'', ''0''])"

subsection \<open>Lemmas\<close>

lemma region_bounds: "region stat = Inr (start, len) \<Longrightarrow> 0 < start \<and> 0 < len"
  by (auto simp: region_def Let_def result_simps split: sum.splits option.splits if_splits)

lemma length_concat_hex2: "length (concat (map hex2 bs)) = 2 * length bs"
  by (induction bs) simp_all

lemma length_show_port: "length (show_port p) \<le> 5"
proof -
  have "unat p < 65536" using unsigned_less [of p] by simp
  then show ?thesis using length_show_nat [of "unat p" 4] by (simp add: show_port_def)
qed

lemma length_show_ip: "length (show_ip i) \<le> 15"
proof -
  obtain a b c d where i: "i = (a, b, c, d)" by (cases i)
  have o: "length (show_nat (unat x)) \<le> 3" for x :: byte by (rule length_show_nat_octet) simp
  show ?thesis using o [of a] o [of b] o [of c] o [of d] by (simp add: i show_ip_def)
qed

lemma length_show_addr: "length (show_addr a) \<le> 21"
  using length_show_ip [of "sa_ip a"] length_show_port [of "sa_port a"] by (simp add: show_addr_def)

lemma length_render:
  "length (render name version recipe state) \<le> length name + length version + 74"
proof -
  have "length (case state of Starting \<Rightarrow> '' starting''
      | Serving endpoint \<Rightarrow> '' listening on '' @ show_addr endpoint | TitleFrozen \<Rightarrow> []) \<le> 35"
    using length_show_addr by (auto split: title_state.split)
  moreover have "length (case recipe of None \<Rightarrow> []
      | Some digest \<Rightarrow> '' recipe '' @ concat (map hex2 (take 4 digest))) \<le> 16"
    by (auto simp: length_concat_hex2 split: option.split)
  ultimately show ?thesis by (auto simp: render_def Let_def split: title_state.split)
qed


lemma write_title_region:
  assumes "region stat = Inr (start, len)"
  shows "a < start \<or> start + len \<le> a \<Longrightarrow> write_title stat title mem a = mem a"
    and "i < len \<Longrightarrow> write_title stat title mem (start + i)
      = (if i < min (len - 1) (length title) then byte_of_char (title ! i) else 0)"
  using assms region_bounds [OF assms] by (auto simp: write_title_def Let_def)

subsection \<open>Properties\<close>

text \<open>
  Setting the title never touches a byte outside the argument memory the kernel reports,
  and leaves its last byte NUL. When name and version have at most 181 characters together,
  the padding argument alone is room enough: the memory then holds the whole title followed
  by NUL bytes only.\<close>

theorem set_title_confined:
  assumes "region stat = Inr (start, len)"
  shows "(\<forall>a. a < start \<or> start + len \<le> a \<longrightarrow> set_title stat name version recipe state mem a = mem a)
    \<and> set_title stat name version recipe state mem (start + len - 1) = 0
    \<and> (length BUFFER_ARG \<le> len \<and> length name + length version \<le> 181 \<longrightarrow>
         (\<forall>i < len. set_title stat name version recipe state mem (start + i)
            = (map byte_of_char (render name version recipe state)
               @ replicate (len - length (render name version recipe state)) 0) ! i))"
proof (intro conjI allI impI)
  note facts = write_title_region [OF assms] region_bounds [OF assms]
  show "set_title stat name version recipe state mem (start + len - 1) = 0"
    using facts(2) [of "len - 1"] facts(3) by (simp add: set_title_def)
  show "set_title stat name version recipe state mem a = mem a" if "a < start \<or> start + len \<le> a" for a
    using that facts(1) by (simp add: set_title_def)
  fix i
  assume *: "length BUFFER_ARG \<le> len \<and> length name + length version \<le> 181" and "i < len"
  have "length BUFFER_ARG = 256"
    by (simp add: BUFFER_ARG_def BUFFER_FLAG_def BUFFER_LEN_def Let_def)
  with * length_render [of name version recipe state]
  have "length (render name version recipe state) \<le> len - 1" by linarith
  with \<open>i < len\<close> facts(2) [of i] show "set_title stat name version recipe state mem (start + i)
      = (map byte_of_char (render name version recipe state)
         @ replicate (len - length (render name version recipe state)) 0) ! i"
    by (simp add: set_title_def nth_append)
qed

theorem set_title_confined_witness:
  "region (Inr demo_stat) = Inr (64, 300)
   \<and> set_title (Inr demo_stat) ''redis'' ''7'' None Starting (\<lambda>_. 65) 363 = 0
   \<and> set_title (Inr demo_stat) ''redis'' ''7'' None Starting (\<lambda>_. 65) 364 = 65"
proof -
  have region: "region (Inr demo_stat) = Inr (64, 300)" by code_simp
  from set_title_confined [OF this, of "''redis''" "''7''" None Starting "\<lambda>_. 65"] region
  show ?thesis by simp
qed

end
