(* ===== verification/HostState.thy ===== *)
theory HostState
  imports Protocol Manifest Networking Title
begin

text \<open>
  The state of a host process and its surroundings
  (\<open>src/crates/servicecache/src/host/mod.rs\<close>, \<open>guest.rs\<close>). The record \<open>host\<close> has the
  fields of \<open>struct Host\<close> that decide behaviour, and logs of the effects other processes see:
  the replies sent on each channel, the requests read, the guest runs started, the sockets
  shut down.

  Everything the process observes between two polls of its control loop is one \<open>observation\<close>:
  whether a request is readable and which, the bytes other threads put in the event pipe,
  what the guest did with its networking, which runs and clones ended, and what the system
  calls of a freeze or a fork return. A run of the host is a function of the list of its
  observations. What does not change during a run is the record \<open>host_env\<close>.
\<close>

subsection \<open>Errors\<close>

datatype host_error =
    Refused string
  | PollFailed errno
  | BadEvent byte
  | SignalReadFailed
  | Channel chan_error
  | Networking host_net_error
  | StdinUnreadable io_error
  | SpawnFailed string
  | ProbeNotStarted string
  | ProbeFailed string
  | TasksInFlight nat
  | DrainFailed string
  | ThreadsRemain nat
  | SnapshotFailed string
  | ForkFailed string
  | RebuildFailed string

definition net_error_text :: "host_net_error \<Rightarrow> string" where
  "net_error_text e =
     (case e of
        AlreadyBound \<Rightarrow> ''the guest has already bound its listening socket''
      | NotBound \<Rightarrow> ''the guest has not bound its listening socket''
      | NoAddress _ \<Rightarrow> ''the passed listener has no address''
      | ReplaceFailed _ \<Rightarrow> ''failed to replace the guest's listening socket''
      | NoListenerPassed \<Rightarrow> ''no listening socket was passed''
      | ShutdownFailed fd _ \<Rightarrow> ''failed to shut down socket '' @ show_nat fd)"

definition chan_error_text :: "chan_error \<Rightarrow> string" where
  "chan_error_text e =
     (case e of
        EncodeFailed \<Rightarrow> ''failed to encode a control message''
      | MessageTooLong \<Rightarrow> ''control message too long''
      | PayloadTooLong \<Rightarrow> ''control payload too long''
      | SendFailed _ \<Rightarrow> ''failed to send a control frame''
      | ClosedWhileSending \<Rightarrow> ''control channel closed while sending''
      | RecvFailed _ \<Rightarrow> ''failed to receive a control frame''
      | BadControlMessage \<Rightarrow> ''bad control message''
      | ClosedInsideFrame \<Rightarrow> ''control channel closed inside a frame''
      | FrameTooLarge j p \<Rightarrow>
          ''control frame too large: '' @ show_nat j @ '' + '' @ show_nat p @ '' bytes''
      | DupFailed \<Rightarrow> ''failed to dup the channel''
      | DecodeFailed \<Rightarrow> ''failed to decode a control message'')"

text \<open>
  The text a failed request is answered with: the outermost message of the error; the
  causes a library adds after it are not modelled.
\<close>

definition error_text :: "host_error \<Rightarrow> string" where
  "error_text e =
     (case e of
        Refused text \<Rightarrow> text
      | PollFailed _ \<Rightarrow> ''poll in the control loop''
      | BadEvent b \<Rightarrow> ''unexpected byte '' @ show_nat (unat b) @ '' in the event pipe''
      | SignalReadFailed \<Rightarrow> ''failed to read SIGCHLD''
      | Channel c \<Rightarrow> chan_error_text c
      | Networking n \<Rightarrow> net_error_text n
      | StdinUnreadable _ \<Rightarrow> ''failed to read prepare stdin file''
      | SpawnFailed text \<Rightarrow> text
      | ProbeNotStarted _ \<Rightarrow> ''failed to start the readiness probe''
      | ProbeFailed summary \<Rightarrow>
          ''the guest did not answer its readiness probe within 30s: '' @ summary
      | TasksInFlight n \<Rightarrow> show_nat n @ '' host-side task(s) in flight; a fork would lose them''
      | DrainFailed _ \<Rightarrow> ''draining the guest''
      | ThreadsRemain n \<Rightarrow> show_nat n @ '' threads remain after dismantling''
      | SnapshotFailed _ \<Rightarrow> ''snapshotting shared memory''
      | ForkFailed _ \<Rightarrow> ''fork failed''
      | RebuildFailed text \<Rightarrow> text)"

subsection \<open>Data\<close>

datatype phase = Fresh | Prepared | Running bool | PhaseFrozen

record guest_run =
  gr_module :: path
  gr_program_name :: string
  gr_args :: "string list"
  gr_stdin :: "byte list"
  gr_network :: bool

record host =
  h_manifest :: manifest
  h_pid :: nat
  h_networking :: networking
  h_pipe :: "byte list"
  h_guest :: bool
  h_probe :: bool
  h_shared_memory :: "nat option"
  h_phase :: phase
  h_recipe :: "byte list option"
  h_compaction :: bool
  h_generation :: nat
  h_tokio_exit :: bool
  h_title :: string
  h_sends_left :: "nat option"
  h_sent :: "(fd \<times> reply) list"
  h_read :: "request list"
  h_runs :: "(run \<times> guest_run) list"
  h_shutdowns :: "(fd \<times> shutdown_how) list"

record host_env =
  he_local_addr :: "fd \<Rightarrow> io_error + sockaddr"
  he_fs :: fs_view
  he_sha256 :: "byte list \<Rightarrow> byte list"

subsection \<open>Observations\<close>

datatype poll_result = PollOk bool | PollErr errno

datatype child_end = ChildExited nat int | ChildSignaled nat int

datatype guest_op =
    GuestBind "net_error option" sockaddr
  | GuestListen bound_socket
  | GuestAccept fd sockaddr
  | GuestDrop fd

text \<open>The steps of \<open>rebuild\<close> that can fail, in order; \<open>None\<close> is success.\<close>

record rebuild_result =
  rb_profiler :: "string option"
  rb_pdeathsig :: "string option"
  rb_reshare :: "string option"
  rb_tokio :: "string option"
  rb_replace :: "string option"
  rb_selector :: "string option"
  rb_resurrect :: "string option"

datatype fork_return = ForkErr string | ForkParent nat | ForkChild nat rebuild_result

record observation =
  ob_poll :: poll_result
  ob_recv :: "chan_error + request frame option"
  ob_events :: "byte list"
  ob_guest_ops :: "guest_op list"
  ob_signals_ok :: bool
  ob_guest :: "int option"
  ob_run :: "int option"
  ob_children :: "child_end list"
  ob_spawn :: "string + int option"
  ob_probe_spawn :: "string option"
  ob_probe :: "(string + unit) option"
  ob_compacted :: bool
  ob_in_flight :: nat
  ob_drain :: "string + nat"
  ob_threads :: "nat \<Rightarrow> nat"
  ob_dismantle_polls :: nat
  ob_shutdown :: "fd \<Rightarrow> shutdown_how \<Rightarrow> errno option"
  ob_snapshot :: "string + nat"
  ob_fork :: fork_return

subsection \<open>Effects\<close>

definition set_host_title :: "title_state \<Rightarrow> host \<Rightarrow> host" where
  "set_host_title state h =
     (let service = mf_service (h_manifest h) in
      h\<lparr>h_title := render (sv_name service) (sv_version service) (h_recipe h) state\<rparr>)"

definition new_host :: "manifest \<Rightarrow> nat \<Rightarrow> nat option \<Rightarrow> host" where
  "new_host m pid sends =
     set_host_title Starting
       \<lparr>h_manifest = m, h_pid = pid,
        h_networking = new_networking (of_nat (gs_listen_port (mf_guest m))),
        h_pipe = [], h_guest = False, h_probe = False, h_shared_memory = None, h_phase = Fresh,
        h_recipe = None, h_compaction = False, h_generation = 0, h_tokio_exit = False,
        h_title = [], h_sends_left = sends, h_sent = [], h_read = [], h_runs = [],
        h_shutdowns = []\<rparr>"

text \<open>
  \<open>channel.send(&reply, &[], &[])\<close>. The peer may go away: \<open>h_sends_left\<close> is how many sends
  still succeed, \<open>None\<close> when all do.
\<close>

definition send_reply :: "fd \<Rightarrow> reply \<Rightarrow> host \<Rightarrow> (host_error + unit) \<times> host" where
  "send_reply ch r h =
     (case h_sends_left h of
        Some 0 \<Rightarrow> (Inl (Channel ClosedWhileSending), h)
      | Some (Suc n) \<Rightarrow> (Inr (), h\<lparr>h_sent := h_sent h @ [(ch, r)], h_sends_left := Some n\<rparr>)
      | None \<Rightarrow> (Inr (), h\<lparr>h_sent := h_sent h @ [(ch, r)]\<rparr>))"

text \<open>The guest's threads at work between two polls; a listen announces itself in the pipe.\<close>

definition apply_guest_op :: "guest_op \<Rightarrow> host \<Rightarrow> host" where
  "apply_guest_op g h =
     (let n = h_networking h in
      case g of
        GuestBind failure addr \<Rightarrow> h\<lparr>h_networking := fst (bind_tcp failure addr n)\<rparr>
      | GuestListen s \<Rightarrow>
          (case listen s n of
             (n', _, Inr _) \<Rightarrow> h\<lparr>h_networking := n', h_pipe := h_pipe h @ [1]\<rparr>
           | (n', _, Inl _) \<Rightarrow> h\<lparr>h_networking := n'\<rparr>)
      | GuestAccept fd addr \<Rightarrow> h\<lparr>h_networking := fst (try_accept (\<lambda>_. Inr (fd, addr)) n)\<rparr>
      | GuestDrop fd \<Rightarrow> h\<lparr>h_networking := drop_guard fd n\<rparr>)"

definition absorb :: "observation \<Rightarrow> host \<Rightarrow> host" where
  "absorb ob h = (let h' = fold apply_guest_op (ob_guest_ops ob) h
                 in h'\<lparr>h_pipe := h_pipe h' @ ob_events ob\<rparr>)"

text \<open>\<open>guests.spawn(&run)\<close>: what the runtime answers, and the run in the log when it started.\<close>

definition spawn_run ::
  "observation \<Rightarrow> run \<Rightarrow> guest_run \<Rightarrow> host \<Rightarrow> (host_error + int option) \<times> host" where
  "spawn_run ob r g h =
     (case ob_spawn ob of
        Inl e \<Rightarrow> (Inl (SpawnFailed e), h)
      | Inr status \<Rightarrow> (Inr status, h\<lparr>h_runs := h_runs h @ [(r, g)]\<rparr>))"

end
