(* ===== verification/Freeze.thy ===== *)
theory Freeze
  imports HostState
begin

text \<open>
  Freezing a host and forking it (\<open>src/crates/servicecache/src/host/freeze.rs\<close>, without the
  zero-page scan, which is the theory Compaction): the order of the steps, what each changes,
  and where a failure stops. The gate, the coroutine drain, the shared-memory snapshot and the
  resurrection of threads belong to the patched Wasmer; what they answer is part of the
  observation.
\<close>

subsection \<open>freeze\<close>

text \<open>
  The wait for the last threads: \<open>threads i\<close> is the thread count at the \<open>i\<close>-th reading, and
  the deadline passes at reading \<open>polls\<close>.
\<close>

function dismantle :: "(nat \<Rightarrow> nat) \<Rightarrow> nat \<Rightarrow> nat \<Rightarrow> host_error + unit" where
  "dismantle threads polls i =
     (if threads i = 1 then Inr ()
      else if polls \<le> i then Inl (ThreadsRemain (threads i))
      else dismantle threads polls (Suc i))"
  by pat_completeness auto
termination
  by (relation "measure (\<lambda>(_, polls, i). polls - i)") auto

declare dismantle.simps [simp del]

definition freeze_guest :: "observation \<Rightarrow> host \<Rightarrow> (host_error + nat) \<times> host" where
  "freeze_guest ob h =
     (if ob_in_flight ob > 0 then (Inl (TasksInFlight (ob_in_flight ob)), h)
      else case ob_drain ob of
        Inl e \<Rightarrow> (Inl (DrainFailed e), h)
      | Inr coroutines \<Rightarrow>
          (let h1 = h\<lparr>h_tokio_exit := True\<rparr> in
           case dismantle (ob_threads ob) (ob_dismantle_polls ob) 0 of
             Inl e \<Rightarrow> (Inl e, h1)
           | Inr _ \<Rightarrow>
               (case shut_down_sockets (ob_shutdown ob) (h_networking h1) of
                  (calls, r) \<Rightarrow>
                    (let h2 = h1\<lparr>h_shutdowns := h_shutdowns h1 @ calls\<rparr> in
                     case r of
                       Inl e \<Rightarrow> (Inl (Networking e), h2)
                     | Inr _ \<Rightarrow>
                         (case ob_snapshot ob of
                            Inl e \<Rightarrow> (Inl (SnapshotFailed e), h2)
                          | Inr objects \<Rightarrow>
                              (Inr coroutines, h2\<lparr>h_shared_memory := Some objects\<rparr>))))))"

subsection \<open>fork and rebuild\<close>

definition rebuild ::
  "host_env \<Rightarrow> rebuild_result \<Rightarrow> fd \<Rightarrow> host \<Rightarrow> (host_error + unit) \<times> host" where
  "rebuild env rb listener h =
     (case rb_profiler rb of Some e \<Rightarrow> (Inl (RebuildFailed e), h) | None \<Rightarrow>
      case rb_pdeathsig rb of Some e \<Rightarrow> (Inl (RebuildFailed e), h) | None \<Rightarrow>
      case h_shared_memory h of
        None \<Rightarrow> (Inl (RebuildFailed ''the frozen host has no shared-memory snapshot''), h)
      | Some _ \<Rightarrow>
      case rb_reshare rb of Some e \<Rightarrow> (Inl (RebuildFailed e), h) | None \<Rightarrow>
      (let h1 = h\<lparr>h_tokio_exit := False\<rparr> in
      case rb_tokio rb of Some e \<Rightarrow> (Inl (RebuildFailed e), h1) | None \<Rightarrow>
      (let h2 = h1\<lparr>h_generation := Suc (h_generation h1)\<rparr> in
      case he_local_addr env listener of
        Inl e \<Rightarrow> (Inl (Networking (NoAddress e)), h2)
      | Inr addr \<Rightarrow>
      case replace_listener (rb_replace rb) \<lparr>ls_fd = listener, ls_addr = addr\<rparr> (h_networking h2) of
        Inl e \<Rightarrow> (Inl (Networking e), h2)
      | Inr n \<Rightarrow>
      (let h3 = set_host_title (Serving addr) (h2\<lparr>h_networking := n\<rparr>) in
      case rb_selector rb of Some e \<Rightarrow> (Inl (RebuildFailed e), h3) | None \<Rightarrow>
      case rb_resurrect rb of Some e \<Rightarrow> (Inl (RebuildFailed e), h3) | None \<Rightarrow>
      (Inr (), h3)))))"

datatype forked =
    Parent nat sockaddr
  | ForkedChild fd "host_error + unit"

definition fork_host ::
  "host_env \<Rightarrow> observation \<Rightarrow> fd \<Rightarrow> fd \<Rightarrow> host \<Rightarrow> (host_error + forked) \<times> host" where
  "fork_host env ob child_control listener h =
     (case he_local_addr env listener of
        Inl e \<Rightarrow> (Inl (Networking (NoAddress e)), h)
      | Inr addr \<Rightarrow>
          (case ob_fork ob of
             ForkErr e \<Rightarrow> (Inl (ForkFailed e), h)
           | ForkChild pid rb \<Rightarrow>
               (case rebuild env rb listener (h\<lparr>h_pid := pid\<rparr>) of
                  (rebuilt, h') \<Rightarrow> (Inr (ForkedChild child_control rebuilt), h'))
           | ForkParent pid \<Rightarrow> (Inr (Parent pid addr), h)))"

subsection \<open>Lemmas\<close>

lemma dismantle_Inr:
  "dismantle threads polls i = Inr u \<longleftrightarrow> (\<exists>j \<ge> i. threads j = 1 \<and> (j \<le> polls \<or> j = i))"
proof (induction threads polls i rule: dismantle.induct)
  case (1 threads polls i)
  show ?case
  proof (cases "threads i = 1 \<or> polls \<le> i")
    case True
    then show ?thesis by (subst dismantle.simps) (auto dest: le_antisym)
  next
    case False
    then have "dismantle threads polls i = dismantle threads polls (Suc i)"
      by (subst dismantle.simps) simp
    also have "(\<dots> = Inr u) = (\<exists>j \<ge> Suc i. threads j = 1 \<and> (j \<le> polls \<or> j = Suc i))"
      using 1 False by simp
    also have "\<dots> = (\<exists>j \<ge> i. threads j = 1 \<and> (j \<le> polls \<or> j = i))"
      using False by (metis Suc_leD Suc_leI le_neq_implies_less linorder_not_le)
    finally show ?thesis .
  qed
qed

lemma freeze_guest_frame:
  assumes "freeze_guest ob h = (r, h')"
  shows "h_phase h' = h_phase h" "h_sent h' = h_sent h" "h_read h' = h_read h"
    "h_runs h' = h_runs h" "h_networking h' = h_networking h" "h_manifest h' = h_manifest h"
    "h_compaction h' = h_compaction h" "h_recipe h' = h_recipe h" "h_guest h' = h_guest h"
    "h_pid h' = h_pid h" "h_sends_left h' = h_sends_left h"
  using assms
  by (auto simp: freeze_guest_def Let_def split: if_splits sum.splits prod.splits)

lemma freeze_guest_ok:
  assumes "freeze_guest ob h = (Inr coroutines, h')"
  shows "ob_in_flight ob = 0" "ob_drain ob = Inr coroutines"
    "dismantle (ob_threads ob) (ob_dismantle_polls ob) 0 = Inr ()"
    "shut_down_sockets (ob_shutdown ob) (h_networking h) = (drop (length (h_shutdowns h)) (h_shutdowns h'), Inr ())"
    "h_shared_memory h' \<noteq> None"
  using assms
  by (auto simp: freeze_guest_def Let_def split: if_splits sum.splits prod.splits)

lemma rebuild_frame:
  assumes "rebuild env rb listener h = (r, h')"
  shows "h_phase h' = h_phase h" "h_sent h' = h_sent h" "h_read h' = h_read h"
    "h_runs h' = h_runs h" "h_manifest h' = h_manifest h" "h_compaction h' = h_compaction h"
    "h_recipe h' = h_recipe h" "h_guest h' = h_guest h" "h_pid h' = h_pid h"
    "h_shared_memory h' = h_shared_memory h" "h_sends_left h' = h_sends_left h"
  using assms
  by (auto simp: rebuild_def Let_def set_host_title_def split: option.splits sum.splits)

lemma rebuild_ok:
  assumes "rebuild env rb listener h = (Inr u, h')"
  obtains addr where "he_local_addr env listener = Inr addr"
    "endpoint (h_networking h') = Inr addr"
    "nw_connections (h_networking h') = nw_connections (h_networking h)"
    "h_generation h' = Suc (h_generation h)" "\<not> h_tokio_exit h'"
proof -
  from assms show thesis
    by (intro that [of "projr (he_local_addr env listener)"])
      (auto simp: rebuild_def Let_def set_host_title_def replace_listener_Inr endpoint_def
        split: option.splits sum.splits)
qed

end
