(* ===== verification/Smaps.thy ===== *)
theory Smaps
  imports Sockets
begin

text \<open>
  What the host reads about itself under \<open>/proc\<close> and \<open>/sys\<close>
  (\<open>src/crates/servicecache/src/host/freeze.rs\<close>): the thread count, the page sizes and the
  mappings with their huge pages. A file is its list of lines, or nothing when it cannot be
  read.
\<close>

subsection \<open>Text\<close>

definition is_whitespace :: "char \<Rightarrow> bool" where
  "is_whitespace c = (let n = of_char c :: nat in (9 \<le> n \<and> n \<le> 13) \<or> n = 32)"

definition text_after :: "string \<Rightarrow> string \<Rightarrow> string option" where
  "text_after p s = (if prefix p s then Some (drop (length p) s) else None)"

fun split_once :: "char \<Rightarrow> string \<Rightarrow> (string \<times> string) option" where
  "split_once sep [] = None"
| "split_once sep (c # cs) =
     (if c = sep then Some ([], cs) else map_option (\<lambda>(a, b). (c # a, b)) (split_once sep cs))"

definition first_word :: "string \<Rightarrow> string option" where
  "first_word s =
     (case takeWhile (\<lambda>c. \<not> is_whitespace c) (dropWhile is_whitespace s) of [] \<Rightarrow> None | w \<Rightarrow> Some w)"

definition trim :: "string \<Rightarrow> string" where
  "trim s = rev (dropWhile is_whitespace (rev (dropWhile is_whitespace s)))"

text \<open>\<open>usize::from_str_radix\<close>, and with radix 10 \<open>str::parse\<close>: one plus sign is allowed.\<close>

definition usize_limit :: nat where
  "usize_limit = 2 ^ 64"

fun radix_digits :: "nat \<Rightarrow> nat \<Rightarrow> string \<Rightarrow> nat option" where
  "radix_digits radix acc [] = Some acc"
| "radix_digits radix acc (c # cs) =
     (case to_digit16 c of
        None \<Rightarrow> None
      | Some d \<Rightarrow>
          if d < radix \<and> acc * radix + d < usize_limit then radix_digits radix (acc * radix + d) cs else None)"

definition parse_radix :: "nat \<Rightarrow> string \<Rightarrow> nat option" where
  "parse_radix radix s =
     (case s of
        [] \<Rightarrow> None
      | [c] \<Rightarrow> radix_digits radix 0 s
      | c # cs \<Rightarrow> if c = CHR ''+'' then radix_digits radix 0 cs else radix_digits radix 0 s)"

subsection \<open>Counts and sizes\<close>

fun find_after :: "string \<Rightarrow> string list \<Rightarrow> string option" where
  "find_after p [] = None"
| "find_after p (l # ls) = (case text_after p l of None \<Rightarrow> find_after p ls | Some rest \<Rightarrow> Some rest)"

definition thread_count :: "string list option \<Rightarrow> nat" where
  "thread_count status =
     (case status of
        None \<Rightarrow> 0
      | Some ls \<Rightarrow>
          (case find_after ''Threads:'' ls of
             None \<Rightarrow> 0
           | Some v \<Rightarrow> (case parse_radix 10 (trim v) of None \<Rightarrow> 0 | Some n \<Rightarrow> n)))"

definition page_size :: "int \<Rightarrow> nat" where
  "page_size answer = (if 0 \<le> answer then nat answer else 4096)"

definition huge_page_size :: "string option \<Rightarrow> nat" where
  "huge_page_size contents =
     (case contents of
        None \<Rightarrow> 2 * 2 ^ 20
      | Some t \<Rightarrow> (case parse_radix 10 (trim t) of None \<Rightarrow> 2 * 2 ^ 20 | Some n \<Rightarrow> n))"

subsection \<open>Mappings\<close>

definition mapping_header :: "string \<Rightarrow> (nat \<times> nat) option" where
  "mapping_header line =
     (case split_once (CHR '' '') line of
        None \<Rightarrow> None
      | Some (bounds, _) \<Rightarrow>
          (case split_once (CHR ''-'') bounds of
             None \<Rightarrow> None
           | Some (s, e) \<Rightarrow>
               (case (parse_radix 16 s, parse_radix 16 e) of
                  (Some start, Some stop) \<Rightarrow> Some (start, stop)
                | _ \<Rightarrow> None)))"

fun huge_page_lines ::
  "string list \<Rightarrow> (nat \<times> nat) option \<Rightarrow> (nat \<times> nat \<times> bool) list \<Rightarrow> (nat \<times> nat \<times> bool) list option" where
  "huge_page_lines [] current mappings = Some mappings"
| "huge_page_lines (line # lines) current mappings =
     (case text_after ''AnonHugePages:'' line of
        Some rest \<Rightarrow>
          (case current of
             None \<Rightarrow> huge_page_lines lines None mappings
           | Some (start, stop) \<Rightarrow>
               (case first_word rest of
                  None \<Rightarrow> None
                | Some w \<Rightarrow>
                    (case parse_radix 10 w of
                       None \<Rightarrow> None
                     | Some kb \<Rightarrow> huge_page_lines lines None (mappings @ [(start, stop, 0 < kb)]))))
      | None \<Rightarrow>
          (case mapping_header line of
             Some bounds \<Rightarrow> huge_page_lines lines (Some bounds) mappings
           | None \<Rightarrow> huge_page_lines lines current mappings))"

definition mapping_huge_pages :: "string list option \<Rightarrow> (nat \<times> nat \<times> bool) list option" where
  "mapping_huge_pages smaps = (case smaps of None \<Rightarrow> None | Some lines \<Rightarrow> huge_page_lines lines None [])"

subsection \<open>How the kernel writes them\<close>

fun show_hex :: "nat \<Rightarrow> string" where
  "show_hex n = (if n < 16 then [hex_digit n] else show_hex (n div 16) @ [hex_digit (n mod 16)])"

declare show_hex.simps [simp del]

text \<open>A mapping: its range, the rest of its header, the lines around the count, and the count.\<close>

record mapping =
  mp_start :: nat
  mp_stop :: nat
  mp_rest :: string
  mp_before :: "string list"
  mp_kb :: nat
  mp_after :: "string list"

definition smaps_lines :: "mapping \<Rightarrow> string list" where
  "smaps_lines m =
     [show_hex (mp_start m) @ ''-'' @ show_hex (mp_stop m) @ '' '' @ mp_rest m]
     @ mp_before m @ [''AnonHugePages:  '' @ show_nat (mp_kb m) @ '' kB''] @ mp_after m"

definition plain_line :: "string \<Rightarrow> bool" where
  "plain_line line = (text_after ''AnonHugePages:'' line = None \<and> mapping_header line = None)"

definition mapping_wf :: "mapping \<Rightarrow> bool" where
  "mapping_wf m =
     (mp_start m < usize_limit \<and> mp_stop m < usize_limit \<and> mp_kb m < usize_limit
      \<and> list_all plain_line (mp_before m) \<and> list_all plain_line (mp_after m))"

subsection \<open>Lemmas\<close>

lemma radix_digits_append:
  "radix_digits radix acc (s @ [c]) =
     (case radix_digits radix acc s of None \<Rightarrow> None | Some n \<Rightarrow> radix_digits radix n [c])"
  by (induction s arbitrary: acc) (auto split: option.splits)

lemma radix_digits_show_hex: "n < usize_limit \<Longrightarrow> radix_digits 16 0 (show_hex n) = Some n"
proof (induction n rule: show_hex.induct)
  case (1 n)
  show ?case
  proof (cases "n < 16")
    case True
    with 1(2) show ?thesis by (simp add: show_hex.simps [of n])
  next
    case False
    with 1 have "radix_digits 16 0 (show_hex (n div 16)) = Some (n div 16)" by simp
    with False 1(2) show ?thesis by (simp add: show_hex.simps [of n] radix_digits_append)
  qed
qed

lemma digit_value_16: "digit_value c = Some d \<Longrightarrow> to_digit16 c = Some d \<and> d < 10"
  by (auto simp: digit_value_def to_digit16_def Let_def split: if_splits)

lemma radix_digits_show_nat: "n < usize_limit \<Longrightarrow> radix_digits 10 0 (show_nat n) = Some n"
proof (induction n rule: show_nat.induct)
  case (1 n)
  have digit: "to_digit16 (char_of (48 + k)) = Some k" if "k < (10 :: nat)" for k
    using that digit_value_16 [of "char_of (48 + k)" k] by simp
  show ?case
  proof (cases "n < 10")
    case True
    with 1(2) digit show ?thesis by (simp add: show_nat.simps [of n])
  next
    case False
    with 1 have "radix_digits 10 0 (show_nat (n div 10)) = Some (n div 10)" by simp
    with False 1(2) digit [of "n mod 10"] show ?thesis by (simp add: show_nat.simps [of n] radix_digits_append)
  qed
qed

definition hex_char :: "char \<Rightarrow> bool" where
  "hex_char c = (c \<notin> {CHR ''-'', CHR '' '', CHR ''+'', CHR ''A''})"

lemma hex_digit_code: "n < 16 \<Longrightarrow> (of_char (hex_digit n) :: nat) = (if n < 10 then 48 + n else 87 + n)"
  by (simp add: hex_digit_def)

lemma hex_digit_chars: "n < 16 \<Longrightarrow> hex_char (hex_digit n)"
  using hex_digit_code [of n] by (auto simp: hex_char_def split: if_splits)

lemma show_hex_chars: "c \<in> set (show_hex n) \<Longrightarrow> hex_char c"
proof (induction n rule: show_hex.induct)
  case (1 n)
  then show ?case using hex_digit_chars [of n] hex_digit_chars [of "n mod 16"]
    by (cases "n < 16") (auto simp: show_hex.simps [of n])
qed

lemma show_hex_not_Nil [simp]: "show_hex n \<noteq> []"
  by (subst show_hex.simps) simp

lemma parse_radix_plain:
  "s \<noteq> [] \<Longrightarrow> CHR ''+'' \<notin> set s \<Longrightarrow> parse_radix radix s = radix_digits radix 0 s"
  by (auto simp: parse_radix_def split: list.splits)

lemma parse_show_hex [simp]: "n < usize_limit \<Longrightarrow> parse_radix 16 (show_hex n) = Some n"
  using show_hex_chars [of "CHR ''+''" n] radix_digits_show_hex [of n]
  by (subst parse_radix_plain) (auto simp: hex_char_def)

lemma parse_radix_show_nat [simp]: "n < usize_limit \<Longrightarrow> parse_radix 10 (show_nat n) = Some n"
  using digits_no_sep [of "CHR ''+''" n] radix_digits_show_nat [of n]
  by (subst parse_radix_plain) (auto simp: is_digit_def digit_value_def)

lemma split_once_append: "sep \<notin> set a \<Longrightarrow> split_once sep (a @ sep # b) = Some (a, b)"
  by (induction a) auto

lemma mapping_header_shown:
  assumes "s < usize_limit" "e < usize_limit"
  shows "mapping_header (show_hex s @ ''-'' @ show_hex e @ '' '' @ rest) = Some (s, e)"
proof -
  have "CHR '' '' \<notin> set (show_hex s @ ''-'' @ show_hex e)" "CHR ''-'' \<notin> set (show_hex s)"
    using show_hex_chars by (auto simp: hex_char_def)
  then have "split_once (CHR '' '') ((show_hex s @ ''-'' @ show_hex e) @ CHR '' '' # rest)
      = Some (show_hex s @ ''-'' @ show_hex e, rest)"
    "split_once (CHR ''-'') (show_hex s @ CHR ''-'' # show_hex e) = Some (show_hex s, show_hex e)"
    using split_once_append by blast+
  with assms show ?thesis by (simp add: mapping_header_def)
qed

lemma header_not_count: "text_after ''AnonHugePages:'' (show_hex s @ ''-'' @ rest) = None"
  using show_hex_chars [of "hd (show_hex s)" s] by (cases "show_hex s") (auto simp: text_after_def hex_char_def)

lemma first_word_count: "first_word (''  '' @ show_nat n @ '' kB'') = Some (show_nat n)"
proof -
  have digit: "\<not> is_whitespace c" if "c \<in> set (show_nat n)" for c
    using show_nat_digits [OF that] by (auto simp: is_whitespace_def is_digit_def digit_value_def Let_def split: if_splits)
  have "dropWhile is_whitespace (show_nat n @ '' kB'') = show_nat n @ '' kB''"
    using digit by (cases "show_nat n") auto
  moreover have "takeWhile (\<lambda>c. \<not> is_whitespace c) (show_nat n @ '' kB'') = show_nat n"
    using digit by (subst takeWhile_append2) (auto simp: is_whitespace_def)
  ultimately show ?thesis
    by (auto simp: first_word_def is_whitespace_def split: list.splits)
qed

lemma plain_lines_skipped:
  "list_all plain_line ls \<Longrightarrow> huge_page_lines (ls @ rest) current mappings = huge_page_lines rest current mappings"
  by (induction ls) (simp_all add: plain_line_def)

subsection \<open>Properties\<close>

text \<open>
  Whatever else \<open>/proc/self/smaps\<close> says, each mapping it lists is read back with its
  range and with whether it holds huge pages, in order.
\<close>

theorem smaps_roundtrip:
  assumes "list_all mapping_wf ms"
  shows "mapping_huge_pages (Some (concat (map smaps_lines ms)))
    = Some (map (\<lambda>m. (mp_start m, mp_stop m, 0 < mp_kb m)) ms)"
proof -
  have one: "huge_page_lines (smaps_lines m @ rest) current maps
      = huge_page_lines rest None (maps @ [(mp_start m, mp_stop m, 0 < mp_kb m)])" if "mapping_wf m" for m rest current maps
  proof -
    define h where "h = show_hex (mp_start m) @ ''-'' @ show_hex (mp_stop m) @ '' '' @ mp_rest m"
    define k where "k = ''AnonHugePages:  '' @ show_nat (mp_kb m) @ '' kB''"
    have "text_after ''AnonHugePages:'' k = Some (''  '' @ show_nat (mp_kb m) @ '' kB'')"
      by (simp add: text_after_def k_def)
    moreover have "text_after ''AnonHugePages:'' h = None" unfolding h_def by (rule header_not_count)
    moreover have "mapping_header h = Some (mp_start m, mp_stop m)"
      using that unfolding h_def by (intro mapping_header_shown) (auto simp: mapping_wf_def)
    moreover have "smaps_lines m @ rest = h # mp_before m @ k # mp_after m @ rest"
      by (simp add: smaps_lines_def h_def k_def)
    moreover have "first_word (''  '' @ show_nat (mp_kb m) @ '' kB'') = Some (show_nat (mp_kb m))"
      by (rule first_word_count)
    ultimately show ?thesis using that by (simp add: mapping_wf_def plain_lines_skipped)
  qed
  have "huge_page_lines (concat (map smaps_lines ms)) None maps
      = Some (maps @ map (\<lambda>m. (mp_start m, mp_stop m, 0 < mp_kb m)) ms)" for maps
    using assms by (induction ms arbitrary: maps) (simp_all add: one)
  then show ?thesis by (simp add: mapping_huge_pages_def)
qed

theorem smaps_roundtrip_witness:
  "mapping_huge_pages (Some
     (smaps_lines \<lparr>mp_start = 4096, mp_stop = 8192, mp_rest = ''rw-p'', mp_before = [''Rss: 4 kB''], mp_kb = 0, mp_after = []\<rparr>
      @ smaps_lines \<lparr>mp_start = 8192, mp_stop = 12288, mp_rest = ''rw-p'', mp_before = [], mp_kb = 2048, mp_after = []\<rparr>))
   = Some [(4096, 8192, False), (8192, 12288, True)]"
  using smaps_roundtrip
    [of "[\<lparr>mp_start = 4096, mp_stop = 8192, mp_rest = ''rw-p'', mp_before = [''Rss: 4 kB''], mp_kb = 0, mp_after = []\<rparr>,
          \<lparr>mp_start = 8192, mp_stop = 12288, mp_rest = ''rw-p'', mp_before = [], mp_kb = 2048, mp_after = []\<rparr>]"]
  by (simp add: mapping_wf_def plain_line_def usize_limit_def text_after_def mapping_header_def)

end
