(* ===== verification/Threads.thy ===== *)
theory Threads
  imports Freeze Smaps
begin

text \<open>
  The threads of a host and their end in a freeze (\<open>src/crates/servicecache/src/host/freeze.rs\<close>):
  the runtime a host builds, the hook by which its worker ends itself, the names of the threads
  for the error, and the wait for the last of them against the clock.
\<close>

definition DRAIN_TIMEOUT :: duration where
  "DRAIN_TIMEOUT = 10 * SECOND"

definition DISMANTLE_TIMEOUT :: duration where
  "DISMANTLE_TIMEOUT = 5 * SECOND"

definition DISMANTLE_POLL :: duration where
  "DISMANTLE_POLL = 50 * (SECOND div 1000000)"

text \<open>A thread that parks goes on to park, or ends.\<close>

datatype park = Parks | EndsThread

definition tokio_park_hook :: "bool \<Rightarrow> park" where
  "tokio_park_hook tokio_exit = (if tokio_exit then EndsThread else Parks)"

record tokio_config =
  tc_worker_threads :: nat
  tc_max_blocking_threads :: nat
  tc_thread_name :: string
  tc_on_park :: "bool \<Rightarrow> park"

definition build_tokio :: "(tokio_config \<Rightarrow> string + 'r) \<Rightarrow> string + 'r" where
  "build_tokio build =
     build \<lparr>tc_worker_threads = 1, tc_max_blocking_threads = 1, tc_thread_name = ''tokio'', tc_on_park = tokio_park_hook\<rparr>"

text \<open>The entries of \<open>/proc/self/task\<close>, each with what reading its \<open>comm\<close> gives.\<close>

definition thread_names :: "io_error + (io_error + (io_error + string)) list \<Rightarrow> string list" where
  "thread_names tasks =
     (case tasks of
        Inl _ \<Rightarrow> []
      | Inr entries \<Rightarrow>
          map (\<lambda>comm. case comm of Inl _ \<Rightarrow> ''?'' | Inr name \<Rightarrow> trim name)
            (List.map_filter (\<lambda>entry. case entry of Inl _ \<Rightarrow> None | Inr comm \<Rightarrow> Some comm) entries))"

subsection \<open>The wait\<close>

text \<open>
  The loop of \<open>freeze\<close> by the clock: the \<open>i\<close>-th reading of the thread count is \<open>threads i\<close> and
  took \<open>cost i\<close>, and between two readings the thread sleeps. \<open>waited\<close> is the time since the
  deadline was set.
\<close>

function dismantle_clock :: "(nat \<Rightarrow> nat) \<Rightarrow> (nat \<Rightarrow> nat) \<Rightarrow> duration \<Rightarrow> nat \<Rightarrow> (host_error + unit) \<times> duration" where
  "dismantle_clock threads cost waited i =
     (let now = waited + int (cost i) in
      if threads i = 1 then (Inr (), now)
      else if DISMANTLE_TIMEOUT \<le> now then (Inl (ThreadsRemain (threads i)), now)
      else dismantle_clock threads cost (now + DISMANTLE_POLL) (Suc i))"
  by pat_completeness auto
termination
  by (relation "measure (\<lambda>(_, _, waited, _). nat (DISMANTLE_TIMEOUT - waited))")
    (auto simp: DISMANTLE_POLL_def DISMANTLE_TIMEOUT_def SECOND_def)

declare dismantle_clock.simps [simp del]

lemma one_reading_less:
  fixes t :: int
  assumes "0 < t" "t \<le> t'" "0 < p"
  shows "Suc (nat ((t - p + p - 1) div p)) \<le> nat ((t' + p - 1) div p)"
proof -
  have "(t' + p - 1) div p = ((t' - 1) + p) div p" by (simp add: algebra_simps)
  also have "\<dots> = (t' - 1) div p + 1" using assms(3) by (simp add: div_add_self2)
  finally have "(t' + p - 1) div p = (t' - 1) div p + 1" .
  moreover have "(t - 1) div p \<le> (t' - 1) div p" using assms by (intro zdiv_mono1) auto
  moreover have "0 \<le> (t - 1) div p" using assms by (simp add: pos_imp_zdiv_nonneg_iff)
  ultimately show ?thesis by simp
qed

text \<open>
  The wait is the one of \<open>dismantle\<close> for some number of readings, at most a hundred thousand
  and one, and it ends within the timeout, one sleep and one reading.
\<close>

lemma dismantle_clock_polls:
  assumes "0 \<le> waited"
  shows "\<exists>polls \<le> i + nat ((DISMANTLE_TIMEOUT - waited + DISMANTLE_POLL - 1) div DISMANTLE_POLL).
    fst (dismantle_clock threads cost waited i) = dismantle threads polls i"
  using assms
proof (induction threads cost waited i rule: dismantle_clock.induct)
  case (1 threads cost waited i)
  let ?now = "waited + int (cost i)"
  let ?left = "\<lambda>t. nat ((DISMANTLE_TIMEOUT - t + DISMANTLE_POLL - 1) div DISMANTLE_POLL)"
  show ?case
  proof (cases "threads i = 1 \<or> DISMANTLE_TIMEOUT \<le> ?now")
    case True
    then have "fst (dismantle_clock threads cost waited i) = dismantle threads i i"
      by (subst dismantle_clock.simps, subst dismantle.simps) (auto simp: Let_def)
    then show ?thesis by (intro exI [of _ i]) simp
  next
    case False
    let ?next = "?now + DISMANTLE_POLL"
    have poll: "DISMANTLE_POLL = 50000" by (simp add: DISMANTLE_POLL_def SECOND_def)
    have "fst (dismantle_clock threads cost waited i) = fst (dismantle_clock threads cost ?next (Suc i))"
      using False by (subst dismantle_clock.simps) (auto simp: Let_def)
    moreover obtain polls where polls: "polls \<le> Suc i + ?left ?next"
      "fst (dismantle_clock threads cost ?next (Suc i)) = dismantle threads polls (Suc i)"
      using 1 False poll by auto
    have "dismantle threads (max polls (Suc i)) i = dismantle threads polls (Suc i)"
      using False dismantle.simps [of threads "max polls (Suc i)" i] dismantle.simps [of threads polls "Suc i"]
        dismantle.simps [of threads "max polls (Suc i)" "Suc i"]
      by (cases "polls \<le> Suc i") (auto simp: max_def)
    moreover have "Suc (?left ?next) \<le> ?left waited"
      using one_reading_less [of "DISMANTLE_TIMEOUT - ?now" "DISMANTLE_TIMEOUT - waited" DISMANTLE_POLL] False poll
      by (simp add: algebra_simps)
    ultimately show ?thesis
      using polls by (intro exI [of _ "max polls (Suc i)"]) auto
  qed
qed

lemma dismantle_clock_ends:
  assumes "0 \<le> waited" "waited < DISMANTLE_TIMEOUT + DISMANTLE_POLL" "\<And>j. int (cost j) \<le> reading"
  shows "snd (dismantle_clock threads cost waited i) < DISMANTLE_TIMEOUT + DISMANTLE_POLL + reading + 1"
  using assms
proof (induction threads cost waited i rule: dismantle_clock.induct)
  case (1 threads cost waited i)
  have "0 < DISMANTLE_POLL" by (simp add: DISMANTLE_POLL_def SECOND_def)
  then show ?case
    using 1(1) [OF refl _ _ _ _ 1(4)] 1(2,3) 1(4) [of i]
    by (subst dismantle_clock.simps) (auto simp: Let_def)
qed

subsection \<open>Properties\<close>



end
