(* ===== verification/Stores.thy ===== *)
theory Stores
  imports Prelude "HOL-Library.AList"
begin

text \<open>
  The standard-library maps the sources keep their state in. A \<open>HashMap\<close> is an association
  list with distinct keys (\<open>hm_\<close>), a \<open>BTreeMap\<close> one in strictly increasing key order
  (\<open>bt_\<close>). What both promise is the interface \<open>map_store\<close>; what iteration adds is
  \<open>iterable_store\<close>. The clients' facts are proved once inside the interfaces and reach the
  components through the interpretations at the end.
\<close>

subsection \<open>HashMap\<close>

type_synonym ('k, 'v) hash_map = "('k \<times> 'v) list"

definition hm_wf :: "('k, 'v) hash_map \<Rightarrow> bool" where
  "hm_wf m = distinct (map fst m)"

definition hm_insert :: "'k \<Rightarrow> 'v \<Rightarrow> ('k, 'v) hash_map \<Rightarrow> ('k, 'v) hash_map" where
  "hm_insert k v m = AList.update k v m"

definition hm_remove :: "'k \<Rightarrow> ('k, 'v) hash_map \<Rightarrow> ('k, 'v) hash_map" where
  "hm_remove k m = filter (\<lambda>(k', _). k' \<noteq> k) m"

text \<open>\<open>HashMap::retain\<close> and \<open>extract_if\<close> keep the entries the predicate keeps.\<close>

definition hm_retain :: "('k \<Rightarrow> 'v \<Rightarrow> bool) \<Rightarrow> ('k, 'v) hash_map \<Rightarrow> ('k, 'v) hash_map" where
  "hm_retain keep m = filter (\<lambda>(k, v). keep k v) m"

subsection \<open>BTreeMap\<close>

type_synonym ('k, 'v) btree_map = "('k \<times> 'v) list"

definition bt_wf :: "('k :: linorder, 'v) btree_map \<Rightarrow> bool" where
  "bt_wf m = sorted_wrt (<) (map fst m)"

fun bt_insert :: "'k :: linorder \<Rightarrow> 'v \<Rightarrow> ('k, 'v) btree_map \<Rightarrow> ('k, 'v) btree_map" where
  "bt_insert k v [] = [(k, v)]"
| "bt_insert k v ((k', v') # m) =
     (if k < k' then (k, v) # (k', v') # m
      else if k = k' then (k, v) # m
      else (k', v') # bt_insert k v m)"

definition bt_remove :: "'k :: linorder \<Rightarrow> ('k, 'v) btree_map \<Rightarrow> ('k, 'v) btree_map" where
  "bt_remove k m = filter (\<lambda>(k', _). k' \<noteq> k) m"

subsection \<open>The entry interface\<close>

text \<open>
  \<open>entry(key)\<close> with its \<open>Vacant\<close> and \<open>Occupied\<close> arms, over the map operations, and what a
  series of such updates leaves at one key.
\<close>

definition entry_update ::
  "('m \<Rightarrow> 'k \<Rightarrow> 'v option) \<Rightarrow> ('k \<Rightarrow> 'v \<Rightarrow> 'm \<Rightarrow> 'm) \<Rightarrow> 'k \<Rightarrow> 'v \<Rightarrow> ('v \<Rightarrow> 'v) \<Rightarrow> 'm \<Rightarrow> 'm" where
  "entry_update lookup update k vacant occupied m =
     (case lookup m k of None \<Rightarrow> update k vacant m | Some v \<Rightarrow> update k (occupied v) m)"

definition entry_value :: "'v \<Rightarrow> ('v \<Rightarrow> 'v) \<Rightarrow> 'v option \<Rightarrow> 'v option" where
  "entry_value vacant occupied x = (case x of None \<Rightarrow> Some vacant | Some v \<Rightarrow> Some (occupied v))"

subsection \<open>The interfaces\<close>

locale map_store =
  fixes wf :: "'m \<Rightarrow> bool"
    and empty :: 'm
    and lookup :: "'m \<Rightarrow> 'k \<Rightarrow> 'v option"
    and insert_at :: "'k \<Rightarrow> 'v \<Rightarrow> 'm \<Rightarrow> 'm"
    and remove :: "'k \<Rightarrow> 'm \<Rightarrow> 'm"
  assumes wf_empty: "wf empty"
    and wf_insert: "wf m \<Longrightarrow> wf (insert_at k v m)"
    and wf_remove: "wf m \<Longrightarrow> wf (remove k m)"
    and lookup_empty: "lookup empty k = None"
    and lookup_insert: "wf m \<Longrightarrow> lookup (insert_at k v m) = (lookup m)(k \<mapsto> v)"
    and lookup_remove: "wf m \<Longrightarrow> lookup (remove k m) = (lookup m)(k := None)"
begin

lemma wf_entry_update: "wf m \<Longrightarrow> wf (entry_update lookup insert_at k a f m)"
  by (simp add: entry_update_def wf_insert split: option.splits)

lemma lookup_entry_update:
  "wf m \<Longrightarrow> lookup (entry_update lookup insert_at k a f m)
     = (lookup m)(k := entry_value a f (lookup m k))"
  by (simp add: entry_update_def entry_value_def lookup_insert split: option.splits)

lemma wf_fold_entries:
  "wf m \<Longrightarrow> wf (fold (\<lambda>x. entry_update lookup insert_at (key x) (new x) (old x)) xs m)"
  by (induction xs arbitrary: m) (simp_all add: wf_entry_update)

lemma lookup_fold_entries:
  "wf m \<Longrightarrow>
     lookup (fold (\<lambda>x. entry_update lookup insert_at (key x) (new x) (old x)) xs m) k
     = fold (\<lambda>x. entry_value (new x) (old x)) (filter (\<lambda>x. key x = k) xs) (lookup m k)"
  by (induction xs arbitrary: m) (simp_all add: wf_entry_update lookup_entry_update)

lemma insert_remove_same: "wf m \<Longrightarrow> lookup (remove k (insert_at k v m)) k = None"
  by (simp add: wf_insert lookup_remove)

lemma insert_other: "wf m \<Longrightarrow> k \<noteq> k' \<Longrightarrow> lookup (insert_at k v m) k' = lookup m k'"
  by (simp add: lookup_insert)

end

locale iterable_store = map_store wf empty lookup insert_at remove
  for wf :: "'m \<Rightarrow> bool" and empty and lookup :: "'m \<Rightarrow> 'k \<Rightarrow> 'v option" and insert_at and remove +
  fixes entries :: "'m \<Rightarrow> ('k \<times> 'v) list"
  assumes entries_distinct: "wf m \<Longrightarrow> distinct (map fst (entries m))"
    and entries_lookup: "wf m \<Longrightarrow> (k, v) \<in> set (entries m) \<longleftrightarrow> lookup m k = Some v"
begin

lemma entries_insert:
  assumes "wf m"
  shows "set (entries (insert_at k v m)) = {(k, v)} \<union> {(k', v') \<in> set (entries m). k' \<noteq> k}"
  using assms by (auto simp: entries_lookup wf_insert lookup_insert split: if_splits)

lemma entries_remove:
  assumes "wf m"
  shows "set (entries (remove k m)) = {(k', v') \<in> set (entries m). k' \<noteq> k}"
  using assms by (auto simp: entries_lookup wf_remove lookup_remove split: if_splits)

lemma empty_iff_no_key: "wf m \<Longrightarrow> entries m = [] \<longleftrightarrow> (\<forall>k. lookup m k = None)"
proof
  assume "wf m" and none: "\<forall>k. lookup m k = None"
  then have "\<And>x. x \<notin> set (entries m)"
    using entries_lookup [OF \<open>wf m\<close>] by (metis option.distinct(1) surj_pair)
  then show "entries m = []" by (cases "entries m") auto
next
  assume "wf m" "entries m = []"
  show "\<forall>k. lookup m k = None"
  proof
    fix k
    show "lookup m k = None"
      using entries_lookup [OF \<open>wf m\<close>, of k] \<open>entries m = []\<close> by (cases "lookup m k") auto
  qed
qed

end

subsection \<open>Laws of the two maps\<close>

lemma map_of_filter_key: "map_of (filter (\<lambda>(k', _). k' \<noteq> k) m) = (map_of m)(k := None)"
  by (induction m) auto

lemma hm_wf_insert: "hm_wf m \<Longrightarrow> hm_wf (hm_insert k v m)"
  by (simp add: hm_wf_def hm_insert_def distinct_update)

lemma hm_wf_filter: "hm_wf m \<Longrightarrow> hm_wf (filter P m)"
  unfolding hm_wf_def by (rule distinct_map_filter)

lemma map_of_retain:
  "hm_wf m \<Longrightarrow> map_of (hm_retain keep m) k
     = (case map_of m k of None \<Rightarrow> None | Some v \<Rightarrow> if keep k v then Some v else None)"
  unfolding hm_retain_def hm_wf_def
proof (induction m)
  case (Cons x m)
  then show ?case
    by (cases x) (auto split: option.splits if_splits simp: map_of_eq_None_iff dest: map_of_SomeD)
qed simp

lemma set_bt_insert: "set (map fst (bt_insert k v m)) = insert k (set (map fst m))"
  by (induction k v m rule: bt_insert.induct) auto

lemma bt_wf_insert: "bt_wf m \<Longrightarrow> bt_wf (bt_insert k v m)"
  unfolding bt_wf_def
proof (induction k v m rule: bt_insert.induct)
  case (2 k v k' v' m)
  then show ?case using set_bt_insert [of k v m] by auto
qed simp

lemma map_of_bt_insert: "bt_wf m \<Longrightarrow> map_of (bt_insert k v m) = (map_of m)(k \<mapsto> v)"
  unfolding bt_wf_def by (induction k v m rule: bt_insert.induct) (auto simp: fun_upd_twist)

lemma bt_wf_distinct: "bt_wf m \<Longrightarrow> distinct (map fst m)"
  unfolding bt_wf_def by (simp add: strict_sorted_iff)

lemma bt_wf_filter: "bt_wf m \<Longrightarrow> bt_wf (filter P m)"
  unfolding bt_wf_def by (induction m) auto

subsection \<open>Interpretations\<close>

interpretation hash: iterable_store "hm_wf :: ('k, 'v) hash_map \<Rightarrow> bool" "[]" map_of hm_insert hm_remove "\<lambda>m. m"
proof unfold_locales
  fix m :: "('k, 'v) hash_map" and k :: 'k and v :: 'v
  show "hm_wf []" and "map_of [] k = None" by (simp_all add: hm_wf_def)
  show "hm_wf m \<Longrightarrow> hm_wf (hm_insert k v m)" by (rule hm_wf_insert)
  show "hm_wf m \<Longrightarrow> hm_wf (hm_remove k m)" by (simp add: hm_remove_def hm_wf_filter)
  show "map_of (hm_insert k v m) = (map_of m)(k \<mapsto> v)"
    by (simp add: hm_insert_def update_conv')
  show "map_of (hm_remove k m) = (map_of m)(k := None)"
    by (simp add: hm_remove_def map_of_filter_key)
  show "hm_wf m \<Longrightarrow> distinct (map fst m)" by (simp add: hm_wf_def)
  show "hm_wf m \<Longrightarrow> (k, v) \<in> set m \<longleftrightarrow> map_of m k = Some v"
    by (auto simp: hm_wf_def dest: map_of_SomeD)
qed

interpretation btree: iterable_store "bt_wf :: ('k :: linorder, 'v) btree_map \<Rightarrow> bool" "[]" map_of bt_insert bt_remove "\<lambda>m. m"
proof unfold_locales
  fix m :: "('k :: linorder, 'v) btree_map" and k :: 'k and v :: 'v
  show "bt_wf []" and "map_of [] k = None" by (simp_all add: bt_wf_def)
  show "bt_wf m \<Longrightarrow> bt_wf (bt_insert k v m)" by (rule bt_wf_insert)
  show "bt_wf m \<Longrightarrow> bt_wf (bt_remove k m)" by (simp add: bt_remove_def bt_wf_filter)
  show "bt_wf m \<Longrightarrow> map_of (bt_insert k v m) = (map_of m)(k \<mapsto> v)"
    by (rule map_of_bt_insert)
  show "map_of (bt_remove k m) = (map_of m)(k := None)"
    by (simp add: bt_remove_def map_of_filter_key)
  show "bt_wf m \<Longrightarrow> distinct (map fst m)" by (rule bt_wf_distinct)
  show "bt_wf m \<Longrightarrow> (k, v) \<in> set m \<longleftrightarrow> map_of m k = Some v"
    by (auto dest: map_of_SomeD bt_wf_distinct)
qed

end
