(* ===== verification/Discovery.thy ===== *)
theory Discovery
  imports Manifest Stores "HOL-Library.Product_Lexorder" "HOL-Library.Multiset"
begin

text \<open>
  Discovery and selection of service packages
  (\<open>src/crates/servicecache/src/discovery.rs\<close>). The index is the \<open>BTreeMap\<close> from name and
  version to the selected package and the packages it shadows. Directory listings are an
  argument, as the other answers of the file system are.
\<close>

subsection \<open>Data\<close>

record shadowed_package =
  sp_directory :: path
  sp_manifest :: manifest

record discovered_package =
  dp_manifest :: manifest
  dp_shadowed :: "shadowed_package list"

datatype select_error = SelectNotFound | Ambiguous "string list"

type_synonym service_index = "(string \<times> string, discovered_package) btree_map"

datatype file_type = FtDir | FtSymlink | FtOther

record dir_entry =
  de_name :: string
  de_type :: "io_error + file_type"

type_synonym read_dir = "path \<Rightarrow> io_error + (io_error + dir_entry) list"

datatype discover_error =
    ServicesUnreadable path io_error
  | EntryUnreadable path io_error
  | EntryUninspected path io_error
  | PackageNoParent
  | PackageUnresolved path io_error
  | BadManifest manifest_error

subsection \<open>Discovery\<close>

fun manifest_entries ::
  "fs_view \<Rightarrow> path \<Rightarrow> (io_error + dir_entry) list \<Rightarrow> discover_error + path list" where
  "manifest_entries fs dir [] = Inr []"
| "manifest_entries fs dir (Inl e # entries) = Inl (EntryUnreadable dir e)"
| "manifest_entries fs dir (Inr entry # entries) =
     (let at = join_path dir [Normal (de_name entry)] in
      case de_type entry of
        Inl e \<Rightarrow> Inl (EntryUninspected at e)
      | Inr file_type \<Rightarrow>
          and_then (manifest_entries fs dir entries) (\<lambda>manifests.
            if file_type = FtDir \<or> file_type = FtSymlink \<and> fs_is_dir fs at
            then let manifest = join_path at [Normal ''service.toml''] in
                 Inr (if fs_is_file fs manifest then manifest # manifests else manifests)
            else Inr manifests))"

definition manifests_in :: "read_dir \<Rightarrow> fs_view \<Rightarrow> path \<Rightarrow> discover_error + path list" where
  "manifests_in read_dir fs search_dir =
     (case read_dir search_dir of
        Inl NotFound \<Rightarrow> Inr []
      | Inl e \<Rightarrow> Inl (ServicesUnreadable search_dir e)
      | Inr entries \<Rightarrow> manifest_entries fs search_dir entries)"

definition package_key :: "manifest \<Rightarrow> string \<times> string" where
  "package_key m = (sv_name (mf_service m), sv_version (mf_service m))"

definition shadow :: "manifest \<Rightarrow> shadowed_package" where
  "shadow m = \<lparr>sp_directory = mf_directory m, sp_manifest = m\<rparr>"

definition add_package :: "manifest \<Rightarrow> service_index \<Rightarrow> service_index" where
  "add_package m =
     entry_update map_of bt_insert (package_key m)
       \<lparr>dp_manifest = m, dp_shadowed = []\<rparr>
       (\<lambda>p. p\<lparr>dp_shadowed := dp_shadowed p @ [shadow m]\<rparr>)"

definition load_package ::
  "(string \<Rightarrow> raw_manifest option) \<Rightarrow> (string \<Rightarrow> (byte list \<Rightarrow> bool) option) \<Rightarrow> fs_view \<Rightarrow> path
     \<Rightarrow> discover_error + manifest" where
  "load_package toml regex_new fs manifest_path =
     (case parent manifest_path of
        None \<Rightarrow> Inl PackageNoParent
      | Some d \<Rightarrow>
          (case fs_canonicalize fs d of
             Inl e \<Rightarrow> Inl (PackageUnresolved manifest_path e)
           | Inr directory \<Rightarrow>
               (case load toml regex_new fs (join_path directory [Normal ''service.toml'']) of
                  Inl e \<Rightarrow> Inl (BadManifest e)
                | Inr manifest \<Rightarrow> Inr manifest)))"

definition insert_package ::
  "(string \<Rightarrow> raw_manifest option) \<Rightarrow> (string \<Rightarrow> (byte list \<Rightarrow> bool) option) \<Rightarrow> fs_view \<Rightarrow> path
     \<Rightarrow> service_index \<Rightarrow> discover_error + service_index" where
  "insert_package toml regex_new fs manifest_path index =
     and_then (load_package toml regex_new fs manifest_path)
       (\<lambda>manifest. Inr (add_package manifest index))"

fun insert_packages ::
  "(string \<Rightarrow> raw_manifest option) \<Rightarrow> (string \<Rightarrow> (byte list \<Rightarrow> bool) option) \<Rightarrow> fs_view \<Rightarrow> path list
     \<Rightarrow> service_index \<Rightarrow> discover_error + service_index" where
  "insert_packages toml regex_new fs [] index = Inr index"
| "insert_packages toml regex_new fs (p # ps) index =
     and_then (insert_package toml regex_new fs p index) (insert_packages toml regex_new fs ps)"

fun discover_from ::
  "read_dir \<Rightarrow> (string \<Rightarrow> raw_manifest option) \<Rightarrow> (string \<Rightarrow> (byte list \<Rightarrow> bool) option) \<Rightarrow> fs_view
     \<Rightarrow> path list \<Rightarrow> service_index \<Rightarrow> discover_error + service_index" where
  "discover_from read_dir toml regex_new fs [] index = Inr index"
| "discover_from read_dir toml regex_new fs (dir # dirs) index =
     and_then (manifests_in read_dir fs dir) (\<lambda>manifests.
     and_then (insert_packages toml regex_new fs (sort manifests) index)
       (discover_from read_dir toml regex_new fs dirs))"

definition discover ::
  "read_dir \<Rightarrow> (string \<Rightarrow> raw_manifest option) \<Rightarrow> (string \<Rightarrow> (byte list \<Rightarrow> bool) option) \<Rightarrow> fs_view
     \<Rightarrow> path list \<Rightarrow> discover_error + service_index" where
  "discover read_dir toml regex_new fs dirs = discover_from read_dir toml regex_new fs dirs []"

subsection \<open>Selection\<close>

definition iter_packages :: "service_index \<Rightarrow> discovered_package list" where
  "iter_packages index = map snd index"

definition candidates :: "service_index \<Rightarrow> string \<Rightarrow> string option \<Rightarrow> manifest list" where
  "candidates index name version =
     filter (\<lambda>m. version = None \<or> version = Some (sv_version (mf_service m)))
       (filter (\<lambda>m. sv_name (mf_service m) = name) (map dp_manifest (iter_packages index)))"

definition select :: "service_index \<Rightarrow> string \<Rightarrow> string option \<Rightarrow> select_error + manifest" where
  "select index name version =
     (case candidates index name version of
        [] \<Rightarrow> Inl SelectNotFound
      | [manifest] \<Rightarrow> Inr manifest
      | first # second # rest \<Rightarrow>
          Inl (Ambiguous ([sv_version (mf_service first), sv_version (mf_service second)]
                          @ map (\<lambda>m. sv_version (mf_service m)) rest)))"

definition all_packages :: "service_index \<Rightarrow> (manifest \<times> path) list" where
  "all_packages index =
     concat (map (\<lambda>p. (dp_manifest p, mf_directory (dp_manifest p))
                       # map (\<lambda>s. (sp_manifest s, sp_directory s)) (dp_shadowed p))
              (iter_packages index))"

subsection \<open>Reference: the packages in the order discovery meets them\<close>

fun load_packages ::
  "(string \<Rightarrow> raw_manifest option) \<Rightarrow> (string \<Rightarrow> (byte list \<Rightarrow> bool) option) \<Rightarrow> fs_view \<Rightarrow> path list
     \<Rightarrow> discover_error + manifest list" where
  "load_packages toml regex_new fs [] = Inr []"
| "load_packages toml regex_new fs (p # ps) =
     and_then (load_package toml regex_new fs p) (\<lambda>m.
     and_then (load_packages toml regex_new fs ps) (\<lambda>ms. Inr (m # ms)))"

fun packages_found ::
  "read_dir \<Rightarrow> (string \<Rightarrow> raw_manifest option) \<Rightarrow> (string \<Rightarrow> (byte list \<Rightarrow> bool) option) \<Rightarrow> fs_view
     \<Rightarrow> path list \<Rightarrow> discover_error + manifest list" where
  "packages_found read_dir toml regex_new fs [] = Inr []"
| "packages_found read_dir toml regex_new fs (dir # dirs) =
     and_then (manifests_in read_dir fs dir) (\<lambda>manifests.
     and_then (load_packages toml regex_new fs (sort manifests)) (\<lambda>ms.
     and_then (packages_found read_dir toml regex_new fs dirs) (\<lambda>ms'. Inr (ms @ ms'))))"

definition index_wf :: "service_index \<Rightarrow> bool" where
  "index_wf index = (bt_wf index \<and> (\<forall>(k, p) \<in> set index. package_key (dp_manifest p) = k))"

definition matching :: "service_index \<Rightarrow> string \<Rightarrow> string option \<Rightarrow> (string \<times> discovered_package) set" where
  "matching index name version =
     {(v, p). map_of index (name, v) = Some p \<and> (version = None \<or> version = Some v)}"

definition selected_for :: "manifest list \<Rightarrow> discovered_package option" where
  "selected_for ms =
     (case ms of [] \<Rightarrow> None
      | m # rest \<Rightarrow> Some \<lparr>dp_manifest = m, dp_shadowed = map shadow rest\<rparr>)"

text \<open>A search directory with a package directory, a link to one, and a stray file.\<close>

definition demo_listing :: read_dir where
  "demo_listing dir =
     (if dir = demo_directory
      then Inr [Inr \<lparr>de_name = ''redis'', de_type = Inr FtDir\<rparr>,
                Inr \<lparr>de_name = ''data'', de_type = Inr FtSymlink\<rparr>,
                Inr \<lparr>de_name = ''notes'', de_type = Inr FtOther\<rparr>]
      else Inl NotFound)"

subsection \<open>Lemmas\<close>

lemma insert_packages_Inr:
  "insert_packages toml regex_new fs ps index = Inr index' \<longleftrightarrow>
     (\<exists>ms. load_packages toml regex_new fs ps = Inr ms \<and> index' = fold add_package ms index)"
  by (induction ps arbitrary: index) (auto simp: insert_package_def result_simps)

lemma discover_from_Inr:
  "discover_from read_dir toml regex_new fs dirs index = Inr index' \<longleftrightarrow>
     (\<exists>ms. packages_found read_dir toml regex_new fs dirs = Inr ms \<and> index' = fold add_package ms index)"
  by (induction dirs arbitrary: index) (auto simp: result_simps insert_packages_Inr)

lemma add_package_wf: "bt_wf index \<Longrightarrow> bt_wf (add_package m index)"
  by (simp add: add_package_def btree.wf_entry_update)

lemma lookup_add_packages:
  assumes "bt_wf index"
  shows "map_of (fold add_package ms index) k =
    fold (\<lambda>m. entry_value \<lparr>dp_manifest = m, dp_shadowed = []\<rparr>
                 (\<lambda>p. p\<lparr>dp_shadowed := dp_shadowed p @ [shadow m]\<rparr>))
      (filter (\<lambda>m. package_key m = k) ms) (map_of index k)"
  unfolding add_package_def by (rule btree.lookup_fold_entries [OF assms])

lemma fold_shadow:
  "fold (\<lambda>m. entry_value \<lparr>dp_manifest = m, dp_shadowed = []\<rparr>
                 (\<lambda>p. p\<lparr>dp_shadowed := dp_shadowed p @ [shadow m]\<rparr>)) ms
     (Some \<lparr>dp_manifest = m0, dp_shadowed = sh\<rparr>)
   = Some \<lparr>dp_manifest = m0, dp_shadowed = sh @ map shadow ms\<rparr>"
  by (induction ms arbitrary: sh) (simp_all add: entry_value_def)

lemma lookup_discovered:
  "map_of (fold add_package ms []) k = selected_for (filter (\<lambda>m. package_key m = k) ms)"
proof (cases "filter (\<lambda>m. package_key m = k) ms")
  case (Cons m rest)
  then show ?thesis
    using lookup_add_packages [OF btree.wf_empty, of ms k]
    by (simp add: selected_for_def entry_value_def [of _ _ None] fold_shadow)
qed (use lookup_add_packages [OF btree.wf_empty, of ms k] in \<open>simp add: selected_for_def\<close>)

lemma discovered_wf: "bt_wf (fold add_package ms [])"
  unfolding add_package_def by (rule btree.wf_fold_entries [OF btree.wf_empty])

lemma discovered_index_wf: "index_wf (fold add_package ms [])"
proof -
  have "package_key (dp_manifest p) = k" if "(k, p) \<in> set (fold add_package ms [])" for k p
  proof -
    from that have "selected_for (filter (\<lambda>m. package_key m = k) ms) = Some p"
      using btree.entries_lookup [OF discovered_wf, of k p ms] lookup_discovered by metis
    then show ?thesis
      by (auto simp: selected_for_def filter_eq_Cons_iff split: list.splits)
  qed
  then show ?thesis by (auto simp: index_wf_def discovered_wf)
qed


lemma index_wf_discover:
  "discover read_dir toml regex_new fs dirs = Inr index \<Longrightarrow> index_wf index"
  by (auto simp: discover_def discover_from_Inr discovered_index_wf)

lemma index_keys:
  assumes "index_wf index"
  shows "map (\<lambda>p. package_key (dp_manifest p)) (iter_packages index) = map fst index"
  using assms by (auto simp: index_wf_def iter_packages_def)

lemma sorted_versions:
  fixes ks :: "('a :: linorder \<times> 'b :: linorder) list"
  assumes "sorted_wrt (<) ks"
  shows "sorted_wrt (<) (map snd (filter (\<lambda>k. fst k = a) ks))"
  using assms by (induction ks) (auto simp: less_prod_def)

lemma candidates_all_versions:
  assumes "index_wf index"
  shows "map (\<lambda>m. sv_version (mf_service m)) (candidates index name None)
    = map snd (filter (\<lambda>k. fst k = name) (map fst index))"
proof -
  have "map (\<lambda>m. sv_version (mf_service m)) (candidates index name None)
    = map snd (filter (\<lambda>k. fst k = name) (map (\<lambda>p. package_key (dp_manifest p)) (iter_packages index)))"
    by (simp add: candidates_def filter_map o_def package_key_def)
  then show ?thesis using index_keys [OF assms] by simp
qed

lemma candidates_versions_sorted:
  assumes "index_wf index"
  shows "sorted_wrt (<) (map (\<lambda>m. sv_version (mf_service m)) (candidates index name version))"
proof -
  have "candidates index name version
    = filter (\<lambda>m. version = None \<or> version = Some (sv_version (mf_service m))) (candidates index name None)"
    by (simp add: candidates_def)
  moreover have "sorted_wrt (<) (map (\<lambda>m. sv_version (mf_service m)) (candidates index name None))"
    unfolding candidates_all_versions [OF assms]
    using assms by (intro sorted_versions) (simp add: index_wf_def bt_wf_def)
  ultimately show ?thesis by (simp add: sorted_wrt_map sorted_wrt_filter)
qed

lemma set_candidates:
  "m \<in> set (candidates index name version) \<longleftrightarrow>
     m \<in> dp_manifest ` set (iter_packages index) \<and> sv_name (mf_service m) = name
     \<and> (version = None \<or> version = Some (sv_version (mf_service m)))"
  by (auto simp: candidates_def)

lemma candidates_entries:
  assumes "index_wf index"
  shows "candidates index name version
    = map (\<lambda>(k, p). dp_manifest p)
        (filter (\<lambda>(k, p). fst k = name \<and> (version = None \<or> version = Some (snd k))) index)"
proof -
  have "candidates index name version = map dp_manifest (map snd (filter (\<lambda>(k, p).
      fst (package_key (dp_manifest p)) = name
      \<and> (version = None \<or> version = Some (snd (package_key (dp_manifest p))))) index))"
    by (simp add: candidates_def iter_packages_def filter_map o_def package_key_def split_def conj_commute)
  also have "\<dots> = map dp_manifest (map snd (filter (\<lambda>(k, p). fst k = name
      \<and> (version = None \<or> version = Some (snd k))) index))"
    using assms by (intro arg_cong [where f = "\<lambda>xs. map dp_manifest (map snd xs)"] filter_cong)
      (auto simp: index_wf_def)
  finally show ?thesis by (simp add: split_def)
qed

lemma matching_entries:
  assumes "index_wf index"
  shows "matching index name version = (\<lambda>(k, p). (snd k, p)) `
    set (filter (\<lambda>(k, p). fst k = name \<and> (version = None \<or> version = Some (snd k))) index)"
proof -
  have "bt_wf index" using assms by (simp add: index_wf_def)
  then show ?thesis
    by (force simp: matching_def btree.entries_lookup [OF \<open>bt_wf index\<close>, symmetric])
qed

lemma candidates_matching:
  assumes "index_wf index"
  shows "candidates index name version = [m] \<Longrightarrow>
      \<exists>v p. matching index name version = {(v, p)} \<and> m = dp_manifest p"
    and "candidates index name version = [] \<Longrightarrow> matching index name version = {}"
  unfolding candidates_entries [OF assms] matching_entries [OF assms]
  by (auto simp del: set_filter)

lemma candidates_versioned:
  assumes "index_wf index"
  shows "length (candidates index name (Some v)) \<le> 1"
proof -
  let ?vs = "map (\<lambda>m. sv_version (mf_service m)) (candidates index name (Some v))"
  have "set ?vs \<subseteq> {v}" by (auto simp: candidates_def)
  then have "card (set ?vs) \<le> 1" using card_mono [of "{v}"] by fastforce
  moreover have "distinct ?vs"
    using candidates_versions_sorted [OF assms] by (simp add: strict_sorted_iff)
  ultimately show ?thesis using distinct_card [of ?vs] by simp
qed

lemma select_cases:
  obtains "candidates index name version = []" "select index name version = Inl SelectNotFound"
  | m where "candidates index name version = [m]" "select index name version = Inr m"
  | "2 \<le> length (candidates index name version)"
    "select index name version
       = Inl (Ambiguous (map (\<lambda>m. sv_version (mf_service m)) (candidates index name version)))"
  by (cases "candidates index name version" rule: remdups_adj.cases)
    (auto simp: select_def)

lemma mset_shadows:
  "mset (map fst (all_packages (bt_insert k p index)))
     = mset (dp_manifest p # map sp_manifest (dp_shadowed p))
       + mset (map fst (all_packages (bt_remove k index)))"
  if "bt_wf index"
  using that
proof (induction k p index rule: bt_insert.induct)
  case (2 k p k' p' index)
  have wf: "bt_wf index" and above: "\<forall>(j, _) \<in> set index. k' < j"
    using 2(2) by (auto simp: bt_wf_def)
  have absent: "bt_remove k index = index" if "k \<le> k'"
    using above that by (auto simp: bt_remove_def intro!: filter_True)
  have "bt_remove k ((k', p') # index) = (if k = k' then index else (k', p') # bt_remove k index)"
    using absent by (auto simp: bt_remove_def)
  with 2 wf absent show ?case
    by (auto simp: all_packages_def iter_packages_def o_def image_mset.compositionality split: if_splits)
qed (simp add: all_packages_def iter_packages_def o_def image_mset.compositionality bt_remove_def)

lemma bt_remove_absent: "map_of index k = None \<Longrightarrow> bt_remove k index = index"
  by (induction index) (auto simp: bt_remove_def split: if_splits)

lemma bt_insert_same: "bt_wf index \<Longrightarrow> map_of index k = Some p \<Longrightarrow> bt_insert k p index = index"
  by (induction k p index rule: bt_insert.induct)
    (force simp: bt_wf_def split: if_splits dest: map_of_SomeD)+

lemma mset_add_package:
  assumes "bt_wf index"
  shows "mset (map fst (all_packages (add_package m index))) = add_mset m (mset (map fst (all_packages index)))"
proof (cases "map_of index (package_key m)")
  case None
  then show ?thesis
    using mset_shadows [OF assms, of "package_key m" "\<lparr>dp_manifest = m, dp_shadowed = []\<rparr>"]
    by (simp add: add_package_def entry_update_def bt_remove_absent)
next
  case (Some p)
  then show ?thesis
    using mset_shadows [OF assms, of "package_key m" "p\<lparr>dp_shadowed := dp_shadowed p @ [shadow m]\<rparr>"]
      mset_shadows [OF assms, of "package_key m" p] bt_insert_same [OF assms Some]
    by (simp add: add_package_def entry_update_def shadow_def)
qed

lemma mset_add_packages:
  "bt_wf index \<Longrightarrow> mset (map fst (all_packages (fold add_package ms index)))
     = mset ms + mset (map fst (all_packages index))"
  by (induction ms arbitrary: index)
    (simp_all add: mset_add_package [unfolded mset_map] add_package_wf)


lemma demo_packages:
  obtains ps m m' where "manifests_in demo_listing demo_fs demo_directory = Inr ps"
    "load_packages (\<lambda>_. Some demo_raw) (\<lambda>_. Some (\<lambda>_. True)) demo_fs (sort ps) = Inr [m, m']"
    "package_key m = (''redis'', ''7'')" "package_key m' = (''redis'', ''7'')"
    "manifests_in demo_listing demo_fs [Normal ''empty''] = Inr []"
proof -
  have "case packages_found demo_listing (\<lambda>_. Some demo_raw) (\<lambda>_. Some (\<lambda>_. True)) demo_fs [demo_directory] of
      Inr [m, m'] \<Rightarrow> package_key m = (''redis'', ''7'') \<and> package_key m' = (''redis'', ''7'') | _ \<Rightarrow> False"
    by code_simp
  then show thesis
    using that by (auto simp: result_simps manifests_in_def demo_listing_def demo_directory_def
        split: sum.splits list.splits)
qed

subsection \<open>Properties\<close>

text \<open>
  Discovery selects, for each name and version, the first package in the order of the
  search directories and, within one, of the manifest paths; the later packages with the same
  name and version are its shadows, in that order, and a name and version no package has is
  absent.\<close>

theorem discover_first_wins:
  assumes "discover read_dir toml regex_new fs dirs = Inr index"
  shows "\<exists>ms. packages_found read_dir toml regex_new fs dirs = Inr ms
    \<and> (\<forall>key. map_of index key =
         (case filter (\<lambda>m. package_key m = key) ms of
            [] \<Rightarrow> None
          | m # rest \<Rightarrow> Some \<lparr>dp_manifest = m, dp_shadowed = map shadow rest\<rparr>))"
  using assms lookup_discovered
  by (auto simp: discover_def discover_from_Inr selected_for_def)

theorem discover_first_wins_witness:
  "\<exists>index. discover demo_listing (\<lambda>_. Some demo_raw) (\<lambda>_. Some (\<lambda>_. True)) demo_fs
       [demo_directory, [Normal ''empty'']] = Inr index
     \<and> (\<exists>ms. packages_found demo_listing (\<lambda>_. Some demo_raw) (\<lambda>_. Some (\<lambda>_. True)) demo_fs
             [demo_directory, [Normal ''empty'']] = Inr ms
          \<and> map_of index (''redis'', ''7'') =
              (case filter (\<lambda>m. package_key m = (''redis'', ''7'')) ms of
                 [] \<Rightarrow> None
               | m # rest \<Rightarrow> Some \<lparr>dp_manifest = m, dp_shadowed = map shadow rest\<rparr>))"
proof -
  have "is_ok (discover demo_listing (\<lambda>_. Some demo_raw) (\<lambda>_. Some (\<lambda>_. True)) demo_fs
       [demo_directory, [Normal ''empty'']])"
    by (rule demo_packages) (simp add: discover_def discover_from_Inr is_ok_iff del: discover_from.simps)
  then obtain index where index: "discover demo_listing (\<lambda>_. Some demo_raw) (\<lambda>_. Some (\<lambda>_. True)) demo_fs
       [demo_directory, [Normal ''empty'']] = Inr index"
    by (auto simp: is_ok_iff)
  show ?thesis using index discover_first_wins [OF index] by blast
qed

text \<open>
  Selection by name and optional version, on an index discovery built. A manifest comes
  back exactly when it is the only selected package with that name (and version); nothing is
  found exactly when there is none; the name is ambiguous only without a version, and then
  the error lists every installed version of the name, at least two, in increasing order.\<close>

theorem select_exact:
  assumes "discover read_dir toml regex_new fs dirs = Inr index"
  shows "case select index name version of
      Inr m \<Rightarrow> \<exists>v p. matching index name version = {(v, p)} \<and> m = dp_manifest p
    | Inl SelectNotFound \<Rightarrow> matching index name version = {}
    | Inl (Ambiguous versions) \<Rightarrow>
        version = None \<and> 2 \<le> length versions \<and> sorted_wrt (<) versions
        \<and> set versions = {v. \<exists>p. map_of index (name, v) = Some p}"
proof -
  have wf: "index_wf index" using assms by (rule index_wf_discover)
  then have bt: "bt_wf index" by (simp add: index_wf_def)
  have versions: "set (map (\<lambda>m. sv_version (mf_service m)) (candidates index name None))
      = {v. \<exists>p. map_of index (name, v) = Some p}"
    unfolding candidates_all_versions [OF wf] using btree.entries_lookup [OF bt]
    by force
  show ?thesis
  proof (cases rule: select_cases [of index name version])
    case 1
    then show ?thesis using candidates_matching(2) [OF wf] by simp
  next
    case (2 m)
    then show ?thesis using candidates_matching(1) [OF wf] by simp
  next
    case 3
    then have "version = None" using candidates_versioned [OF wf, of name] by (cases version) (simp, fastforce dest: le_trans)
    with 3 show ?thesis
      using candidates_versions_sorted [OF wf, of name version] versions by simp
  qed
qed

theorem select_exact_witness:
  "\<exists>index m. discover demo_listing (\<lambda>_. Some demo_raw) (\<lambda>_. Some (\<lambda>_. True)) demo_fs
       [demo_directory] = Inr index
     \<and> select index ''redis'' None = Inr m
     \<and> (\<exists>v p. matching index ''redis'' None = {(v, p)} \<and> m = dp_manifest p)"
proof -
  have "case discover demo_listing (\<lambda>_. Some demo_raw) (\<lambda>_. Some (\<lambda>_. True)) demo_fs [demo_directory]
        of Inl _ \<Rightarrow> False | Inr index \<Rightarrow> is_ok (select index ''redis'' None)"
  proof (rule demo_packages)
    fix ps m m'
    assume "manifests_in demo_listing demo_fs demo_directory = Inr ps"
      "load_packages (\<lambda>_. Some demo_raw) (\<lambda>_. Some (\<lambda>_. True)) demo_fs (sort ps) = Inr [m, m']"
      and keys: "package_key m = (''redis'', ''7'')" "package_key m' = (''redis'', ''7'')"
    then have "discover demo_listing (\<lambda>_. Some demo_raw) (\<lambda>_. Some (\<lambda>_. True)) demo_fs [demo_directory]
        = Inr (fold add_package [m, m'] [])"
      by (simp add: discover_def discover_from_Inr del: discover_from.simps)
    with keys show ?thesis
      by (simp add: select_def candidates_def iter_packages_def add_package_def entry_update_def
          package_key_def)
  qed
  then obtain index m where index: "discover demo_listing (\<lambda>_. Some demo_raw) (\<lambda>_. Some (\<lambda>_. True)) demo_fs
       [demo_directory] = Inr index" and m: "select index ''redis'' None = Inr m"
    by (auto simp: is_ok_iff split: sum.splits)
  show ?thesis using index m select_exact [OF index, of "''redis''" None] by auto
qed

text \<open>
  Discovery loses nothing: the selected and the shadowed packages of the index are, with
  multiplicity, the packages found under the search directories.\<close>

theorem discover_keeps_every_package:
  assumes "discover read_dir toml regex_new fs dirs = Inr index"
  shows "\<exists>ms. packages_found read_dir toml regex_new fs dirs = Inr ms
    \<and> mset (map fst (all_packages index)) = mset ms"
  using assms mset_add_packages [OF btree.wf_empty]
  by (auto simp: discover_def discover_from_Inr all_packages_def [of "[]"] iter_packages_def [of "[]"])

theorem discover_keeps_every_package_witness:
  "\<exists>index ms. discover demo_listing (\<lambda>_. Some demo_raw) (\<lambda>_. Some (\<lambda>_. True)) demo_fs
       [demo_directory, demo_directory] = Inr index
     \<and> packages_found demo_listing (\<lambda>_. Some demo_raw) (\<lambda>_. Some (\<lambda>_. True)) demo_fs
       [demo_directory, demo_directory] = Inr ms
     \<and> mset (map fst (all_packages index)) = mset ms"
proof -
  have "is_ok (discover demo_listing (\<lambda>_. Some demo_raw) (\<lambda>_. Some (\<lambda>_. True)) demo_fs
       [demo_directory, demo_directory])"
    by (rule demo_packages) (simp add: discover_def discover_from_Inr is_ok_iff del: discover_from.simps)
  then obtain index where index: "discover demo_listing (\<lambda>_. Some demo_raw) (\<lambda>_. Some (\<lambda>_. True)) demo_fs
       [demo_directory, demo_directory] = Inr index"
    by (auto simp: is_ok_iff)
  show ?thesis using index discover_keeps_every_package [OF index] by blast
qed

end
