(* ===== verification/Api.thy ===== *)
theory Api
  imports Sockets
begin

text \<open>
  The bodies of the HTTP API (\<open>src/crates/servicecache/src/serve/api.rs\<close>): requests,
  instances, endpoints, and the problem replies with their stable types. The base64 codec is
  third-party code and an argument.
\<close>

subsection \<open>Requests and replies\<close>

record create_instance_body =
  ci_service :: string
  ci_version :: "string option"
  ci_recipe :: "string option"
  ci_recipe_files :: "string list"
  ci_ttl_seconds :: "nat option"

record renew_instance_body =
  ri_ttl_seconds :: "nat option"

record api_endpoint =
  ae_host :: string
  ae_port :: port

definition endpoint_from :: "sockaddr \<Rightarrow> api_endpoint" where
  "endpoint_from a = \<lparr>ae_host = show_ip (sa_ip a), ae_port = sa_port a\<rparr>"

definition socket_addr :: "api_endpoint \<Rightarrow> sockaddr option" where
  "socket_addr e =
     (case parse_ip (ae_host e) of
        None \<Rightarrow> None
      | Some ip \<Rightarrow> Some \<lparr>sa_ip = ip, sa_port = ae_port e\<rparr>)"

datatype instance_state = InstanceRunning | InstanceExited

record api_instance =
  ai_id :: string
  ai_service :: string
  ai_version :: string
  ai_endpoint :: api_endpoint
  ai_state :: instance_state
  ai_exit_status :: "int option"
  ai_expires_in_seconds :: nat

record service_entry =
  se_name :: string
  se_version :: string

subsection \<open>Problems\<close>

record problem =
  pb_kind :: string
  pb_title :: string
  pb_status :: nat
  pb_detail :: "string option"

definition URN :: string where
  "URN = ''urn:servicecache:''"

definition new_problem :: "nat \<Rightarrow> string \<Rightarrow> string \<Rightarrow> problem" where
  "new_problem status slug title =
     \<lparr>pb_kind = URN @ slug, pb_title = title, pb_status = status, pb_detail = None\<rparr>"

definition with_detail :: "problem \<Rightarrow> string \<Rightarrow> problem" where
  "with_detail p detail = p\<lparr>pb_detail := Some detail\<rparr>"

definition is_problem :: "problem \<Rightarrow> string \<Rightarrow> bool" where
  "is_problem p slug =
     (prefix URN (pb_kind p) \<and> drop (length URN) (pb_kind p) = slug)"

definition invalid_body :: "string \<Rightarrow> problem" where
  "invalid_body e = with_detail (new_problem 400 ''invalid-body'' ''The request body is not valid'') e"

definition invalid_ttl :: "nat \<Rightarrow> problem" where
  "invalid_ttl seconds =
     with_detail (new_problem 400 ''invalid-ttl'' ''The TTL is out of range'')
       (show_nat seconds @ '' seconds; the range is 1 to 86400'')"

definition recipe_files_refused :: "string \<Rightarrow> problem" where
  "recipe_files_refused detail =
     with_detail (new_problem 403 ''recipe-files-refused'' ''Recipe files are not accepted'') detail"

definition recipe_file_invalid :: "string \<Rightarrow> string \<Rightarrow> problem" where
  "recipe_file_invalid p detail =
     with_detail (new_problem 400 ''recipe-file-invalid'' ''A recipe file cannot be read'')
       (p @ '': '' @ detail)"

definition recipe_too_large :: "nat \<Rightarrow> problem" where
  "recipe_too_large limit =
     with_detail (new_problem 413 ''recipe-too-large'' ''The recipe is too large'')
       (''the recipe is limited to '' @ show_nat limit @ '' bytes'')"

definition unknown_service :: "string \<Rightarrow> string option \<Rightarrow> problem" where
  "unknown_service service version =
     (let spec = (case version of Some v \<Rightarrow> service @ ''@'' @ v | None \<Rightarrow> service) in
      with_detail (new_problem 404 ''unknown-service'' ''No installed service matches'')
        (''no installed service matches '' @ spec))"

definition ambiguous_version :: "string \<Rightarrow> string list \<Rightarrow> problem" where
  "ambiguous_version service versions =
     with_detail (new_problem 409 ''ambiguous-version'' ''The service is installed in several versions'')
       (service @ '' is installed in several versions ('' @ join_strings '', '' versions @ ''); name one'')"

definition no_initializer :: "string \<Rightarrow> problem" where
  "no_initializer service =
     with_detail (new_problem 400 ''no-initializer'' ''The service takes no recipe'')
       (service @ '' has no initializer to give the recipe to'')"

definition unknown_instance :: "string \<Rightarrow> problem" where
  "unknown_instance ident =
     with_detail (new_problem 404 ''unknown-instance'' ''No such instance'')
       (''no instance '' @ ident @ ''; it may have expired'')"

definition instance_exited :: "string \<Rightarrow> problem" where
  "instance_exited ident =
     with_detail (new_problem 409 ''instance-exited'' ''The instance's guest has exited'')
       (''instance '' @ ident @ '' cannot be renewed'')"

definition prepare_failed :: "int \<Rightarrow> problem" where
  "prepare_failed status =
     with_detail (new_problem 500 ''prepare-failed'' ''The prepare step failed'')
       (''the prepare step exited with status '' @ show_int status)"

definition initializer_failed :: "int \<Rightarrow> problem" where
  "initializer_failed status =
     with_detail (new_problem 500 ''initializer-failed'' ''The initializer failed'')
       (''the initializer exited with status '' @ show_int status)"

definition bring_up_failed :: "string \<Rightarrow> problem" where
  "bring_up_failed e =
     with_detail (new_problem 500 ''bring-up-failed'' ''The instance did not come up'') e"

definition internal :: "string \<Rightarrow> problem" where
  "internal detail = with_detail (new_problem 500 ''internal'' ''Internal error'') detail"

definition template_failed :: "string \<Rightarrow> problem" where
  "template_failed detail =
     with_detail (new_problem 500 ''template-failed'' ''The service's template failed'') detail"

definition unknown_route :: problem where
  "unknown_route = new_problem 404 ''unknown-route'' ''No such route''"

definition method_not_allowed :: problem where
  "method_not_allowed =
     new_problem 405 ''method-not-allowed'' ''The route does not answer this method''"

text \<open>\<open>Display for Problem\<close>.\<close>

definition show_problem :: "problem \<Rightarrow> string" where
  "show_problem p =
     pb_title p @ '' ('' @ pb_kind p @ '')''
     @ (case pb_detail p of None \<Rightarrow> [] | Some d \<Rightarrow> '': '' @ d)"

subsection \<open>Recipes\<close>

definition encode_recipe :: "(byte list \<Rightarrow> string) \<Rightarrow> byte list \<Rightarrow> string" where
  "encode_recipe base64 recipe = base64 recipe"

definition decode_recipe :: "(string \<Rightarrow> string + byte list) \<Rightarrow> string \<Rightarrow> problem + byte list" where
  "decode_recipe unbase64 recipe =
     (case unbase64 recipe of
        Inl e \<Rightarrow>
          Inl (with_detail (new_problem 400 ''invalid-recipe'' ''The recipe is not valid base64'') e)
      | Inr bytes \<Rightarrow> Inr bytes)"

subsection \<open>Lemmas\<close>

lemma is_problem_new [simp]: "is_problem (new_problem status slug title) slug' = (slug' = slug)"
  by (auto simp: is_problem_def new_problem_def)

lemma is_problem_with_detail [simp]: "is_problem (with_detail p d) slug = is_problem p slug"
  by (simp add: is_problem_def with_detail_def)

lemma pb_status_with_detail [simp]: "pb_status (with_detail p d) = pb_status p"
  by (simp add: with_detail_def)

lemma pb_status_new [simp]: "pb_status (new_problem status slug title) = status"
  by (simp add: new_problem_def)

lemmas problem_defs = invalid_body_def invalid_ttl_def recipe_files_refused_def
  recipe_file_invalid_def recipe_too_large_def unknown_service_def ambiguous_version_def
  no_initializer_def unknown_instance_def instance_exited_def prepare_failed_def
  initializer_failed_def bring_up_failed_def internal_def template_failed_def
  unknown_route_def method_not_allowed_def

lemma socket_addr_endpoint_from [simp]: "socket_addr (endpoint_from a) = Some a"
  by (simp add: socket_addr_def endpoint_from_def)

end
