(* ===== verification/Recipes.thy ===== *)
theory Recipes
  imports Api
begin

text \<open>
  Recipes read from files a request names (\<open>src/crates/servicecache/src/serve/recipes.rs\<close>):
  the roots and the bounded, confined concatenation. What opening a path gives, the opened
  file's real path and its content, is an argument; the content is what reading to the end
  would deliver, which may differ from the stated length.
\<close>

subsection \<open>Roots\<close>

type_synonym roots = "path list"

datatype roots_error = RootUnresolved path io_error | RootNotADirectory path

fun new_roots :: "fs_view \<Rightarrow> path list \<Rightarrow> roots_error + roots" where
  "new_roots fs [] = Inr []"
| "new_roots fs (dir # dirs) =
     (case fs_canonicalize fs dir of
        Inl e \<Rightarrow> Inl (RootUnresolved dir e)
      | Inr root \<Rightarrow>
          if \<not> fs_is_dir fs root then Inl (RootNotADirectory dir)
          else and_then (new_roots fs dirs) (\<lambda>roots. Inr (root # roots)))"

definition roots_contain :: "roots \<Rightarrow> path \<Rightarrow> bool" where
  "roots_contain roots p = list_ex (\<lambda>root. starts_with p root) roots"

subsection \<open>Reading\<close>

record opened_file =
  of_is_file :: bool
  of_len :: nat
  of_real :: "string + path"
  of_content :: "string + byte list"

type_synonym open_file = "string \<Rightarrow> string + opened_file"

definition newline :: byte where
  "newline = 10"

text \<open>One file, appended to the recipe so far.\<close>

definition read_one ::
  "roots \<Rightarrow> open_file \<Rightarrow> nat \<Rightarrow> string \<Rightarrow> byte list \<Rightarrow> problem + byte list" where
  "read_one roots open_file max_len p recipe =
     (if \<not> is_absolute (components p) then Inl (recipe_file_invalid p ''not an absolute path'')
      else case open_file p of
        Inl e \<Rightarrow> Inl (recipe_file_invalid p e)
      | Inr file \<Rightarrow>
          if \<not> of_is_file file then Inl (recipe_file_invalid p ''not a regular file'')
          else case of_real file of
            Inl e \<Rightarrow> Inl (recipe_file_invalid p e)
          | Inr real \<Rightarrow>
              if \<not> roots_contain roots real
              then Inl (recipe_files_refused (p @ '' is outside every --recipe-root''))
              else
                let recipe1 = (if recipe \<noteq> [] \<and> last recipe \<noteq> newline then recipe @ [newline] else recipe)
                in if max_len < length recipe1 then Inl (recipe_too_large max_len)
                   else let remaining = max_len - length recipe1 in
                     if remaining < of_len file then Inl (recipe_too_large max_len)
                     else case of_content file of
                       Inl e \<Rightarrow> Inl (recipe_file_invalid p e)
                     | Inr content \<Rightarrow>
                         let bytes = take (remaining + 1) content in
                         if remaining < length bytes then Inl (recipe_too_large max_len)
                         else Inr (recipe1 @ bytes))"

fun read_from ::
  "roots \<Rightarrow> open_file \<Rightarrow> nat \<Rightarrow> string list \<Rightarrow> byte list \<Rightarrow> problem + byte list" where
  "read_from roots open_file max_len [] recipe = Inr recipe"
| "read_from roots open_file max_len (p # ps) recipe =
     and_then (read_one roots open_file max_len p recipe) (read_from roots open_file max_len ps)"

definition read_recipe_files ::
  "roots \<Rightarrow> open_file \<Rightarrow> string list \<Rightarrow> nat \<Rightarrow> problem + byte list" where
  "read_recipe_files roots open_file paths max_len = read_from roots open_file max_len paths []"

subsection \<open>Reference: concatenation with the missing newlines\<close>

definition join_recipe :: "byte list \<Rightarrow> byte list \<Rightarrow> byte list" where
  "join_recipe recipe content =
     (if recipe \<noteq> [] \<and> last recipe \<noteq> newline then recipe @ [newline] else recipe) @ content"

definition readable_in ::
  "roots \<Rightarrow> open_file \<Rightarrow> string \<Rightarrow> byte list \<Rightarrow> bool" where
  "readable_in roots open_file p content =
     (is_absolute (components p)
      \<and> (\<exists>file real. open_file p = Inr file \<and> of_is_file file \<and> of_real file = Inr real
           \<and> (\<exists>root \<in> set roots. starts_with real root)
           \<and> of_content file = Inr content))"

text \<open>A root \<open>/r\<close> with two files, the first without a final newline.\<close>

definition demo_root :: path where
  "demo_root = [RootDir, Normal ''r'']"

definition demo_open :: open_file where
  "demo_open p = Inr \<lparr>of_is_file = True, of_len = 1, of_real = Inr (components p),
                      of_content = Inr (if p = ''/r/a'' then [65] else [66, 10])\<rparr>"

subsection \<open>Lemmas\<close>

lemma roots_contain_iff: "roots_contain roots p \<longleftrightarrow> (\<exists>root \<in> set roots. starts_with p root)"
  by (simp add: roots_contain_def list_ex_iff)

lemma read_one_Inr:
  assumes "read_one roots open_file max_len p recipe = Inr recipe'"
  obtains content where "readable_in roots open_file p content"
    "recipe' = join_recipe recipe content" "length recipe' \<le> max_len"
proof -
  from assms obtain f real content where
    opened: "is_absolute (components p)" "open_file p = Inr f" "of_is_file f" "of_real f = Inr real"
      "roots_contain roots real" "of_content f = Inr content"
    and len: "length (join_recipe recipe []) \<le> max_len"
    and fits: "length (take (max_len - length (join_recipe recipe []) + 1) content)
        \<le> max_len - length (join_recipe recipe [])"
    and r: "recipe' = join_recipe recipe [] @ take (max_len - length (join_recipe recipe []) + 1) content"
    by (auto simp: read_one_def join_recipe_def Let_def not_less split: if_splits sum.splits)
  from fits have whole: "length content \<le> max_len - length (join_recipe recipe [])" by simp
  have "recipe' = join_recipe recipe content"
    using r whole by (simp add: join_recipe_def)
  moreover have "length recipe' \<le> max_len"
    using r whole len by simp
  moreover have "readable_in roots open_file p content"
    using opened by (auto simp: readable_in_def roots_contain_iff)
  ultimately show thesis using that by blast
qed

lemma read_from_Inr:
  "read_from roots open_file max_len ps recipe = Inr recipe' \<Longrightarrow> length recipe \<le> max_len \<Longrightarrow>
     length recipe' \<le> max_len
     \<and> (\<exists>contents. list_all2 (readable_in roots open_file) ps contents
          \<and> recipe' = fold (\<lambda>c r. join_recipe r c) contents recipe)"
proof (induction ps arbitrary: recipe)
  case (Cons p ps)
  then obtain recipe1 where one: "read_one roots open_file max_len p recipe = Inr recipe1"
    and rest: "read_from roots open_file max_len ps recipe1 = Inr recipe'"
    by (auto simp: result_simps)
  from one obtain content where c: "readable_in roots open_file p content"
    "recipe1 = join_recipe recipe content" "length recipe1 \<le> max_len"
    by (rule read_one_Inr)
  from Cons.IH [OF rest c(3)] obtain contents where
    "length recipe' \<le> max_len" "list_all2 (readable_in roots open_file) ps contents"
    "recipe' = fold (\<lambda>c r. join_recipe r c) contents recipe1"
    by blast
  with c show ?case by (intro conjI exI [of _ "content # contents"]) auto
qed auto

lemma new_roots_Inr:
  "new_roots fs dirs = Inr roots \<Longrightarrow>
     list_all2 (\<lambda>dir root. fs_canonicalize fs dir = Inr root \<and> fs_is_dir fs root) dirs roots"
  by (induction dirs arbitrary: roots) (auto simp: result_simps split: sum.splits if_splits)

subsection \<open>Properties\<close>

text \<open>
  C37: A recipe read from files is the concatenation, in the order of the request, of files
  that are named by absolute paths, are regular files, and whose opened descriptor resolves
  under one of the recipe roots; between two files there is a newline exactly where the text
  so far lacks one; and the whole is never longer than the limit, whatever lengths the files
  state.\<close>

theorem recipe_files_confined:
  assumes "read_recipe_files roots open_file paths max_len = Inr recipe"
  shows "length recipe \<le> max_len
    \<and> (\<exists>contents. length contents = length paths
         \<and> recipe = fold (\<lambda>c r. join_recipe r c) contents []
         \<and> (\<forall>i < length paths. \<exists>file real root.
              is_absolute (components (paths ! i)) \<and> open_file (paths ! i) = Inr file
              \<and> of_is_file file \<and> of_real file = Inr real \<and> root \<in> set roots
              \<and> starts_with real root \<and> of_content file = Inr (contents ! i)))"
proof -
  from assms obtain contents where "length recipe \<le> max_len"
    "list_all2 (readable_in roots open_file) paths contents"
    "recipe = fold (\<lambda>c r. join_recipe r c) contents []"
    using read_from_Inr [of roots open_file max_len paths "[]" recipe]
    by (auto simp: read_recipe_files_def)
  then show ?thesis
    by (intro conjI exI [of _ contents])
      (auto simp: list_all2_conv_all_nth readable_in_def, blast)
qed

theorem recipe_files_confined_witness:
  "read_recipe_files [demo_root] demo_open [''/r/a'', ''/r/b''] 8 = Inr [65, 10, 66, 10]
   \<and> length [65, 10, 66, 10 :: byte] \<le> 8"
proof -
  have "read_recipe_files [demo_root] demo_open [''/r/a'', ''/r/b''] 8 = Inr [65, 10, 66, 10]"
    by code_simp
  with recipe_files_confined [OF this] show ?thesis by blast
qed

end
