(* ===== verification/Manager.thy ===== *)
theory Manager
  imports Protocol Title
begin

text \<open>
  The manager's side of a host process (\<open>src/crates/servicecache/src/manager.rs\<close>): one
  request at a time over the control channel, with the notices a template sends about its
  clones kept aside. What will arrive on the channel is the list \<open>hp_inbox\<close>, which ends where
  the host closes the channel; what the system calls answer is an argument.
\<close>

subsection \<open>State\<close>

datatype incoming = Message reply | Broken chan_error

record host_process =
  hp_pid :: nat
  hp_inbox :: "incoming list"
  hp_child :: bool
  hp_events :: "reply list"
  hp_endpoint :: "sockaddr option"
  hp_outbox :: "(request \<times> byte list \<times> fd list) list"

datatype manager_error =
    ClosedChannel nat
  | HostRefused nat string
  | GuestExited nat int
  | UnexpectedReply string reply
  | ManagerChannel chan_error
  | NoListener io_error
  | BadEndpoint string
  | NoEndpointYet nat
  | SpawnHostFailed io_error
  | WaitFailed io_error

definition HOST_CONTROL_FD :: nat where
  "HOST_CONTROL_FD = 3"

subsection \<open>Spawning\<close>

definition spawn_args :: "string \<Rightarrow> string \<Rightarrow> string option \<Rightarrow> string list" where
  "spawn_args manifest cache_dir directives =
     [''host'', ''--manifest'', manifest, ''--control-fd'', show_nat HOST_CONTROL_FD,
      ''--cache-dir'', cache_dir, BUFFER_ARG]
     @ (case directives of None \<Rightarrow> [] | Some d \<Rightarrow> [''--log'', d])"

definition spawn_host ::
  "chan_error option \<Rightarrow> io_error + nat \<Rightarrow> incoming list \<Rightarrow> manager_error + host_process" where
  "spawn_host pair spawned inbox =
     (case pair of
        Some e \<Rightarrow> Inl (ManagerChannel e)
      | None \<Rightarrow>
          (case spawned of
             Inl e \<Rightarrow> Inl (SpawnHostFailed e)
           | Inr pid \<Rightarrow>
               Inr \<lparr>hp_pid = pid, hp_inbox = inbox, hp_child = True, hp_events = [],
                    hp_endpoint = None, hp_outbox = []\<rparr>))"

subsection \<open>Replies and events\<close>

text \<open>
  \<open>HostProcess::reply\<close>: the loop over the messages that arrive, with the rest of the inbox
  and the events kept.
\<close>

fun reply_loop ::
  "nat \<Rightarrow> incoming list \<Rightarrow> reply list \<Rightarrow> (manager_error + reply) \<times> incoming list \<times> reply list" where
  "reply_loop pid [] events = (Inl (ClosedChannel pid), [], events)"
| "reply_loop pid (Broken e # inbox) events = (Inl (ManagerChannel e), inbox, events)"
| "reply_loop pid (Message m # inbox) events =
     (case m of
        Error t \<Rightarrow> (Inl (HostRefused pid t), inbox, events)
      | Exited RunGuest status _ \<Rightarrow> (Inl (GuestExited pid status), inbox, events)
      | Exited RunChild _ _ \<Rightarrow> reply_loop pid inbox (events @ [m])
      | _ \<Rightarrow> (Inr m, inbox, events))"

definition next_reply :: "host_process \<Rightarrow> (manager_error + reply) \<times> host_process" where
  "next_reply hp =
     (case reply_loop (hp_pid hp) (hp_inbox hp) (hp_events hp) of
        (r, inbox, events) \<Rightarrow> (r, hp\<lparr>hp_inbox := inbox, hp_events := events\<rparr>))"

definition read_event :: "host_process \<Rightarrow> (manager_error + reply) \<times> host_process" where
  "read_event hp =
     (case hp_inbox hp of
        [] \<Rightarrow> (Inl (ClosedChannel (hp_pid hp)), hp)
      | Broken e # inbox \<Rightarrow> (Inl (ManagerChannel e), hp\<lparr>hp_inbox := inbox\<rparr>)
      | Message m # inbox \<Rightarrow>
          (case m of
             Error t \<Rightarrow> (Inl (HostRefused (hp_pid hp) t), hp\<lparr>hp_inbox := inbox\<rparr>)
           | Exited _ _ _ \<Rightarrow> (Inr m, hp\<lparr>hp_inbox := inbox\<rparr>)
           | _ \<Rightarrow> (Inl (UnexpectedReply ''event'' m), hp\<lparr>hp_inbox := inbox\<rparr>)))"

fun wait_exit_loop ::
  "nat \<Rightarrow> incoming list \<Rightarrow> reply list \<Rightarrow> (manager_error + int) \<times> incoming list \<times> reply list" where
  "wait_exit_loop pid [] events = (Inl (ClosedChannel pid), [], events)"
| "wait_exit_loop pid (Broken e # inbox) events = (Inl (ManagerChannel e), inbox, events)"
| "wait_exit_loop pid (Message m # inbox) events =
     (case m of
        Error t \<Rightarrow> (Inl (HostRefused pid t), inbox, events)
      | Exited RunGuest status _ \<Rightarrow> (Inr status, inbox, events)
      | Exited _ _ _ \<Rightarrow> wait_exit_loop pid inbox (events @ [m])
      | _ \<Rightarrow> (Inl (UnexpectedReply ''event'' m), inbox, events))"

definition wait_exit :: "host_process \<Rightarrow> (manager_error + int) \<times> host_process" where
  "wait_exit hp =
     (case wait_exit_loop (hp_pid hp) (hp_inbox hp) (hp_events hp) of
        (r, inbox, events) \<Rightarrow> (r, hp\<lparr>hp_inbox := inbox, hp_events := events\<rparr>))"

definition take_events :: "host_process \<Rightarrow> reply list \<times> host_process" where
  "take_events hp = (hp_events hp, hp\<lparr>hp_events := []\<rparr>)"

subsection \<open>Requests\<close>

definition request_host ::
  "chan_error + unit \<Rightarrow> request \<Rightarrow> byte list \<Rightarrow> fd list \<Rightarrow> host_process
     \<Rightarrow> (manager_error + reply) \<times> host_process" where
  "request_host sent q payload fds hp =
     (case sent of
        Inl e \<Rightarrow> (Inl (ManagerChannel e), hp)
      | Inr _ \<Rightarrow> next_reply (hp\<lparr>hp_outbox := hp_outbox hp @ [(q, payload, fds)]\<rparr>))"

definition hp_prepare :: "chan_error + unit \<Rightarrow> host_process \<Rightarrow> (manager_error + int) \<times> host_process" where
  "hp_prepare sent hp =
     (case request_host sent RqPrepare [] [] hp of
        (Inl e, hp') \<Rightarrow> (Inl e, hp')
      | (Inr (Exited RunPrepare status _), hp') \<Rightarrow> (Inr status, hp')
      | (Inr other, hp') \<Rightarrow> (Inl (UnexpectedReply ''prepare'' other), hp'))"

text \<open>\<open>TcpListener::bind\<close> gives the descriptor passed with the request.\<close>

definition hp_start ::
  "io_error + fd \<Rightarrow> chan_error + unit \<Rightarrow> host_process \<Rightarrow> (manager_error + sockaddr) \<times> host_process" where
  "hp_start bound sent hp =
     (case bound of
        Inl e \<Rightarrow> (Inl (NoListener e), hp)
      | Inr listener \<Rightarrow>
          (case request_host sent RqStart [] [listener] hp of
             (Inl e, hp') \<Rightarrow> (Inl e, hp')
           | (Inr (Ready text), hp') \<Rightarrow>
               (case parse_addr text of
                  None \<Rightarrow> (Inl (BadEndpoint text), hp')
                | Some ep \<Rightarrow> (Inr ep, hp'\<lparr>hp_endpoint := Some ep\<rparr>))
           | (Inr other, hp') \<Rightarrow> (Inl (UnexpectedReply ''start'' other), hp')))"

definition hp_endpoint_of :: "host_process \<Rightarrow> manager_error + sockaddr" where
  "hp_endpoint_of hp =
     (case hp_endpoint hp of None \<Rightarrow> Inl (NoEndpointYet (hp_pid hp)) | Some ep \<Rightarrow> Inr ep)"

definition hp_freeze :: "chan_error + unit \<Rightarrow> host_process \<Rightarrow> (manager_error + nat) \<times> host_process" where
  "hp_freeze sent hp =
     (case request_host sent RqFreeze [] [] hp of
        (Inl e, hp') \<Rightarrow> (Inl e, hp')
      | (Inr (Frozen coroutines), hp') \<Rightarrow> (Inr coroutines, hp')
      | (Inr other, hp') \<Rightarrow> (Inl (UnexpectedReply ''freeze'' other), hp'))"

text \<open>
  \<open>HostProcess::fork\<close>: the child's channel is a new pair, whose inbox on our side is
  \<open>child_inbox\<close>.
\<close>

definition hp_fork ::
  "chan_error + fd \<Rightarrow> io_error + fd \<Rightarrow> chan_error + unit \<Rightarrow> incoming list \<Rightarrow> host_process
     \<Rightarrow> (manager_error + (host_process \<times> sockaddr)) \<times> host_process" where
  "hp_fork pair bound sent child_inbox hp =
     (case pair of Inl e \<Rightarrow> (Inl (ManagerChannel e), hp) | Inr theirs \<Rightarrow>
      case bound of Inl e \<Rightarrow> (Inl (NoListener e), hp) | Inr listener \<Rightarrow>
      case request_host sent RqFork [] [theirs, listener] hp of
        (Inl e, hp') \<Rightarrow> (Inl e, hp')
      | (Inr (Forked pid text), hp') \<Rightarrow>
          (case parse_addr text of
             None \<Rightarrow> (Inl (BadEndpoint text), hp')
           | Some ep \<Rightarrow>
               (case next_reply \<lparr>hp_pid = pid, hp_inbox = child_inbox, hp_child = False,
                                 hp_events = [], hp_endpoint = Some ep, hp_outbox = []\<rparr> of
                  (Inl e, _) \<Rightarrow> (Inl e, hp')
                | (Inr (Forked _ _), child) \<Rightarrow> (Inr (child, ep), hp')
                | (Inr other, _) \<Rightarrow> (Inl (UnexpectedReply ''clone announcement'' other), hp')))
      | (Inr other, hp') \<Rightarrow> (Inl (UnexpectedReply ''fork'' other), hp'))"

definition hp_initialize ::
  "chan_error + unit \<Rightarrow> byte list \<Rightarrow> host_process \<Rightarrow> (manager_error + int) \<times> host_process" where
  "hp_initialize sent recipe hp =
     (case request_host sent RqInitialize recipe [] hp of
        (Inl e, hp') \<Rightarrow> (Inl e, hp')
      | (Inr (Exited RunInitializer status _), hp') \<Rightarrow> (Inr status, hp')
      | (Inr other, hp') \<Rightarrow> (Inl (UnexpectedReply ''initialize'' other), hp'))"

subsection \<open>Ending\<close>

fun drain_channel :: "incoming list \<Rightarrow> manager_error + unit" where
  "drain_channel [] = Inr ()"
| "drain_channel (Message _ # inbox) = drain_channel inbox"
| "drain_channel (Broken e # inbox) = Inl (ManagerChannel e)"

definition wait_gone :: "io_error option \<Rightarrow> host_process \<Rightarrow> manager_error + unit" where
  "wait_gone waited hp =
     (if hp_child hp then (case waited of Some e \<Rightarrow> Inl (WaitFailed e) | None \<Rightarrow> Inr ())
      else drain_channel (hp_inbox hp))"

definition hp_stop ::
  "chan_error + unit \<Rightarrow> io_error option \<Rightarrow> host_process
     \<Rightarrow> (request \<times> byte list \<times> fd list) list \<times> (manager_error + unit)" where
  "hp_stop sent waited hp =
     ((case sent of Inl _ \<Rightarrow> [] | Inr _ \<Rightarrow> [(RqStop, [], [])]), wait_gone waited hp)"

text \<open>\<open>kill\<close> sends \<open>SIGKILL\<close> to the host's process id before it waits.\<close>

definition hp_kill :: "io_error option \<Rightarrow> host_process \<Rightarrow> nat \<times> (manager_error + unit)" where
  "hp_kill waited hp = (hp_pid hp, wait_gone waited hp)"

subsection \<open>Lemmas\<close>

definition is_child_exit :: "reply \<Rightarrow> bool" where
  "is_child_exit m = (case m of Exited RunChild _ _ \<Rightarrow> True | _ \<Rightarrow> False)"

lemma reply_loop_skips:
  "list_all is_child_exit notices \<Longrightarrow>
     reply_loop pid (map Message notices @ inbox) events = reply_loop pid inbox (events @ notices)"
  by (induction notices arbitrary: events)
    (auto simp: is_child_exit_def split: reply.splits run.splits)

lemma reply_loop_events:
  "reply_loop pid inbox events = (r, inbox', events') \<Longrightarrow>
     \<exists>notices. events' = events @ notices \<and> list_all is_child_exit notices
       \<and> prefix (map Message notices) inbox \<and> suffix inbox' inbox"
proof (induction pid inbox events rule: reply_loop.induct)
  case (3 pid m inbox events)
  show ?case
  proof (cases "is_child_exit m")
    case True
    then obtain s p where m: "m = Exited RunChild s p"
      by (auto simp: is_child_exit_def split: reply.splits run.splits)
    with 3 obtain notices where "events' = (events @ [m]) @ notices \<and> list_all is_child_exit notices
        \<and> prefix (map Message notices) inbox \<and> suffix inbox' inbox"
      by fastforce
    with True show ?thesis
      by (intro exI [of _ "m # notices"]) (auto simp: suffix_ConsI)
  next
    case False
    with 3(2) show ?thesis
      by (intro exI [of _ "[]"]) (auto simp: is_child_exit_def suffix_ConsI split: reply.splits run.splits)
  qed
qed (auto simp: suffix_ConsI)

lemma next_reply_skips:
  assumes "list_all is_child_exit notices" "hp_inbox hp = map Message notices @ Message m # inbox"
    and "\<not> is_child_exit m" "\<And>t. m \<noteq> Error t" "\<And>s p. m \<noteq> Exited RunGuest s p"
  shows "next_reply hp = (Inr m, hp\<lparr>hp_inbox := inbox, hp_events := hp_events hp @ notices\<rparr>)"
  using assms by (auto simp: next_reply_def reply_loop_skips is_child_exit_def split: reply.splits run.splits)

end
