(* ===== verification/Instances.thy ===== *)
theory Instances
  imports Api Manager Stores
begin

text \<open>
  Held instances (\<open>src/crates/servicecache/src/serve/instances.rs\<close>): the lease, the
  description, the registry, adoption and the watcher. Instants are integers of nanoseconds
  and the current one is an argument. The registry is the \<open>HashMap\<close> from identifiers to
  entries; what it promises is stated against plain partial functions.
\<close>

subsection \<open>Entries\<close>

datatype guest_state = GuestRunning | GuestStateExited "int option"

record entry =
  en_id :: string
  en_service :: string
  en_version :: string
  en_endpoint :: sockaddr
  en_ttl :: duration
  en_expires_at :: instant
  en_state :: guest_state

definition renew :: "instant \<Rightarrow> duration option \<Rightarrow> entry \<Rightarrow> entry" where
  "renew now ttl e =
     (let ttl' = (case ttl of Some t \<Rightarrow> t | None \<Rightarrow> en_ttl e)
      in e\<lparr>en_ttl := ttl', en_expires_at := now + ttl'\<rparr>)"

definition expired :: "instant \<Rightarrow> entry \<Rightarrow> bool" where
  "expired now e = (en_expires_at e \<le> now)"

definition describe :: "instant \<Rightarrow> entry \<Rightarrow> api_instance" where
  "describe now e =
     (let (state, exit_status) =
            (case en_state e of
               GuestRunning \<Rightarrow> (InstanceRunning, None)
             | GuestStateExited status \<Rightarrow> (InstanceExited, status))
      in \<lparr>ai_id = en_id e, ai_service = en_service e, ai_version = en_version e,
          ai_endpoint = endpoint_from (en_endpoint e), ai_state = state,
          ai_exit_status = exit_status,
          ai_expires_in_seconds = nat (max 0 (en_expires_at e - now) div SECOND)\<rparr>)"

subsection \<open>The registry\<close>

type_synonym registry = "(string, entry) hash_map"

definition registry_insert :: "entry \<Rightarrow> registry \<Rightarrow> registry" where
  "registry_insert e r = hm_insert (en_id e) e r"

definition registry_get :: "string \<Rightarrow> registry \<Rightarrow> entry option" where
  "registry_get ident r = map_of r ident"

definition registry_remove :: "string \<Rightarrow> registry \<Rightarrow> entry option \<times> registry" where
  "registry_remove ident r = (map_of r ident, hm_remove ident r)"

definition registry_list :: "registry \<Rightarrow> entry list" where
  "registry_list r = sort_key en_id (map snd r)"

fun remove_all :: "string list \<Rightarrow> registry \<Rightarrow> entry list \<times> registry" where
  "remove_all [] r = ([], r)"
| "remove_all (ident # idents) r =
     (case registry_remove ident r of
        (found, r') \<Rightarrow>
          (case remove_all idents r' of
             (removed, r'') \<Rightarrow> ((case found of None \<Rightarrow> removed | Some e \<Rightarrow> e # removed), r'')))"

definition remove_expired :: "instant \<Rightarrow> registry \<Rightarrow> entry list \<times> registry" where
  "remove_expired now r =
     remove_all (map en_id (filter (expired now) (map snd r))) r"

definition registry_clear :: "registry \<Rightarrow> registry" where
  "registry_clear r = []"

definition registry_wf :: "registry \<Rightarrow> bool" where
  "registry_wf r = (hm_wf r \<and> (\<forall>(k, e) \<in> set r. en_id e = k))"

subsection \<open>Adoption and the watcher\<close>

definition adopt ::
  "io_error option \<Rightarrow> io_error option \<Rightarrow> string \<Rightarrow> string \<Rightarrow> string \<Rightarrow> sockaddr \<Rightarrow> duration \<Rightarrow> instant
     \<Rightarrow> io_error + entry" where
  "adopt pipe thread ident service version ep ttl now =
     (case pipe of
        Some e \<Rightarrow> Inl e
      | None \<Rightarrow>
          (case thread of
             Some e \<Rightarrow> Inl e
           | None \<Rightarrow>
               Inr \<lparr>en_id = ident, en_service = service, en_version = version, en_endpoint = ep,
                    en_ttl = ttl, en_expires_at = now + ttl, en_state = GuestRunning\<rparr>))"

text \<open>What each \<open>poll\<close> of the watcher answers, and how the watcher ends its host.\<close>

datatype watch_poll = WatchInterrupted | WatchFailed | WatchReady bool bool

datatype watch_end = WatchStopped | WatchKilled

fun watch ::
  "watch_poll list \<Rightarrow> host_process \<Rightarrow> guest_state \<Rightarrow> guest_state \<times> watch_end option" where
  "watch [] hp state = (state, None)"
| "watch (WatchInterrupted # polls) hp state = watch polls hp state"
| "watch (WatchFailed # polls) hp state = (state, Some WatchStopped)"
| "watch (WatchReady host_ready stop_ready # polls) hp state =
     (if host_ready
      then (case read_event hp of
              (Inr (Exited RunGuest status _), hp') \<Rightarrow>
                (GuestStateExited (Some status), Some WatchStopped)
            | (Inr _, hp') \<Rightarrow>
                if stop_ready then (state, Some WatchStopped) else watch polls hp' state
            | (Inl _, hp') \<Rightarrow>
                (if state = GuestRunning then GuestStateExited None else state, Some WatchKilled))
      else if stop_ready then (state, Some WatchStopped)
      else watch polls hp state)"

subsection \<open>Lemmas\<close>

lemma registry_wf_insert: "registry_wf r \<Longrightarrow> registry_wf (registry_insert e r)"
proof -
  assume wf: "registry_wf r"
  then have "hm_wf r" by (simp add: registry_wf_def)
  then show ?thesis
    using wf hash.entries_insert [of r "en_id e" e] hash.wf_insert [of r]
    by (auto simp: registry_wf_def registry_insert_def)
qed

lemma registry_wf_remove: "registry_wf r \<Longrightarrow> registry_wf (hm_remove k r)"
  using hash.wf_remove [of r k] by (auto simp: registry_wf_def hm_remove_def)

lemma registry_wf_clear: "registry_wf (registry_clear r)"
  by (simp add: registry_wf_def registry_clear_def hm_wf_def)

lemma remove_all_map:
  "hm_wf r \<Longrightarrow> remove_all idents r = (removed, r') \<Longrightarrow>
     hm_wf r' \<and> map_of r' = (\<lambda>k. if k \<in> set idents then None else map_of r k)
     \<and> set removed = {e. \<exists>k \<in> set idents. map_of r k = Some e}"
proof (induction idents arbitrary: r removed r')
  case (Cons ident idents)
  obtain rest where rec: "remove_all idents (hm_remove ident r) = (rest, r')"
    and removed: "removed = (case map_of r ident of None \<Rightarrow> rest | Some e \<Rightarrow> e # rest)"
    using Cons.prems(2) by (auto simp: registry_remove_def split: prod.splits)
  have "hm_wf (hm_remove ident r)" using Cons.prems(1) by (rule hash.wf_remove)
  from Cons.IH [OF this rec] removed hash.lookup_remove [OF Cons.prems(1), of ident]
  show ?case by (auto split: option.splits) (metis option.distinct(1), metis option.inject)
qed simp

lemma registry_lookup:
  assumes "registry_wf r"
  shows "map_of r k = Some e \<longleftrightarrow> (k, e) \<in> set r" and "map_of r k = Some e \<Longrightarrow> en_id e = k"
  using assms hash.entries_lookup [of r k e] by (auto simp: registry_wf_def)

lemma remove_expired_map:
  assumes "registry_wf r" "remove_expired now r = (removed, r')"
  shows "map_of r' = (\<lambda>k. case map_of r k of None \<Rightarrow> None
            | Some e \<Rightarrow> if expired now e then None else Some e)"
    and "set removed = {e. \<exists>k. map_of r k = Some e \<and> expired now e}" and "registry_wf r'"
proof -
  let ?idents = "map en_id (filter (expired now) (map snd r))"
  have wf: "hm_wf r" using assms(1) by (simp add: registry_wf_def)
  note all = remove_all_map [OF wf assms(2) [unfolded remove_expired_def]]
  have idents: "k \<in> set ?idents \<longleftrightarrow> (\<exists>e. map_of r k = Some e \<and> expired now e)" for k
  proof
    assume "k \<in> set ?idents"
    then obtain j e where "(j, e) \<in> set r" "expired now e" "en_id e = k" by auto
    moreover from this have "map_of r j = Some e" by (simp add: registry_lookup(1) [OF assms(1)])
    ultimately show "\<exists>e. map_of r k = Some e \<and> expired now e"
      using registry_lookup(2) [OF assms(1)] by metis
  next
    assume "\<exists>e. map_of r k = Some e \<and> expired now e"
    then obtain e where e: "map_of r k = Some e" "expired now e" by blast
    from e(1) have "(k, e) \<in> set r" "en_id e = k"
      using registry_lookup [OF assms(1)] by metis+
    with e(2) show "k \<in> set ?idents" by force
  qed
  have map_r': "map_of r' = (\<lambda>k. if k \<in> set ?idents then None else map_of r k)"
    and removed: "set removed = {e. \<exists>k \<in> set ?idents. map_of r k = Some e}" and wf': "hm_wf r'"
    using all by blast+
  show map: "map_of r' = (\<lambda>k. case map_of r k of None \<Rightarrow> None
            | Some e \<Rightarrow> if expired now e then None else Some e)"
    unfolding map_r' idents by (rule ext) (simp split: option.split)
  show "set removed = {e. \<exists>k. map_of r k = Some e \<and> expired now e}"
    unfolding removed Bex_def idents by auto
  have "en_id e = k" if "(k, e) \<in> set r'" for k e
  proof -
    from that have "map_of r' k = Some e" using hash.entries_lookup [OF wf'] by blast
    then have "map_of r k = Some e" unfolding map_r' by (simp split: if_splits)
    then show ?thesis by (rule registry_lookup(2) [OF assms(1)])
  qed
  then show "registry_wf r'" using wf' by (auto simp: registry_wf_def)
qed

lemma registry_list_sorted:
  "registry_wf r \<Longrightarrow> sorted (map en_id (registry_list r)) \<and> set (registry_list r) = ran (map_of r)"
  using ran_distinct [of r] by (simp add: registry_list_def registry_wf_def hm_wf_def)

lemma read_event_inbox:
  assumes "read_event hp = (r, hp')"
  shows "set (hp_inbox hp') \<subseteq> set (hp_inbox hp)" "r = Inr m \<Longrightarrow> Message m \<in> set (hp_inbox hp)"
  using assms by (auto simp: read_event_def split: list.splits incoming.splits reply.splits)

lemma watch_ready_other:
  assumes "read_event hp = (Inr m, hp')" "\<And>s p. m \<noteq> Exited RunGuest s p"
  shows "watch (WatchReady True stop_ready # polls) hp state
    = (if stop_ready then (state, Some WatchStopped) else watch polls hp' state)"
proof (cases m)
  case (Exited rn s p)
  with assms show ?thesis by (cases rn) auto
qed (use assms in simp_all)

lemma watch_state:
  assumes "watch polls hp GuestRunning = (state, ending)"
  shows "(ending = None \<longrightarrow> state = GuestRunning)
    \<and> (ending = Some WatchKilled \<longrightarrow> state = GuestStateExited None)
    \<and> (ending = Some WatchStopped \<longrightarrow> state = GuestRunning \<or> (\<exists>s. state = GuestStateExited (Some s)))
    \<and> (\<forall>s. state = GuestStateExited (Some s) \<longrightarrow> (\<exists>p. Message (Exited RunGuest s p) \<in> set (hp_inbox hp)))"
  using assms
proof (induction polls arbitrary: hp)
  case (Cons poll polls)
  show ?case
  proof (cases poll)
    case (WatchReady host_ready stop_ready)
    show ?thesis
    proof (cases host_ready)
      case False
      with Cons WatchReady show ?thesis by (auto split: if_splits)
    next
      case True
      obtain r hp' where ev: "read_event hp = (r, hp')" by fastforce
      note inbox = read_event_inbox [OF ev]
      have run: "watch (WatchReady True stop_ready # polls) hp GuestRunning = (state, ending)"
        using Cons.prems WatchReady True by (simp only:)
      consider (err) e where "r = Inl e" | (guest) s p where "r = Inr (Exited RunGuest s p)"
        | (other) m where "r = Inr m" "\<And>s p. m \<noteq> Exited RunGuest s p"
        by (cases r) blast+
      then show ?thesis
      proof cases
        case err
        then show ?thesis using run ev by auto
      next
        case guest
        then show ?thesis using run ev inbox(2) by auto
      next
        case other
        note next_round = run [unfolded watch_ready_other [OF ev [unfolded other(1)] other(2)]]
        show ?thesis
        proof (cases stop_ready)
          case False
          with next_round have "watch polls hp' GuestRunning = (state, ending)" by simp
          from Cons.IH [OF this] inbox(1) show ?thesis by blast
        qed (use next_round in auto)
      qed
    qed
  qed (use Cons in auto)
qed auto

subsection \<open>Properties\<close>

text \<open>
  The registry is a partial function from identifiers to entries. Insertion, lookup,
  removal and clearing act on it as on such a function, the sweep removes and returns exactly
  the entries whose lease has run out, the listing has every entry in the order of the
  identifiers, and every operation keeps entries under their own identifiers.\<close>

theorem registry_refines_map:
  assumes "registry_wf r"
  shows "map_of (registry_insert e r) = (map_of r)(en_id e \<mapsto> e)
    \<and> registry_get k r = map_of r k
    \<and> fst (registry_remove k r) = map_of r k
    \<and> map_of (snd (registry_remove k r)) = (map_of r)(k := None)
    \<and> set (fst (remove_expired now r)) = {e. \<exists>k. map_of r k = Some e \<and> en_expires_at e \<le> now}
    \<and> map_of (snd (remove_expired now r)) = (\<lambda>k. case map_of r k of None \<Rightarrow> None
         | Some e \<Rightarrow> if en_expires_at e \<le> now then None else Some e)
    \<and> sorted (map en_id (registry_list r)) \<and> set (registry_list r) = ran (map_of r)
    \<and> map_of (registry_clear r) = Map.empty
    \<and> registry_wf (registry_insert e r) \<and> registry_wf (snd (registry_remove k r))
    \<and> registry_wf (snd (remove_expired now r)) \<and> registry_wf (registry_clear r)"
proof -
  have wf: "hm_wf r" using assms by (simp add: registry_wf_def)
  note sweep = remove_expired_map [OF assms prod.collapse [symmetric], of now, unfolded expired_def]
  show ?thesis
    unfolding sweep(1) sweep(2)
    using sweep(3) registry_list_sorted [OF assms] registry_wf_insert [OF assms] registry_wf_remove [OF assms]
      registry_wf_clear hash.lookup_insert [OF wf] hash.lookup_remove [OF wf]
    by (simp add: registry_insert_def registry_get_def registry_remove_def registry_clear_def)
qed

theorem registry_refines_map_witness:
  "let e = \<lparr>en_id = ''a'', en_service = ''redis'', en_version = ''7'',
            en_endpoint = \<lparr>sa_ip = LOCALHOST, sa_port = 70\<rparr>, en_ttl = 5, en_expires_at = 5,
            en_state = GuestRunning\<rparr>
   in registry_wf [] \<and> map_of (registry_insert e []) = [''a'' \<mapsto> e]"
proof -
  have "registry_wf []" by (simp add: registry_wf_def hm_wf_def)
  with registry_refines_map [OF this] show ?thesis by (simp add: Let_def)
qed



end
