(* ===== verification/Owner.thy ===== *)
theory Owner
  imports Manager Instances "HOL-Library.Multiset"
begin

text \<open>
  The owner thread of a template (\<open>src/crates/servicecache/src/serve/templates.rs\<close>): bringing
  the base or a recipe's template to frozen, and serving fork commands until the template
  expires, fails or is dropped. The owner is a function of what its host answers and of the
  commands and timeouts it sees; \<open>ow_forked\<close> and \<open>ow_exited\<close> record the clones it forked and
  the exit notices it read.
\<close>

subsection \<open>Bringing a template up\<close>

text \<open>The outermost message of a manager error, without the debug text of a reply.\<close>

definition manager_error_text :: "manager_error \<Rightarrow> string" where
  "manager_error_text e =
     (case e of
        ClosedChannel pid \<Rightarrow> ''host '' @ show_nat pid @ '' closed its control channel''
      | HostRefused pid t \<Rightarrow> ''host '' @ show_nat pid @ '' refused: '' @ t
      | GuestExited pid status \<Rightarrow>
          ''the guest in host '' @ show_nat pid @ '' exited with status '' @ show_int status
      | UnexpectedReply what _ \<Rightarrow> ''unexpected reply to '' @ what
      | ManagerChannel _ \<Rightarrow> ''the control channel failed''
      | NoListener _ \<Rightarrow> ''failed to bind a listener''
      | BadEndpoint t \<Rightarrow> ''bad endpoint from the host: '' @ t
      | NoEndpointYet pid \<Rightarrow> ''host '' @ show_nat pid @ '' has no endpoint yet''
      | SpawnHostFailed _ \<Rightarrow> ''failed to spawn the host''
      | WaitFailed _ \<Rightarrow> ''failed to wait for the host'')"

text \<open>What becomes of the host when the owner does not go on to serve forks.\<close>

datatype host_fate = NoHost | HostKilled host_process | HostLeft host_process
  | HostStopped host_process | HostServing host_process

text \<open>
  The system calls of a bring-up. \<open>bu_listening\<close> says whether the creator still waits for the
  outcome.
\<close>

record bring_up =
  bu_pair :: "chan_error option"
  bu_spawned :: "io_error + nat"
  bu_inbox :: "incoming list"
  bu_sent_prepare :: "chan_error + unit"
  bu_bound :: "io_error + fd"
  bu_sent_start :: "chan_error + unit"
  bu_sent_initialize :: "chan_error + unit"
  bu_sent_freeze :: "chan_error + unit"
  bu_listening :: bool

definition freeze_and_serve :: "bring_up \<Rightarrow> host_process \<Rightarrow> (problem + unit) \<times> host_fate" where
  "freeze_and_serve bu hp =
     (case hp_freeze (bu_sent_freeze bu) hp of
        (Inl e, hp') \<Rightarrow> (Inl (bring_up_failed (manager_error_text e)), HostLeft hp')
      | (Inr _, hp') \<Rightarrow>
          (Inr (), if bu_listening bu then HostServing hp' else HostStopped hp'))"

definition start_and_freeze :: "bring_up \<Rightarrow> host_process \<Rightarrow> (problem + unit) \<times> host_fate" where
  "start_and_freeze bu hp =
     (case hp_start (bu_bound bu) (bu_sent_start bu) hp of
        (Inl e, hp') \<Rightarrow> (Inl (bring_up_failed (manager_error_text e)), HostKilled hp')
      | (Inr _, hp') \<Rightarrow> freeze_and_serve bu hp')"

definition base_owner :: "bool \<Rightarrow> bring_up \<Rightarrow> (problem + unit) \<times> host_fate" where
  "base_owner has_prepare bu =
     (case spawn_host (bu_pair bu) (bu_spawned bu) (bu_inbox bu) of
        Inl e \<Rightarrow> (Inl (bring_up_failed (manager_error_text e)), NoHost)
      | Inr hp \<Rightarrow>
          if has_prepare
          then (case hp_prepare (bu_sent_prepare bu) hp of
                  (Inl e, hp') \<Rightarrow> (Inl (bring_up_failed (manager_error_text e)), HostKilled hp')
                | (Inr status, hp') \<Rightarrow>
                    if status = 0 then start_and_freeze bu hp'
                    else (Inl (prepare_failed status), HostKilled hp'))
          else start_and_freeze bu hp)"

definition recipe_owner :: "bring_up \<Rightarrow> byte list \<Rightarrow> host_process \<Rightarrow> (problem + unit) \<times> host_fate" where
  "recipe_owner bu recipe hp =
     (case hp_initialize (bu_sent_initialize bu) recipe hp of
        (Inl e, hp') \<Rightarrow> (Inl (bring_up_failed (manager_error_text e)), HostKilled hp')
      | (Inr status, hp') \<Rightarrow>
          if status = 0 then freeze_and_serve bu hp'
          else (Inl (initializer_failed status), HostKilled hp'))"

text \<open>
  The creator's side: it starts the owner thread and awaits the outcome; \<open>died\<close> is an owner
  thread that ends without one.
\<close>

definition await_owner :: "string option \<Rightarrow> bool \<Rightarrow> problem + unit \<Rightarrow> problem + unit" where
  "await_owner thread_error died answer =
     (case thread_error of
        Some e \<Rightarrow> Inl (internal e)
      | None \<Rightarrow> if died then Inl (internal ''the template's owner thread died'') else answer)"

definition fill_base :: "string option \<Rightarrow> bool \<Rightarrow> bool \<Rightarrow> bring_up \<Rightarrow> problem + unit" where
  "fill_base thread_error died has_prepare bu =
     await_owner thread_error died (fst (base_owner has_prepare bu))"

text \<open>\<open>Template::fork\<close>: \<open>answer\<close> is absent when the owner dies before it answers.\<close>

definition template_fork ::
  "bool \<Rightarrow> (manager_error + (host_process \<times> sockaddr)) option \<Rightarrow> problem + (host_process \<times> sockaddr)" where
  "template_fork sent answer =
     (if \<not> sent then Inl (template_failed ''the template is gone'')
      else case answer of
             None \<Rightarrow> Inl (template_failed ''the template died forking'')
           | Some (Inl e) \<Rightarrow> Inl (template_failed (manager_error_text e))
           | Some (Inr forked) \<Rightarrow> Inr forked)"

definition fill_recipe ::
  "problem + (host_process \<times> sockaddr) \<Rightarrow> string option \<Rightarrow> bool \<Rightarrow> byte list \<Rightarrow> bring_up \<Rightarrow> problem + unit" where
  "fill_recipe base_fork thread_error died recipe bu =
     (case base_fork of
        Inl problem \<Rightarrow> Inl problem
      | Inr (clone, _) \<Rightarrow> await_owner thread_error died (fst (recipe_owner bu recipe clone)))"

subsection \<open>Serving forks\<close>

datatype drain_poll = PollReady | PollInterrupted | PollBroken

text \<open>
  \<open>drain_events\<close>: the polls that find something, up to the one that finds nothing. The
  events read come back besides their count.
\<close>

fun drain_loop ::
  "drain_poll list \<Rightarrow> host_process \<Rightarrow> reply list \<Rightarrow> reply list option \<times> host_process" where
  "drain_loop [] hp events = (Some events, hp)"
| "drain_loop (PollInterrupted # polls) hp events = drain_loop polls hp events"
| "drain_loop (PollBroken # polls) hp events = (None, hp)"
| "drain_loop (PollReady # polls) hp events =
     (case read_event hp of
        (Inr event, hp') \<Rightarrow> drain_loop polls hp' (events @ [event])
      | (Inl _, hp') \<Rightarrow> (None, hp'))"

definition count_exits :: "reply list \<Rightarrow> nat" where
  "count_exits events = length (filter is_child_exit events)"

definition drain_events :: "drain_poll list \<Rightarrow> host_process \<Rightarrow> nat option \<times> host_process" where
  "drain_events polls hp =
     (case drain_loop polls hp [] of (events, hp') \<Rightarrow> (map_option count_exits events, hp'))"

fun exit_pids :: "reply list \<Rightarrow> nat option list" where
  "exit_pids [] = []"
| "exit_pids (e # es) =
     (case e of Exited RunChild _ pid \<Rightarrow> pid # exit_pids es | _ \<Rightarrow> exit_pids es)"

record fork_input =
  fi_arrived :: "incoming list"
  fi_pair :: "chan_error + fd"
  fi_bound :: "io_error + fd"
  fi_sent :: "chan_error + unit"
  fi_child_inbox :: "incoming list"

datatype owner_event =
    ForkCommand fork_input instant
  | OwnerTimeout "incoming list" "drain_poll list" instant
  | OwnerDisconnected

record owner =
  ow_host :: host_process
  ow_children :: nat
  ow_idle_since :: instant
  ow_alive :: bool
  ow_forked :: "nat list"
  ow_exited :: "nat option list"
  ow_replies :: "(manager_error + (host_process \<times> sockaddr)) list"

datatype owner_end = ForkFailedEnd | HostGoneEnd | ExpiredEnd | DroppedEnd

datatype owner_round = Serve owner | Over owner_end owner

text \<open>A host that failed is killed; one no longer wanted is asked to stop.\<close>

definition owner_fate :: "owner_end \<Rightarrow> owner \<Rightarrow> host_fate" where
  "owner_fate e ow =
     (case e of
        ForkFailedEnd \<Rightarrow> HostKilled (ow_host ow) | HostGoneEnd \<Rightarrow> HostKilled (ow_host ow)
      | ExpiredEnd \<Rightarrow> HostStopped (ow_host ow) | DroppedEnd \<Rightarrow> HostStopped (ow_host ow))"

text \<open>\<open>deliver\<close> adds what the host has sent since the last round.\<close>

definition deliver :: "incoming list \<Rightarrow> owner \<Rightarrow> owner" where
  "deliver arrived ow = ow\<lparr>ow_host := (ow_host ow)\<lparr>hp_inbox := hp_inbox (ow_host ow) @ arrived\<rparr>\<rparr>"

definition serve_fork :: "fork_input \<Rightarrow> instant \<Rightarrow> owner \<Rightarrow> owner_round" where
  "serve_fork fi now ow =
     (case hp_fork (fi_pair fi) (fi_bound fi) (fi_sent fi) (fi_child_inbox fi) (ow_host ow) of
        (Inl e, hp) \<Rightarrow>
          Over ForkFailedEnd
            (ow\<lparr>ow_host := hp, ow_alive := False, ow_replies := ow_replies ow @ [Inl e]\<rparr>)
      | (Inr (clone, ep), hp) \<Rightarrow>
          (let (events, hp') = take_events hp;
               children = fold (\<lambda>e n. if is_child_exit e then n - 1 else n) events (ow_children ow + 1)
           in Serve (ow\<lparr>ow_host := hp', ow_children := children,
                        ow_idle_since := (if children = 0 then now else ow_idle_since ow),
                        ow_forked := ow_forked ow @ [hp_pid clone],
                        ow_exited := ow_exited ow @ exit_pids events,
                        ow_replies := ow_replies ow @ [Inr (clone, ep)]\<rparr>)))"

definition owner_timeout :: "duration \<Rightarrow> drain_poll list \<Rightarrow> instant \<Rightarrow> owner \<Rightarrow> owner_round" where
  "owner_timeout ttl polls now ow =
     (case drain_loop polls (ow_host ow) [] of
        (None, hp) \<Rightarrow> Over HostGoneEnd (ow\<lparr>ow_host := hp, ow_alive := False\<rparr>)
      | (Some events, hp) \<Rightarrow>
          (let exits = count_exits events;
               children = (if exits > 0 then ow_children ow - exits else ow_children ow);
               idle_since = (if exits > 0 \<and> children = 0 then now else ow_idle_since ow);
               ow' = ow\<lparr>ow_host := hp, ow_children := children, ow_idle_since := idle_since,
                        ow_exited := ow_exited ow @ exit_pids events\<rparr>
           in if children = 0 \<and> ttl \<le> now - idle_since
              then Over ExpiredEnd (ow'\<lparr>ow_alive := False\<rparr>)
              else Serve ow'))"

definition owner_step :: "duration \<Rightarrow> owner_event \<Rightarrow> owner \<Rightarrow> owner_round" where
  "owner_step ttl ev ow =
     (case ev of
        ForkCommand fi now \<Rightarrow> serve_fork fi now (deliver (fi_arrived fi) ow)
      | OwnerTimeout arrived polls now \<Rightarrow> owner_timeout ttl polls now (deliver arrived ow)
      | OwnerDisconnected \<Rightarrow> Over DroppedEnd (ow\<lparr>ow_alive := False\<rparr>))"

fun serve_forks :: "duration \<Rightarrow> owner_event list \<Rightarrow> owner \<Rightarrow> owner_round" where
  "serve_forks ttl [] ow = Serve ow"
| "serve_forks ttl (ev # evs) ow =
     (case owner_step ttl ev ow of
        Serve ow' \<Rightarrow> serve_forks ttl evs ow'
      | Over e ow' \<Rightarrow> Over e ow')"

definition new_owner :: "host_process \<Rightarrow> instant \<Rightarrow> owner" where
  "new_owner hp now =
     \<lparr>ow_host = hp, ow_children = 0, ow_idle_since = now, ow_alive = True, ow_forked = [],
      ow_exited = [], ow_replies = []\<rparr>"

subsection \<open>Histories of an owner\<close>

text \<open>
  The kernel lets a host reap each of its clones once, so the exit notices read are, with
  multiplicity, among the clones forked.
\<close>

definition well_reported :: "owner \<Rightarrow> bool" where
  "well_reported ow = (mset (ow_exited ow) \<subseteq># image_mset Some (mset (ow_forked ow)))"

inductive owners :: "duration \<Rightarrow> owner \<Rightarrow> bool" for ttl where
  owner_new: "hp_events hp = [] \<Longrightarrow> owners ttl (new_owner hp now)"
| owner_step: "owners ttl ow \<Longrightarrow> owner_step ttl ev ow = Serve ow' \<Longrightarrow> well_reported ow' \<Longrightarrow> owners ttl ow'"

subsection \<open>Lemmas\<close>

lemma length_exit_pids [simp]: "length (exit_pids events) = count_exits events"
  by (induction events) (auto simp: count_exits_def is_child_exit_def split: reply.splits run.splits)

lemma fold_children: "fold (\<lambda>e n. if is_child_exit e then n - 1 else n) events n = n - count_exits events"
  by (induction events arbitrary: n) (simp_all add: count_exits_def)

lemma well_reported_length: "well_reported ow \<Longrightarrow> length (ow_exited ow) \<le> length (ow_forked ow)"
  unfolding well_reported_def by (drule size_mset_mono) simp

lemma deliver_fields [simp]:
  "ow_children (deliver a ow) = ow_children ow" "ow_idle_since (deliver a ow) = ow_idle_since ow"
  "ow_forked (deliver a ow) = ow_forked ow" "ow_exited (deliver a ow) = ow_exited ow"
  "ow_alive (deliver a ow) = ow_alive ow"
  by (simp_all add: deliver_def)

lemma serve_fork_Serve:
  assumes "serve_fork fi now ow = Serve ow'"
  obtains pid events where "ow_forked ow' = ow_forked ow @ [pid]"
    "ow_exited ow' = ow_exited ow @ exit_pids events"
    "ow_children ow' = ow_children ow + 1 - count_exits events"
    "ow_idle_since ow' = (if ow_children ow' = 0 then now else ow_idle_since ow)"
    "ow_alive ow' = ow_alive ow"
  using assms
  by (auto simp: serve_fork_def Let_def fold_children split: prod.splits sum.splits)

lemma owner_timeout_cases:
  assumes "owner_timeout ttl polls now ow = rnd"
  obtains (gone) ow' where "rnd = Over HostGoneEnd ow'" "fst (drain_loop polls (ow_host ow) []) = None"
  | (drained) events ow' where "fst (drain_loop polls (ow_host ow) []) = Some events"
    "ow_forked ow' = ow_forked ow" "ow_exited ow' = ow_exited ow @ exit_pids events"
    "ow_children ow' = ow_children ow - count_exits events"
    "ow_idle_since ow' = (if count_exits events > 0 \<and> ow_children ow' = 0 then now else ow_idle_since ow)"
    "rnd = (if ow_children ow' = 0 \<and> ttl \<le> now - ow_idle_since ow'
            then Over ExpiredEnd (ow'\<lparr>ow_alive := False\<rparr>) else Serve ow')"
proof (cases "fst (drain_loop polls (ow_host ow) [])")
  case None
  then show thesis using assms gone
    by (auto simp: owner_timeout_def split: prod.splits)
next
  case (Some events)
  define ow' where "ow' = ow\<lparr>ow_host := snd (drain_loop polls (ow_host ow) []),
      ow_children := ow_children ow - count_exits events,
      ow_idle_since := (if count_exits events > 0 \<and> ow_children ow - count_exits events = 0 then now
                        else ow_idle_since ow),
      ow_exited := ow_exited ow @ exit_pids events\<rparr>"
  show thesis
    by (rule drained [of events ow'])
      (use assms Some in \<open>auto simp: ow'_def owner_timeout_def Let_def split: prod.splits\<close>)
qed

lemma owners_count:
  assumes "owners ttl ow"
  shows "ow_children ow + length (ow_exited ow) = length (ow_forked ow)"
  using assms
proof (induction rule: owners.induct)
  case (owner_new hp now)
  then show ?case by (simp add: new_owner_def)
next
  case (owner_step ow ev ow')
  note enough = well_reported_length [OF owner_step.hyps(3)]
  show ?case
  proof (cases ev)
    case (ForkCommand fi now)
    then have "serve_fork fi now (deliver (fi_arrived fi) ow) = Serve ow'"
      using owner_step.hyps(2) by (simp add: owner_step_def)
    then show ?thesis
      by (rule serve_fork_Serve) (use owner_step.IH enough in auto)
  next
    case (OwnerTimeout arrived polls now)
    then have "owner_timeout ttl polls now (deliver arrived ow) = Serve ow'"
      using owner_step.hyps(2) by (simp add: owner_step_def)
    then show ?thesis
      by (cases rule: owner_timeout_cases) (use owner_step.IH enough in \<open>auto split: if_splits\<close>)
  qed (use owner_step.hyps(2) in \<open>simp add: owner_step_def\<close>)
qed

lemma well_reported_all:
  assumes "well_reported ow" "length (ow_exited ow) = length (ow_forked ow)"
  shows "mset (ow_exited ow) = image_mset Some (mset (ow_forked ow))"
  using assms by (simp add: well_reported_def mset_subset_eq_exists_conv) (metis add_cancel_right_right size_eq_0_iff_empty size_image_mset size_mset size_union)

lemma all_reported_length:
  "mset xs = image_mset Some (mset ys) \<Longrightarrow> length xs = length ys"
  by (metis size_image_mset size_mset)

lemma deliver_quiet [simp]: "deliver [] ow = ow"
  by (simp add: deliver_def)

lemma quiet_timeout:
  "ow_children ow = 0 \<Longrightarrow> owner_step ttl (OwnerTimeout [] [] now) ow =
     (if ttl \<le> now - ow_idle_since ow then Over ExpiredEnd (ow\<lparr>ow_alive := False\<rparr>) else Serve ow)"
  by (cases ow) (simp add: owner_step_def owner_timeout_def count_exits_def)

lemma drain_loop_interrupted [simp]: "drain_loop (replicate n PollInterrupted) hp events = (Some events, hp)"
  by (induction n) simp_all

lemma next_reply_outbox: "next_reply hp = (r, hp') \<Longrightarrow> hp_outbox hp' = hp_outbox hp \<and> hp_endpoint hp' = hp_endpoint hp"
  by (auto simp: next_reply_def split: prod.splits)

lemma request_host_outbox:
  assumes "request_host sent q payload fds hp = (r, hp')"
  shows "hp_outbox hp' = hp_outbox hp @ (case sent of Inl _ \<Rightarrow> [] | Inr _ \<Rightarrow> [(q, payload, fds)])"
    and "hp_endpoint hp' = hp_endpoint hp"
    and "\<And>m. r = Inr m \<Longrightarrow> sent = Inr ()"
  using assms by (auto simp: request_host_def dest: next_reply_outbox split: sum.splits)

lemma request_host_Inr:
  "request_host sent q payload fds hp = (Inr m, hp') \<Longrightarrow>
     sent = Inr () \<and> hp_outbox hp' = hp_outbox hp @ [(q, payload, fds)] \<and> hp_endpoint hp' = hp_endpoint hp"
  using request_host_outbox [of sent q payload fds hp "Inr m" hp'] by auto

lemma hp_prepare_outbox:
  "hp_prepare sent hp = (Inr status, hp') \<Longrightarrow> hp_outbox hp' = hp_outbox hp @ [(RqPrepare, [], [])]"
  by (auto simp: hp_prepare_def dest: request_host_Inr split: prod.splits sum.splits reply.splits run.splits)

lemma hp_start_outbox:
  "hp_start bound sent hp = (Inr ep, hp') \<Longrightarrow>
     \<exists>l. bound = Inr l \<and> hp_outbox hp' = hp_outbox hp @ [(RqStart, [], [l])] \<and> hp_endpoint hp' = Some ep"
  by (auto simp: hp_start_def dest: request_host_Inr split: prod.splits sum.splits reply.splits option.splits)

lemma hp_freeze_outbox:
  "hp_freeze sent hp = (Inr n, hp') \<Longrightarrow>
     hp_outbox hp' = hp_outbox hp @ [(RqFreeze, [], [])] \<and> hp_endpoint hp' = hp_endpoint hp"
  by (auto simp: hp_freeze_def dest: request_host_Inr split: prod.splits sum.splits reply.splits)

lemma hp_freeze_failed:
  "hp_freeze sent hp = (Inl e, hp') \<Longrightarrow>
     hp_outbox hp' = hp_outbox hp @ (case sent of Inl _ \<Rightarrow> [] | Inr _ \<Rightarrow> [(RqFreeze, [], [])])"
  by (auto simp: hp_freeze_def dest: request_host_outbox(1) split: prod.splits sum.splits reply.splits)

lemma freeze_and_serve_cases:
  assumes "freeze_and_serve bu hp = (r, fate)"
  obtains (frozen) hp' where "r = Inr ()" "fate = (if bu_listening bu then HostServing hp' else HostStopped hp')"
    "hp_outbox hp' = hp_outbox hp @ [(RqFreeze, [], [])]" "hp_endpoint hp' = hp_endpoint hp"
  | (failed) e hp' where "r = Inl (bring_up_failed (manager_error_text e))" "fate = HostLeft hp'"
  using assms
  by (auto simp: freeze_and_serve_def dest: hp_freeze_outbox split: prod.splits sum.splits)

lemma base_owner_cases:
  assumes "base_owner has_prepare bu = (r, fate)"
  obtains (early) p where "r = Inl p" "fate = NoHost \<or> (\<exists>hp. fate = HostKilled hp)"
  | (started) hp where "start_and_freeze bu hp = (r, fate)"
    "hp_outbox hp = (if has_prepare then [(RqPrepare, [], [])] else [])"
proof (cases "spawn_host (bu_pair bu) (bu_spawned bu) (bu_inbox bu)")
  case (Inl e)
  with assms early show thesis by (auto simp: base_owner_def)
next
  case (Inr hp)
  then have out: "hp_outbox hp = []" by (auto simp: spawn_host_def split: option.splits sum.splits)
  obtain q hp' where prep: "hp_prepare (bu_sent_prepare bu) hp = (q, hp')" by (meson surj_pair)
  show thesis
  proof (cases has_prepare)
    case False
    with Inr assms out started [of hp] show thesis by (simp add: base_owner_def)
  next
    case True
    show thesis
    proof (cases q)
      case (Inl e)
      with Inr assms True prep early show thesis by (auto simp: base_owner_def)
    next
      case status: (Inr status)
      note sent = hp_prepare_outbox [OF prep [unfolded status]]
      show thesis
      proof (cases "status = 0")
        case True
        with Inr assms \<open>has_prepare\<close> prep status out sent started [of hp'] show thesis
          by (simp add: base_owner_def)
      next
        case False
        with Inr assms \<open>has_prepare\<close> prep status early show thesis by (auto simp: base_owner_def)
      qed
    qed
  qed
qed

subsection \<open>Properties\<close>

text \<open>
  C34: when the base owner reports the template ready, its host was sent exactly the prepare
  request if the manifest has one, then start with one listener, then freeze, and knows its
  endpoint; the owner goes on to serve forks, or stops the host if the creator left. When it
  reports a problem no host is left serving: none was spawned, it was killed, or it is the one
  whose freeze failed.
\<close>

theorem base_template_brought_up_in_order:
  assumes "base_owner has_prepare bu = (r, fate)"
  shows "(\<exists>hp l. r = Inr () \<and> fate = (if bu_listening bu then HostServing hp else HostStopped hp)
            \<and> hp_outbox hp = (if has_prepare then [(RqPrepare, [], [])] else [])
                 @ [(RqStart, [], [l]), (RqFreeze, [], [])]
            \<and> hp_endpoint hp \<noteq> None)
    \<or> (\<exists>p. r = Inl p \<and> (fate = NoHost \<or> (\<exists>hp. fate = HostKilled hp \<or> fate = HostLeft hp)))"
proof -
  have start: ?thesis if "start_and_freeze bu hp = (r, fate)"
    "hp_outbox hp = (if has_prepare then [(RqPrepare, [], [])] else [])" for hp
  proof (cases "hp_start (bu_bound bu) (bu_sent_start bu) hp")
    case (Pair q hp1)
    show ?thesis
    proof (cases q)
      case (Inl e)
      with Pair that show ?thesis by (auto simp: start_and_freeze_def)
    next
      case (Inr ep)
      from hp_start_outbox [OF Pair [unfolded Inr]] obtain l
        where l: "hp_outbox hp1 = hp_outbox hp @ [(RqStart, [], [l])]" "hp_endpoint hp1 = Some ep" by auto
      from that Pair Inr have "freeze_and_serve bu hp1 = (r, fate)" by (simp add: start_and_freeze_def)
      then show ?thesis
        by (cases rule: freeze_and_serve_cases) (use l that(2) in auto)
    qed
  qed
  from assms show ?thesis
    by (cases rule: base_owner_cases) (use start in blast)+
qed

definition demo_clone_addr :: sockaddr where
  "demo_clone_addr = \<lparr>sa_ip = LOCALHOST, sa_port = 70\<rparr>"

definition demo_bring_up :: bring_up where
  "demo_bring_up =
     \<lparr>bu_pair = None, bu_spawned = Inr 7,
      bu_inbox = map Message [Exited RunPrepare 0 None, Ready (show_addr demo_clone_addr), Frozen 2],
      bu_sent_prepare = Inr (), bu_bound = Inr 9, bu_sent_start = Inr (),
      bu_sent_initialize = Inr (), bu_sent_freeze = Inr (), bu_listening = True\<rparr>"

lemma demo_bring_up_ready: "isl (fst (base_owner True demo_bring_up)) = False"
  by (simp add: demo_bring_up_def base_owner_def spawn_host_def hp_prepare_def request_host_def
      next_reply_def start_and_freeze_def hp_start_def freeze_and_serve_def hp_freeze_def)

theorem base_template_brought_up_in_order_witness:
  "\<exists>hp l. base_owner True demo_bring_up = (Inr (), HostServing hp)
     \<and> hp_outbox hp = [(RqPrepare, [], []), (RqStart, [], [l]), (RqFreeze, [], [])]"
  using base_template_brought_up_in_order
    [of True demo_bring_up "fst (base_owner True demo_bring_up)" "snd (base_owner True demo_bring_up)"]
    demo_bring_up_ready
  by (auto simp: demo_bring_up_def isl_def prod_eq_iff)

text \<open>An owner of host 7 that forks clone 8 and then reads the notice of its exit.\<close>

definition demo_host :: host_process where
  "demo_host = \<lparr>hp_pid = 7, hp_inbox = [], hp_child = True, hp_events = [],
     hp_endpoint = Some demo_clone_addr, hp_outbox = []\<rparr>"

definition demo_fork :: fork_input where
  "demo_fork = \<lparr>fi_arrived = [Message (Forked 8 (show_addr demo_clone_addr))], fi_pair = Inr 10,
     fi_bound = Inr 11, fi_sent = Inr (), fi_child_inbox = [Message (Forked 8 (show_addr demo_clone_addr))]\<rparr>"

definition demo_forked :: owner where
  "demo_forked =
     (case owner_step 10 (ForkCommand demo_fork 3) (new_owner demo_host 0) of Serve ow \<Rightarrow> ow | Over _ ow \<Rightarrow> ow)"

definition demo_unused :: owner where
  "demo_unused =
     (case owner_step 10 (OwnerTimeout [Message (Exited RunChild 0 (Some 8))] [PollReady] 5) demo_forked of
        Serve ow \<Rightarrow> ow | Over _ ow \<Rightarrow> ow)"

lemmas demo_owner_simps =
  owner_step_def serve_fork_def owner_timeout_def deliver_def hp_fork_def request_host_def next_reply_def
  read_event_def take_events_def count_exits_def is_child_exit_def new_owner_def demo_host_def demo_fork_def

lemma demo_forked_step: "owner_step 10 (ForkCommand demo_fork 3) (new_owner demo_host 0) = Serve demo_forked"
  by (simp add: demo_forked_def demo_owner_simps)

lemma demo_unused_step:
  "owner_step 10 (OwnerTimeout [Message (Exited RunChild 0 (Some 8))] [PollReady] 5) demo_forked = Serve demo_unused"
  by (simp add: demo_unused_def demo_forked_def demo_owner_simps)

lemma demo_unused_state:
  "ow_forked demo_unused = [8]" "ow_exited demo_unused = [Some 8]" "ow_idle_since demo_unused = 5"
  "ow_forked demo_forked = [8]" "ow_exited demo_forked = []"
  by (simp_all add: demo_unused_def demo_forked_def demo_owner_simps)

lemma demo_unused_owner: "owners 10 demo_unused"
  by (rule owners.owner_step [OF owners.owner_step [OF owners.owner_new demo_forked_step] demo_unused_step])
    (simp_all add: well_reported_def demo_unused_state demo_host_def)

text \<open>
  C19: a template whose owner wakes up and reads its host's notices expires exactly when every
  clone it ever forked has been reported gone and the template has been without one for its
  time to live; so no live clone loses its template, and no unused template is kept longer.
\<close>

theorem template_expires_iff_unused:
  assumes "owners ttl ow"
    and "fst (drain_loop polls (ow_host (deliver arrived ow)) []) = Some events"
    and "mset (ow_exited ow @ exit_pids events) \<subseteq># image_mset Some (mset (ow_forked ow))"
  shows "(\<exists>ow'. owner_step ttl (OwnerTimeout arrived polls now) ow = Over ExpiredEnd ow') \<longleftrightarrow>
    mset (ow_exited ow @ exit_pids events) = image_mset Some (mset (ow_forked ow))
    \<and> ttl \<le> now - (if exit_pids events = [] then ow_idle_since ow else now)"
proof -
  define ow1 where "ow1 = ow\<lparr>ow_exited := ow_exited ow @ exit_pids events\<rparr>"
  have reported: "well_reported ow1" using assms(3) by (simp add: ow1_def well_reported_def)
  have count: "ow_children ow - count_exits events = 0 \<longleftrightarrow>
      mset (ow_exited ow @ exit_pids events) = image_mset Some (mset (ow_forked ow))"
    using owners_count [OF assms(1)] well_reported_length [OF reported] well_reported_all [OF reported]
      all_reported_length [of "ow_exited ow @ exit_pids events" "ow_forked ow"]
    by (simp add: ow1_def) linarith
  have none: "exit_pids events = [] \<longleftrightarrow> count_exits events = 0"
    by (metis length_0_conv length_exit_pids)
  show ?thesis
    by (rule owner_timeout_cases [OF refl, of ttl polls now "deliver arrived ow"])
      (use assms(2) count none in \<open>auto simp: owner_step_def\<close>)
qed

theorem template_expires_iff_unused_witness:
  "(\<exists>ow'. owner_step 10 (OwnerTimeout [] [] 15) demo_unused = Over ExpiredEnd ow')
   \<and> \<not> (\<exists>ow'. owner_step 10 (OwnerTimeout [] [] 14) demo_unused = Over ExpiredEnd ow')"
  using template_expires_iff_unused [OF demo_unused_owner, of "[]" "[]" "[]" 15]
    template_expires_iff_unused [OF demo_unused_owner, of "[]" "[]" "[]" 14]
  by (simp add: demo_unused_state)

text \<open>
  C36: once every clone has been reported gone, a template that nobody forks does expire: any
  sequence of quiet wake-ups that reaches the end of its time to live ends the owner, with the
  host asked to stop.
\<close>

theorem unused_template_expires:
  assumes "owners ttl ow" "mset (ow_exited ow) = image_mset Some (mset (ow_forked ow))"
    and "\<exists>now \<in> set nows. ow_idle_since ow + ttl \<le> now"
  shows "\<exists>ow'. serve_forks ttl (map (OwnerTimeout [] []) nows) ow = Over ExpiredEnd ow'
           \<and> \<not> ow_alive ow' \<and> owner_fate ExpiredEnd ow' = HostStopped (ow_host ow)"
proof -
  have "ow_children ow = 0"
    using owners_count [OF assms(1)] all_reported_length [OF assms(2)] by simp
  moreover have "serve_forks ttl (map (OwnerTimeout [] []) nows) ow = Over ExpiredEnd (ow\<lparr>ow_alive := False\<rparr>)"
    if "ow_children ow = 0" "\<exists>now \<in> set nows. ow_idle_since ow + ttl \<le> now"
    using that by (induction nows) (auto simp: quiet_timeout)
  ultimately show ?thesis using assms(3) by (auto simp: owner_fate_def)
qed

theorem unused_template_expires_witness:
  "\<exists>ow'. serve_forks 10 (map (OwnerTimeout [] []) [6, 12, 18]) demo_unused = Over ExpiredEnd ow'"
  using unused_template_expires [OF demo_unused_owner, of "[6, 12, 18]"]
  by (auto simp: demo_unused_state)

end
