(* ===== verification/Machines.thy ===== *)
theory Machines
  imports Prelude
begin

text \<open>
  The contract of the step machines of the development: actions that are applied one at a time
  to a state, a history being a list of them. The cache shared by processes, the servers on one
  socket, the tasks of a line of processes, the template pool and the fleet of templates are
  such machines; each interprets \<open>machine\<close> with its own step function and reachability, and a
  machine that another describes in less detail interprets \<open>refinement\<close>.
\<close>

fun run_steps :: "('a \<Rightarrow> 's \<Rightarrow> 's option) \<Rightarrow> 'a list \<Rightarrow> 's \<Rightarrow> 's option" where
  "run_steps step [] s = Some s"
| "run_steps step (a # acts) s = (case step a s of None \<Rightarrow> None | Some s' \<Rightarrow> run_steps step acts s')"

lemma run_steps_append:
  "run_steps step (xs @ ys) s = (case run_steps step xs s of None \<Rightarrow> None | Some s' \<Rightarrow> run_steps step ys s')"
  by (induction xs arbitrary: s) (simp_all split: option.splits)

text \<open>\<open>enabled\<close> is what a history may do at a state, besides what \<open>step\<close> itself refuses.\<close>

locale machine =
  fixes init :: "'s \<Rightarrow> bool"
    and step :: "'a \<Rightarrow> 's \<Rightarrow> 's option"
    and enabled :: "'a \<Rightarrow> 's \<Rightarrow> bool"
    and reach :: "'s \<Rightarrow> bool"
  assumes reach_init: "init s \<Longrightarrow> reach s"
    and reach_step: "reach s \<Longrightarrow> enabled a s \<Longrightarrow> step a s = Some s' \<Longrightarrow> reach s'"
    and reach_induct: "reach s \<Longrightarrow> (\<And>s. init s \<Longrightarrow> P s) \<Longrightarrow>
      (\<And>s a s'. reach s \<Longrightarrow> P s \<Longrightarrow> enabled a s \<Longrightarrow> step a s = Some s' \<Longrightarrow> P s') \<Longrightarrow> P s"
begin

lemma reach_run:
  "reach s \<Longrightarrow> (\<And>a s. a \<in> set acts \<Longrightarrow> enabled a s) \<Longrightarrow> run_steps step acts s = Some s' \<Longrightarrow> reach s'"
proof (induction acts arbitrary: s)
  case (Cons a acts)
  then obtain s1 where "step a s = Some s1" "run_steps step acts s1 = Some s'" by (auto split: option.splits)
  with Cons reach_step [of s a s1] show ?case by auto
qed simp

lemma reached_by_run:
  assumes "reach s"
  shows "\<exists>s0 acts. init s0 \<and> run_steps step acts s0 = Some s"
  using assms
proof (rule reach_induct)
  fix s assume "init s"
  then show "\<exists>s0 acts. init s0 \<and> run_steps step acts s0 = Some s" by (metis run_steps.simps(1))
next
  fix s a s'
  assume "\<exists>s0 acts. init s0 \<and> run_steps step acts s0 = Some s" "step a s = Some s'"
  then obtain s0 acts where "init s0" "run_steps step acts s0 = Some s" by blast
  with \<open>step a s = Some s'\<close> have "init s0" "run_steps step (acts @ [a]) s0 = Some s'"
    by (simp_all add: run_steps_append)
  then show "\<exists>s0 acts. init s0 \<and> run_steps step acts s0 = Some s'" by blast
qed

lemma invariant:
  assumes "\<And>s. init s \<Longrightarrow> Q s" "\<And>s a s'. reach s \<Longrightarrow> Q s \<Longrightarrow> enabled a s \<Longrightarrow> step a s = Some s' \<Longrightarrow> Q s'"
    and "reach s"
  shows "Q s"
  using assms(3) by (rule reach_induct) (fact assms)+

end

text \<open>A step of the detailed machine is no step or one step of the one it refines.\<close>

locale refinement =
  detailed: machine init step enabled reach + plain: machine init' step' enabled' reach'
  for init :: "'s \<Rightarrow> bool" and step :: "'a \<Rightarrow> 's \<Rightarrow> 's option" and enabled and reach
    and init' :: "'t \<Rightarrow> bool" and step' :: "'b \<Rightarrow> 't \<Rightarrow> 't option" and enabled' and reach' +
  fixes abs :: "'s \<Rightarrow> 't"
  assumes abs_init: "init s \<Longrightarrow> init' (abs s)"
    and abs_step: "reach s \<Longrightarrow> enabled a s \<Longrightarrow> step a s = Some s' \<Longrightarrow>
      abs s' = abs s \<or> (\<exists>b. enabled' b (abs s) \<and> step' b (abs s) = Some (abs s'))"
begin

lemma reach_abs: "reach s \<Longrightarrow> reach' (abs s)"
proof (erule detailed.reach_induct)
  fix s a s'
  assume "reach s" "reach' (abs s)" "enabled a s" "step a s = Some s'"
  with abs_step [of s a s'] show "reach' (abs s')" by (auto intro: plain.reach_step)
qed (rule plain.reach_init [OF abs_init])

lemma abs_invariant: "(\<And>t. reach' t \<Longrightarrow> Q t) \<Longrightarrow> reach s \<Longrightarrow> Q (abs s)"
  using reach_abs by blast

lemma run_abs:
  assumes "reach s" "\<And>a s. a \<in> set acts \<Longrightarrow> enabled a s" "run_steps step acts s = Some s'"
  shows "\<exists>acts'. length acts' \<le> length acts \<and> run_steps step' acts' (abs s) = Some (abs s')"
  using assms
proof (induction acts arbitrary: s)
  case Nil
  then show ?case by simp
next
  case (Cons a acts)
  then obtain s1 where s1: "step a s = Some s1" "run_steps step acts s1 = Some s'"
    by (auto split: option.splits)
  have "reach s1" using Cons.prems s1(1) by (auto intro: detailed.reach_step)
  from Cons.IH [OF this _ s1(2)] Cons.prems(2) obtain acts' where
    acts': "length acts' \<le> length acts" "run_steps step' acts' (abs s1) = Some (abs s')" by auto
  show ?case
  proof (cases "abs s1 = abs s")
    case True
    with acts' show ?thesis by (intro exI [of _ acts']) simp
  next
    case False
    then obtain b where "step' b (abs s) = Some (abs s1)"
      using abs_step [OF Cons.prems(1) _ s1(1)] Cons.prems(2) by auto
    with acts' show ?thesis by (intro exI [of _ "b # acts'"]) simp
  qed
qed

end

end
