(* ===== verification/Templates.thy ===== *)
theory Templates
  imports Manifest Api Stores Machines
begin

text \<open>
  The pool of templates a serving manager holds
  (\<open>src/crates/servicecache/src/serve/templates.rs\<close>): slots by key, each an asynchronous mutex
  around the template that fills it. \<open>acquire\<close> and \<open>obtain_template\<close> are what one request
  does; \<open>pool_step\<close> cuts the same work at its suspension points, so that a history is any
  interleaving of requests with expiry, \<open>forget\<close>, \<open>clear\<close> and \<open>prune\<close>.
\<close>

subsection \<open>State\<close>

record template_key =
  tk_name :: string
  tk_version :: string
  tk_recipe :: "byte list option"

definition new_key :: "(byte list \<Rightarrow> byte list) \<Rightarrow> manifest \<Rightarrow> byte list option \<Rightarrow> template_key" where
  "new_key sha256 m recipe =
     \<lparr>tk_name = sv_name (mf_service m), tk_version = sv_version (mf_service m),
      tk_recipe = map_option sha256 recipe\<rparr>"

type_synonym task = nat
type_synonym slot_id = nat
type_synonym template_id = nat

text \<open>Where a request stands inside \<open>obtain\<close>: awaiting a slot's lock, holding it, or filling.\<close>

datatype stage =
    Outside | Waiting template_key slot_id | Holding template_key slot_id | Filling template_key slot_id

text \<open>
  \<open>pl_cells\<close> and \<open>pl_owner\<close> are the contents and the mutex of each slot, \<open>pl_live\<close> the
  \<open>alive\<close> flags; the two counters name slots and templates that do not exist yet.
\<close>

record pool =
  pl_slots :: "(template_key, slot_id) hash_map"
  pl_cells :: "slot_id \<Rightarrow> template_id option"
  pl_owner :: "slot_id \<Rightarrow> task option"
  pl_live :: "template_id \<Rightarrow> bool"
  pl_stage :: "task \<Rightarrow> stage"
  pl_tasks :: "task list"
  pl_next_slot :: slot_id
  pl_next_template :: template_id

definition new_templates :: pool where
  "new_templates =
     \<lparr>pl_slots = [], pl_cells = (\<lambda>_. None), pl_owner = (\<lambda>_. None), pl_live = (\<lambda>_. False),
      pl_stage = (\<lambda>_. Outside), pl_tasks = [], pl_next_slot = 0, pl_next_template = 0\<rparr>"

definition slot :: "template_key \<Rightarrow> pool \<Rightarrow> slot_id \<times> pool" where
  "slot k p =
     (case map_of (pl_slots p) k of
        Some s \<Rightarrow> (s, p)
      | None \<Rightarrow>
          (pl_next_slot p,
           p\<lparr>pl_slots := hm_insert k (pl_next_slot p) (pl_slots p), pl_next_slot := pl_next_slot p + 1\<rparr>))"

definition alive_in :: "slot_id \<Rightarrow> pool \<Rightarrow> template_id option" where
  "alive_in s p =
     (case pl_cells p s of None \<Rightarrow> None | Some t \<Rightarrow> if pl_live p t then Some t else None)"

definition store_filled :: "slot_id \<Rightarrow> pool \<Rightarrow> pool" where
  "store_filled s p =
     p\<lparr>pl_cells := (pl_cells p)(s := Some (pl_next_template p)),
       pl_live := (pl_live p)(pl_next_template p := True), pl_next_template := pl_next_template p + 1\<rparr>"

subsection \<open>One request\<close>

text \<open>
  What a request does with one slot when nothing else runs; \<open>fill\<close> is the outcome of the
  fill it would start.
\<close>

definition acquire ::
  "template_key \<Rightarrow> problem + unit \<Rightarrow> pool \<Rightarrow> (problem + template_id) \<times> pool" where
  "acquire k fill p =
     (let (s, p') = slot k p in
      case alive_in s p' of
        Some t \<Rightarrow> (Inr t, p')
      | None \<Rightarrow>
          (case fill of
             Inl problem \<Rightarrow> (Inl problem, p')
           | Inr _ \<Rightarrow> (Inr (pl_next_template p'), store_filled s p')))"

definition obtain_template ::
  "(byte list \<Rightarrow> byte list) \<Rightarrow> manifest \<Rightarrow> byte list option \<Rightarrow> problem + unit \<Rightarrow> problem + unit
     \<Rightarrow> pool \<Rightarrow> (problem + template_id) \<times> pool" where
  "obtain_template sha256 m recipe fill_base fill_recipe p =
     (case acquire (new_key sha256 m None) fill_base p of
        (Inl problem, p') \<Rightarrow> (Inl problem, p')
      | (Inr base, p') \<Rightarrow>
          (case recipe of
             None \<Rightarrow> (Inr base, p')
           | Some _ \<Rightarrow> acquire (new_key sha256 m recipe) fill_recipe p'))"

definition forget_key :: "template_key \<Rightarrow> pool \<Rightarrow> pool" where
  "forget_key k p = p\<lparr>pl_slots := hm_remove k (pl_slots p)\<rparr>"

definition forget :: "(byte list \<Rightarrow> byte list) \<Rightarrow> manifest \<Rightarrow> byte list option \<Rightarrow> pool \<Rightarrow> pool" where
  "forget sha256 m recipe p = forget_key (new_key sha256 m recipe) p"

definition clear_templates :: "pool \<Rightarrow> pool" where
  "clear_templates p = p\<lparr>pl_slots := []\<rparr>"

text \<open>
  A slot has another strong reference while a request stands at it; \<open>pl_tasks\<close> lists the
  requests there have been. \<open>try_lock\<close> fails on a slot whose mutex is held.
\<close>

definition stands_at :: "stage \<Rightarrow> slot_id \<Rightarrow> bool" where
  "stands_at st s =
     (case st of Outside \<Rightarrow> False | Waiting _ s' \<Rightarrow> s' = s | Holding _ s' \<Rightarrow> s' = s | Filling _ s' \<Rightarrow> s' = s)"

definition prune :: "pool \<Rightarrow> pool" where
  "prune p =
     p\<lparr>pl_slots := hm_retain
         (\<lambda>_ s. list_ex (\<lambda>t. stands_at (pl_stage p t) s) (pl_tasks p)
                \<or> (case pl_owner p s of Some _ \<Rightarrow> True | None \<Rightarrow> alive_in s p \<noteq> None))
         (pl_slots p)\<rparr>"

subsection \<open>Interleaved requests\<close>

text \<open>
  \<open>Cancel\<close> is a request whose future is dropped while it awaits; a dropped guard releases
  the lock.
\<close>

datatype pool_action =
    Ask task template_key | Lock task | Hit task | StartFill task | FillOk task | FillErr task
  | Cancel task | Expire template_id | Forget template_key | Clear | Prune

definition leave :: "task \<Rightarrow> slot_id \<Rightarrow> pool \<Rightarrow> pool" where
  "leave t s p = p\<lparr>pl_owner := (pl_owner p)(s := None), pl_stage := (pl_stage p)(t := Outside)\<rparr>"

fun pool_step :: "pool_action \<Rightarrow> pool \<Rightarrow> pool option" where
  "pool_step (Ask t k) p =
     (if pl_stage p t = Outside
      then (let (s, p') = slot k p in
            Some (p'\<lparr>pl_stage := (pl_stage p')(t := Waiting k s), pl_tasks := t # pl_tasks p'\<rparr>))
      else None)"
| "pool_step (Lock t) p =
     (case pl_stage p t of
        Waiting k s \<Rightarrow>
          if pl_owner p s = None
          then Some (p\<lparr>pl_owner := (pl_owner p)(s \<mapsto> t), pl_stage := (pl_stage p)(t := Holding k s)\<rparr>)
          else None
      | _ \<Rightarrow> None)"
| "pool_step (Hit t) p =
     (case pl_stage p t of
        Holding k s \<Rightarrow> if alive_in s p = None then None else Some (leave t s p)
      | _ \<Rightarrow> None)"
| "pool_step (StartFill t) p =
     (case pl_stage p t of
        Holding k s \<Rightarrow>
          if alive_in s p = None then Some (p\<lparr>pl_stage := (pl_stage p)(t := Filling k s)\<rparr>) else None
      | _ \<Rightarrow> None)"
| "pool_step (FillOk t) p =
     (case pl_stage p t of Filling k s \<Rightarrow> Some (leave t s (store_filled s p)) | _ \<Rightarrow> None)"
| "pool_step (FillErr t) p =
     (case pl_stage p t of Filling k s \<Rightarrow> Some (leave t s p) | _ \<Rightarrow> None)"
| "pool_step (Cancel t) p =
     (case pl_stage p t of
        Waiting k s \<Rightarrow> Some (p\<lparr>pl_stage := (pl_stage p)(t := Outside)\<rparr>)
      | Filling k s \<Rightarrow> Some (leave t s p)
      | _ \<Rightarrow> None)"
| "pool_step (Expire tpl) p = Some (p\<lparr>pl_live := (pl_live p)(tpl := False)\<rparr>)"
| "pool_step (Forget k) p = Some (forget_key k p)"
| "pool_step Clear p = Some (clear_templates p)"
| "pool_step Prune p = Some (prune p)"

abbreviation pool_run :: "pool_action list \<Rightarrow> pool \<Rightarrow> pool option" where
  "pool_run \<equiv> run_steps pool_step"

inductive pools :: "(pool_action \<Rightarrow> bool) \<Rightarrow> pool \<Rightarrow> bool" for allowed where
  pools_new: "pools allowed new_templates"
| pools_step: "pools allowed p \<Longrightarrow> allowed a \<Longrightarrow> pool_step a p = Some p' \<Longrightarrow> pools allowed p'"

interpretation pool: machine "\<lambda>p. p = new_templates" pool_step "\<lambda>a _. allowed a" "pools allowed" for allowed
proof
  fix P :: "pool \<Rightarrow> bool" and p
  assume "pools allowed p" and P: "\<And>p. p = new_templates \<Longrightarrow> P p"
    "\<And>p a p'. pools allowed p \<Longrightarrow> P p \<Longrightarrow> allowed a \<Longrightarrow> pool_step a p = Some p' \<Longrightarrow> P p'"
  then show "P p" by (induction rule: pools.induct) blast+
qed (auto intro: pools.intros)

subsection \<open>The invariant\<close>

text \<open>
  Slots belong to one key each, a lock is held by the request that says so, templates are
  older than the counter, and a slot being filled has no live template.
\<close>

definition at_slot :: "stage \<Rightarrow> template_key \<Rightarrow> slot_id \<Rightarrow> bool" where
  "at_slot st k s = (st = Waiting k s \<or> st = Holding k s \<or> st = Filling k s)"

definition pool_inv :: "pool \<Rightarrow> bool" where
  "pool_inv p =
     (hm_wf (pl_slots p)
      \<and> (\<forall>k s. map_of (pl_slots p) k = Some s \<longrightarrow> s < pl_next_slot p)
      \<and> (\<forall>k k' s. map_of (pl_slots p) k = Some s \<longrightarrow> map_of (pl_slots p) k' = Some s \<longrightarrow> k = k')
      \<and> (\<forall>t k s. at_slot (pl_stage p t) k s \<longrightarrow>
           s < pl_next_slot p \<and> t \<in> set (pl_tasks p)
           \<and> (\<forall>k'. map_of (pl_slots p) k' = Some s \<longrightarrow> k' = k))
      \<and> (\<forall>t k s. pl_stage p t = Holding k s \<or> pl_stage p t = Filling k s \<longrightarrow> pl_owner p s = Some t)
      \<and> (\<forall>s. pl_cells p s \<noteq> None \<longrightarrow> s < pl_next_slot p)
      \<and> (\<forall>s tpl. pl_cells p s = Some tpl \<longrightarrow> tpl < pl_next_template p)
      \<and> (\<forall>t k s. pl_stage p t = Filling k s \<longrightarrow> alive_in s p = None))"

lemma at_slot_simps [simp]:
  "\<not> at_slot Outside k s" "at_slot (Waiting k' s') k s \<longleftrightarrow> k = k' \<and> s = s'"
  "at_slot (Holding k' s') k s \<longleftrightarrow> k = k' \<and> s = s'" "at_slot (Filling k' s') k s \<longleftrightarrow> k = k' \<and> s = s'"
  by (auto simp: at_slot_def)

lemma alive_in_updates [simp]:
  "alive_in s (p\<lparr>pl_slots := m\<rparr>) = alive_in s p" "alive_in s (p\<lparr>pl_owner := oo\<rparr>) = alive_in s p"
  "alive_in s (p\<lparr>pl_stage := st\<rparr>) = alive_in s p" "alive_in s (p\<lparr>pl_tasks := ts\<rparr>) = alive_in s p"
  "alive_in s (p\<lparr>pl_next_slot := n\<rparr>) = alive_in s p"
  by (simp_all add: alive_in_def split: option.splits)

lemma slot_cases:
  assumes "slot k p = (s, p')"
  obtains (present) "map_of (pl_slots p) k = Some s" "p' = p"
  | (absent) "map_of (pl_slots p) k = None" "s = pl_next_slot p"
    "p' = p\<lparr>pl_slots := hm_insert k (pl_next_slot p) (pl_slots p), pl_next_slot := pl_next_slot p + 1\<rparr>"
  using assms by (auto simp: slot_def split: option.splits)

lemma map_of_hm_insert [simp]: "map_of (hm_insert k v m) = (map_of m)(k \<mapsto> v)"
  by (simp add: hm_insert_def update_conv')

lemma map_of_hm_remove [simp]: "map_of (hm_remove k m) = (map_of m)(k := None)"
  by (simp add: hm_remove_def map_of_filter_key)

lemma inv_fewer_slots:
  "pool_inv p \<Longrightarrow> hm_wf m \<Longrightarrow> (\<And>k s. map_of m k = Some s \<Longrightarrow> map_of (pl_slots p) k = Some s) \<Longrightarrow>
     pool_inv (p\<lparr>pl_slots := m\<rparr>)"
  unfolding pool_inv_def by simp blast

lemma pool_invD:
  assumes "pool_inv p"
  shows "hm_wf (pl_slots p)" "map_of (pl_slots p) k = Some s \<Longrightarrow> s < pl_next_slot p"
    "map_of (pl_slots p) k = Some s \<Longrightarrow> map_of (pl_slots p) k' = Some s \<Longrightarrow> k = k'"
    "at_slot (pl_stage p t) k s \<Longrightarrow> s < pl_next_slot p" "at_slot (pl_stage p t) k s \<Longrightarrow> t \<in> set (pl_tasks p)"
    "at_slot (pl_stage p t) k s \<Longrightarrow> map_of (pl_slots p) k' = Some s \<Longrightarrow> k' = k"
    "pl_stage p t = Holding k s \<or> pl_stage p t = Filling k s \<Longrightarrow> pl_owner p s = Some t"
    "pl_cells p s = Some tpl \<Longrightarrow> s < pl_next_slot p \<and> tpl < pl_next_template p"
    "pl_stage p t = Filling k s \<Longrightarrow> alive_in s p = None"
  using assms unfolding pool_inv_def by blast+

lemma inv_fresh_slot:
  assumes "pool_inv p" "map_of (pl_slots p) k = None"
  shows "pool_inv (p\<lparr>pl_slots := hm_insert k (pl_next_slot p) (pl_slots p), pl_next_slot := pl_next_slot p + 1\<rparr>)"
proof -
  have "\<not> at_slot (pl_stage p t) k' (pl_next_slot p)" "map_of (pl_slots p) k' \<noteq> Some (pl_next_slot p)" for t k'
    using pool_invD(2) [OF assms(1), of k'] pool_invD(4) [OF assms(1), of t k'] by blast+
  with assms show ?thesis
    by (auto simp: pool_inv_def hm_wf_insert less_Suc_eq split: if_splits)
qed

lemma inv_new_slot:
  "pool_inv p \<Longrightarrow> slot k p = (s, p') \<Longrightarrow>
     pool_inv p' \<and> map_of (pl_slots p') k = Some s \<and> pl_stage p' = pl_stage p \<and> pl_owner p' = pl_owner p
     \<and> pl_cells p' = pl_cells p \<and> pl_live p' = pl_live p \<and> pl_tasks p' = pl_tasks p
     \<and> pl_next_template p' = pl_next_template p"
  by (erule slot_cases) (auto dest: inv_fresh_slot)

lemma inv_leave:
  "pool_inv p \<Longrightarrow> at_slot (pl_stage p t) k s \<Longrightarrow> pl_owner p s = Some t \<Longrightarrow> pool_inv (leave t s p)"
  unfolding pool_inv_def leave_def by auto

lemma inv_store_filled:
  assumes "pool_inv p" "pl_stage p t = Filling k s"
  shows "pool_inv (leave t s (store_filled s p))"
proof -
  have alive: "alive_in s' (leave t s (store_filled s p)) = alive_in s' p" if "s' \<noteq> s" for s'
    using pool_invD(8) [OF assms(1), of s'] that
    by (auto simp: alive_in_def leave_def store_filled_def split: option.splits)
  have own: "pl_owner p s = Some t" and s: "s < pl_next_slot p"
    using pool_invD(4,7) [OF assms(1), of t k s] assms(2) by auto
  have other: "s' \<noteq> s" if "pl_stage p t' = Filling k' s' \<or> pl_stage p t' = Holding k' s'" "t' \<noteq> t" for t' k' s'
    using pool_invD(7) [OF assms(1), of t' k' s'] own that by auto
  let ?p = "leave t s (store_filled s p)"
  have same: "pl_slots ?p = pl_slots p" "pl_next_slot ?p = pl_next_slot p" "pl_tasks ?p = pl_tasks p"
    "pl_stage ?p = (pl_stage p)(t := Outside)" "pl_owner ?p = (pl_owner p)(s := None)"
    "pl_cells ?p = (pl_cells p)(s \<mapsto> pl_next_template p)" "pl_next_template ?p = pl_next_template p + 1"
    by (simp_all add: leave_def store_filled_def)
  have filling: "alive_in s' ?p = None" if "pl_stage p t' = Filling k' s'" "t' \<noteq> t" for t' k' s'
    using alive [of s'] other [of t' k' s'] pool_invD(9) [OF assms(1), of t' k' s'] that by simp
  show ?thesis
    unfolding pool_inv_def same
    using assms(1) s other filling
    by (intro conjI) (auto simp: pool_inv_def less_Suc_eq split: if_splits)
qed

lemma inv_expire: "pool_inv p \<Longrightarrow> pool_inv (p\<lparr>pl_live := (pl_live p)(tpl := False)\<rparr>)"
  unfolding pool_inv_def alive_in_def by (auto split: option.splits if_splits)

lemma inv_prune: "pool_inv p \<Longrightarrow> pool_inv (prune p)"
  unfolding prune_def
  by (rule inv_fewer_slots)
    (auto simp: hm_retain_def hm_wf_filter map_of_retain [unfolded hm_retain_def] dest: pool_invD(1)
      split: option.splits if_splits)

lemma inv_stage:
  assumes "pool_inv p" "at_slot (pl_stage p t) k s" "st = Outside \<or> st = Filling k s \<and> alive_in s p = None"
    and "st = Filling k s \<Longrightarrow> pl_owner p s = Some t"
  shows "pool_inv (p\<lparr>pl_stage := (pl_stage p)(t := st)\<rparr>)"
  using assms pool_invD(4,5,6) [OF assms(1,2)] unfolding pool_inv_def by auto

lemma inv_lock:
  assumes "pool_inv p" "pl_stage p t = Waiting k s" "pl_owner p s = None"
  shows "pool_inv (p\<lparr>pl_owner := (pl_owner p)(s \<mapsto> t), pl_stage := (pl_stage p)(t := Holding k s)\<rparr>)"
  using assms pool_invD(4,5,6) [OF assms(1), of t k s] unfolding pool_inv_def by auto

lemma inv_ask:
  assumes "pool_inv p" "map_of (pl_slots p) k = Some s"
  shows "pool_inv (p\<lparr>pl_stage := (pl_stage p)(t := Waiting k s), pl_tasks := t # pl_tasks p\<rparr>)"
  using assms pool_invD(2,3) [OF assms] unfolding pool_inv_def by auto

lemma inv_forget: "pool_inv p \<Longrightarrow> pool_inv (forget_key k p)"
  unfolding forget_key_def
  by (rule inv_fewer_slots) (auto simp: hash.wf_remove pool_invD(1) split: if_splits)

lemma pool_step_inv:
  assumes "pool_inv p" "pool_step a p = Some p'"
  shows "pool_inv p'"
proof (cases a)
  case (Ask t k)
  obtain s p1 where slot: "slot k p = (s, p1)" by (meson surj_pair)
  with inv_new_slot [OF assms(1)] have "pool_inv p1" "map_of (pl_slots p1) k = Some s" by auto
  with inv_ask assms(2) Ask slot show ?thesis by (auto split: if_splits)
next
  case (FillOk t)
  with assms inv_store_filled show ?thesis by (auto split: stage.splits)
next
  case (FillErr t)
  with assms pool_invD(7) [OF assms(1)] inv_leave [OF assms(1)] show ?thesis by (fastforce split: stage.splits)
next
  case (Hit t)
  with assms pool_invD(7) [OF assms(1)] inv_leave [OF assms(1)] show ?thesis
    by (fastforce split: stage.splits if_splits)
next
  case (Cancel t)
  with assms pool_invD(7) [OF assms(1)] inv_leave [OF assms(1)] inv_stage [OF assms(1), of t]
  show ?thesis by (fastforce split: stage.splits)
next
  case (StartFill t)
  with assms pool_invD(7) [OF assms(1)] inv_stage [OF assms(1), of t] show ?thesis
    by (fastforce split: stage.splits if_splits)
qed (use assms in \<open>auto simp: clear_templates_def hm_wf_def inv_expire inv_prune inv_forget
      intro: inv_lock inv_fewer_slots split: stage.splits if_splits\<close>)

lemma new_templates_inv: "pool_inv new_templates"
  by (simp add: pool_inv_def new_templates_def hm_wf_def at_slot_def)

lemma pools_inv: "pools allowed p \<Longrightarrow> pool_inv p"
  by (rule pool.invariant [where Q = pool_inv]) (auto simp: new_templates_inv simp del: pool_step.simps intro: pool_step_inv)

subsection \<open>What stays at a key\<close>

definition template_at :: "template_key \<Rightarrow> pool \<Rightarrow> template_id option" where
  "template_at k p = (case map_of (pl_slots p) k of None \<Rightarrow> None | Some s \<Rightarrow> alive_in s p)"

lemma template_at_Some:
  "template_at k p = Some tpl \<longleftrightarrow>
     (\<exists>s. map_of (pl_slots p) k = Some s \<and> pl_cells p s = Some tpl \<and> pl_live p tpl)"
  by (auto simp: template_at_def alive_in_def split: option.splits if_splits)

lemma asker_has_the_slot:
  assumes "pools (\<lambda>a. a \<noteq> Forget k \<and> a \<noteq> Clear) p" "at_slot (pl_stage p t) k s"
  shows "map_of (pl_slots p) k = Some s"
  using assms
proof (induction arbitrary: t s rule: pools.induct)
  case pools_new
  then show ?case by (simp add: new_templates_def)
next
  case (pools_step p a p')
  note inv = pools_inv [OF pools_step.hyps(1)]
  show ?case
  proof (cases a)
    case (Ask t' k')
    obtain s1 p1 where slot: "slot k' p = (s1, p1)" by (meson surj_pair)
    with pools_step Ask show ?thesis
      by (cases rule: slot_cases [OF slot]) (auto split: if_splits)
  next
    case Prune
    have "t \<in> set (pl_tasks p)" "at_slot (pl_stage p t) k s"
      using pools_step.hyps(3) pools_step.prems pool_invD(5) [OF inv] Prune by (auto simp: prune_def)
    moreover from this have "stands_at (pl_stage p t) s"
      by (auto simp: at_slot_def stands_at_def)
    ultimately show ?thesis
      using pools_step.IH pools_step.hyps(3) Prune
      by (auto simp: prune_def map_of_retain [OF pool_invD(1) [OF inv]] list_ex_iff)
  next
    case (Forget k')
    with pools_step show ?thesis by (auto simp: forget_key_def)
  next
    case (Lock t')
    with pools_step show ?thesis by (fastforce simp: at_slot_def split: stage.splits if_splits)
  next
    case (StartFill t')
    with pools_step show ?thesis by (fastforce simp: at_slot_def split: stage.splits if_splits)
  qed (use pools_step in \<open>auto simp: leave_def store_filled_def split: stage.splits if_splits\<close>)
qed

lemma owned_other_slot:
  assumes "pool_inv p" "pl_stage p t = Filling k' s'" "template_at k p = Some tpl" "map_of (pl_slots p) k = Some s"
  shows "s \<noteq> s'"
  using pool_invD(9) [OF assms(1,2)] assms(3,4) by (auto simp: template_at_def)

lemma pools_run:
  "pools allowed p \<Longrightarrow> list_all allowed acts \<Longrightarrow> pool_run acts p = Some p' \<Longrightarrow> pools allowed p'"
  by (rule pool.reach_run) (auto simp: list_all_iff)

lemma template_stays:
  assumes "pools allowed p" "pool_step a p = Some p'" "template_at k p = Some tpl"
    and "a \<noteq> Expire tpl" "a \<noteq> Forget k" "a \<noteq> Clear"
  shows "template_at k p' = Some tpl"
proof -
  note inv = pools_inv [OF assms(1)]
  from assms(3) obtain s where s: "map_of (pl_slots p) k = Some s" "pl_cells p s = Some tpl" "pl_live p tpl"
    by (auto simp: template_at_Some)
  have alive: "alive_in s p = Some tpl" using s by (simp add: alive_in_def)
  show ?thesis
  proof (cases a)
    case (Ask t k')
    obtain s1 p1 where slot: "slot k' p = (s1, p1)" by (meson surj_pair)
    with assms Ask s show ?thesis
      by (cases rule: slot_cases [OF slot]) (auto simp: template_at_Some split: if_splits)
  next
    case (FillOk t)
    then obtain k' s' where t: "pl_stage p t = Filling k' s'" "p' = leave t s' (store_filled s' p)"
      using assms(2) by (auto split: stage.splits)
    with owned_other_slot [OF inv t(1) assms(3) s(1)] s show ?thesis
      by (auto simp: template_at_Some leave_def store_filled_def)
  next
    case Prune
    with assms(2) s alive show ?thesis
      by (auto simp: template_at_Some prune_def map_of_retain [OF pool_invD(1) [OF inv]] split: option.splits)
  qed (use assms s in \<open>auto simp: template_at_Some leave_def forget_key_def split: stage.splits if_splits\<close>)
qed

subsection \<open>Properties\<close>

text \<open>A key, and a history in which request 0 fills it while request 1 waits.\<close>

definition demo_key :: template_key where
  "demo_key = \<lparr>tk_name = ''redis'', tk_version = ''7'', tk_recipe = None\<rparr>"

definition demo_filling :: pool where
  "demo_filling = the (pool_run [Ask 0 demo_key, Lock 0, StartFill 0, Ask 1 demo_key] new_templates)"

definition demo_filled :: pool where
  "demo_filled = the (pool_run [FillOk 0, Lock 1] demo_filling)"

lemmas pool_simps = slot_def alive_in_def store_filled_def leave_def new_templates_def

lemma demo_filling_run:
  "pool_run [Ask 0 demo_key, Lock 0, StartFill 0, Ask 1 demo_key] new_templates = Some demo_filling"
  "pl_stage demo_filling 0 = Filling demo_key 0" "pl_stage demo_filling 1 = Waiting demo_key 0"
  by (simp_all add: demo_filling_def pool_simps)

lemma demo_filled_run:
  "pool_run [FillOk 0, Lock 1] demo_filling = Some demo_filled"
  "template_at demo_key demo_filled = Some 0" "pool_step (Hit 1) demo_filled \<noteq> None"
  by (simp_all add: demo_filled_def demo_filling_def pool_simps template_at_def)

lemma demo_filling_pools: "pools (\<lambda>a. a \<noteq> Forget demo_key \<and> a \<noteq> Clear) demo_filling"
  by (rule pools_run [OF pools_new _ demo_filling_run(1)]) simp

lemma demo_filled_pools: "pools (\<lambda>a. a \<noteq> Forget demo_key \<and> a \<noteq> Clear) demo_filled"
  by (rule pools_run [OF demo_filling_pools _ demo_filled_run(1)]) simp

text \<open>
  Forgetting a key while its slot is being filled gives the next request a slot of its own, so
  two fills of one key then run at once.
\<close>

lemma forget_allows_a_second_fill:
  "\<exists>p. pools (\<lambda>_. True) p \<and> pl_stage p 0 = Filling demo_key 0 \<and> pl_stage p 1 = Filling demo_key 1"
proof -
  let ?acts = "[Ask 0 demo_key, Lock 0, StartFill 0, Forget demo_key, Ask 1 demo_key, Lock 1, StartFill 1]"
  let ?p = "the (pool_run ?acts new_templates)"
  have "pools (\<lambda>_. True) ?p"
    by (rule pools_run [OF pools_new, of _ ?acts]) (simp_all add: pool_simps forget_key_def)
  moreover have "pl_stage ?p 0 = Filling demo_key 0 \<and> pl_stage ?p 1 = Filling demo_key 1"
    by (simp add: pool_simps forget_key_def)
  ultimately show ?thesis by blast
qed

text \<open>
  C17: a live template stays the template of its key through every interleaving of requests:
  no other request's ask, lock, fill, failure or cancellation replaces it and \<open>prune\<close> leaves
  it, until it expires, its key is forgotten or the pool is cleared. So every request for the
  key forks the same template.
\<close>

theorem live_template_kept:
  assumes "pools allowed p" "pool_step a p = Some p'" "template_at k p = Some tpl"
    and "a \<noteq> Expire tpl" "a \<noteq> Forget k" "a \<noteq> Clear"
  shows "template_at k p' = Some tpl"
  using assms by (rule template_stays)

theorem live_template_kept_witness:
  "\<exists>p'. pool_step (Hit 1) demo_filled = Some p' \<and> template_at demo_key p' = Some 0"
proof -
  obtain p' where "pool_step (Hit 1) demo_filled = Some p'"
    using demo_filled_run(3) by blast
  with live_template_kept [OF demo_filled_pools this demo_filled_run(2)] show ?thesis by simp
qed

text \<open>
  C18: as long as a key is not forgotten and the pool not cleared, at most one request at a
  time fills that key, however many ask for it, are cancelled or fail.
\<close>

theorem one_fill_per_key:
  assumes "pools (\<lambda>a. a \<noteq> Forget k \<and> a \<noteq> Clear) p"
    and "pl_stage p t = Filling k s" "pl_stage p t' = Filling k s'"
  shows "t = t'"
proof -
  have "map_of (pl_slots p) k = Some s" "map_of (pl_slots p) k = Some s'"
    using asker_has_the_slot [OF assms(1)] assms(2,3) by (auto simp: at_slot_def)
  then have "pl_owner p s = Some t" "pl_owner p s = Some t'"
    using pool_invD(7) [OF pools_inv [OF assms(1)]] assms(2,3) by auto
  then show ?thesis by simp
qed

theorem one_fill_per_key_witness:
  "pl_stage demo_filling 0 = Filling demo_key 0 \<and> pl_stage demo_filling 1 \<noteq> Filling demo_key 0"
  using one_fill_per_key [OF demo_filling_pools, of 0 0 1 0] demo_filling_run by auto

text \<open>
  A request that runs alone does what \<open>acquire\<close> says by the steps of the interleaved
  model: ask, lock, and then either use the live template or fill the slot.
\<close>

theorem acquire_is_a_run:
  assumes "slot k p = (s, p1)" "pl_stage p t = Outside" "pl_owner p s = None"
  shows "pool_run
      ([Ask t k, Lock t]
       @ (if alive_in s p1 \<noteq> None then [Hit t]
          else [StartFill t, case fill of Inl _ \<Rightarrow> FillErr t | Inr _ \<Rightarrow> FillOk t])) p
    = Some ((snd (acquire k fill p))\<lparr>pl_tasks := t # pl_tasks p\<rparr>)"
proof -
  have p1: "pl_stage p1 = pl_stage p" "pl_owner p1 = pl_owner p" "pl_tasks p1 = pl_tasks p"
    by (rule slot_cases [OF assms(1)]; simp)+
  have idem: "(pl_stage p)(t := Outside) = pl_stage p" "(pl_owner p)(s := None) = pl_owner p"
    using assms by (simp_all add: fun_upd_idem)
  show ?thesis
    using assms p1 idem
    by (cases fill)
      (auto simp: acquire_def leave_def store_filled_def split: option.splits)
qed

theorem acquire_is_a_run_witness:
  "pool_run [Ask 5 demo_key, Lock 5, StartFill 5, FillOk 5] new_templates
     = Some ((snd (acquire demo_key (Inr ()) new_templates))\<lparr>pl_tasks := [5]\<rparr>)"
  using acquire_is_a_run
    [of demo_key new_templates 0 "snd (slot demo_key new_templates)" 5 "Inr ()"]
  by (simp add: pool_simps)

end
