(* ===== verification/Serve.thy ===== *)
theory Serve
  imports Discovery Recipes Owner Templates
begin

text \<open>
  The HTTP server (\<open>src/crates/servicecache/src/serve/mod.rs\<close>): its handlers over the index,
  the registry and the pool of templates, the sweeper, and the claim on its socket. What the
  JSON decoder, the file system, the clock and the hosts answer while a request is handled is
  the record of its environment.
\<close>

subsection \<open>Constants and state\<close>

definition DEFAULT_TTL :: duration where
  "DEFAULT_TTL = 300 * SECOND"

definition DEFAULT_TEMPLATE_TTL :: duration where
  "DEFAULT_TEMPLATE_TTL = 300 * SECOND"

definition MAX_TTL_SECONDS :: nat where
  "MAX_TTL_SECONDS = 86400"

definition MAX_BODY :: nat where
  "MAX_BODY = 512 * 1024 * 1024"

record app =
  ap_services :: service_index
  ap_registry :: registry
  ap_templates :: pool
  ap_recipe_roots :: roots

subsection \<open>Checks on a request\<close>

definition ttl_duration :: "nat option \<Rightarrow> problem + duration option" where
  "ttl_duration seconds =
     (case seconds of
        None \<Rightarrow> Inr None
      | Some n \<Rightarrow>
          if 1 \<le> n \<and> n \<le> MAX_TTL_SECONDS then Inr (Some (int n * SECOND)) else Inl (invalid_ttl n))"

text \<open>\<open>new_id\<close>, from the bytes read from \<open>/dev/urandom\<close>.\<close>

definition new_id :: "string + byte list \<Rightarrow> string + string" where
  "new_id random = and_then random (\<lambda>bytes. Inr (concat (map hex2 bytes)))"

record fork_attempt =
  at_base_thread :: "string option"
  at_base_died :: bool
  at_base :: bring_up
  at_recipe_fork :: "bool \<times> (manager_error + (host_process \<times> sockaddr)) option"
  at_recipe_thread :: "string option"
  at_recipe_died :: bool
  at_recipe :: bring_up
  at_fork :: "bool \<times> (manager_error + (host_process \<times> sockaddr)) option"

record create_env =
  ce_json :: "byte list \<Rightarrow> string + create_instance_body"
  ce_unbase64 :: "string \<Rightarrow> string + byte list"
  ce_sha256 :: "byte list \<Rightarrow> byte list"
  ce_open :: open_file
  ce_reader_died :: bool
  ce_euid :: nat
  ce_peer :: "nat option"
  ce_random :: "string + byte list"
  ce_first :: fork_attempt
  ce_second :: fork_attempt
  ce_pipe :: "io_error option"
  ce_thread :: "io_error option"
  ce_io_text :: "io_error \<Rightarrow> string"
  ce_adopted :: instant
  ce_described :: instant

definition recipe_bytes ::
  "create_env \<Rightarrow> roots \<Rightarrow> create_instance_body \<Rightarrow> problem + byte list option" where
  "recipe_bytes env roots request =
     (case (ci_recipe request, ci_recipe_files request) of
        (None, []) \<Rightarrow> Inr None
      | (Some _, _ # _) \<Rightarrow> Inl (invalid_body ''give recipe or recipe_files, not both'')
      | (Some recipe, []) \<Rightarrow> and_then (decode_recipe (ce_unbase64 env) recipe) (\<lambda>bytes. Inr (Some bytes))
      | (None, files) \<Rightarrow>
          if roots = []
          then Inl (recipe_files_refused ''the server was not started with --recipe-root'')
          else if ce_peer env \<noteq> Some (ce_euid env)
          then Inl (recipe_files_refused ''recipe files are accepted only from the server's own user'')
          else if ce_reader_died env then Inl (internal ''the recipe reader died'')
          else and_then (read_recipe_files roots (ce_open env) files MAX_PAYLOAD_LEN)
                 (\<lambda>bytes. Inr (Some bytes)))"

definition select_service :: "service_index \<Rightarrow> create_instance_body \<Rightarrow> problem + manifest" where
  "select_service index request =
     (case select index (ci_service request) (ci_version request) of
        Inl SelectNotFound \<Rightarrow> Inl (unknown_service (ci_service request) (ci_version request))
      | Inl (Ambiguous versions) \<Rightarrow> Inl (ambiguous_version (ci_service request) versions)
      | Inr m \<Rightarrow> Inr m)"

text \<open>The part of \<open>create_instance\<close> before the first template is asked for.\<close>

definition admit ::
  "create_env \<Rightarrow> app \<Rightarrow> byte list \<Rightarrow> problem + (duration \<times> byte list option \<times> manifest \<times> string)" where
  "admit env app body =
     (case ce_json env body of
        Inl e \<Rightarrow> Inl (invalid_body e)
      | Inr request \<Rightarrow>
          and_then (ttl_duration (ci_ttl_seconds request)) (\<lambda>ttl.
          and_then (recipe_bytes env (ap_recipe_roots app) request) (\<lambda>recipe.
          and_then (select_service (ap_services app) request) (\<lambda>m.
            if recipe \<noteq> None \<and> mf_initializer m = None then Inl (no_initializer (ci_service request))
            else (case new_id (ce_random env) of
                    Inl e \<Rightarrow> Inl (internal e)
                  | Inr ident \<Rightarrow>
                      Inr (case ttl of None \<Rightarrow> DEFAULT_TTL | Some t \<Rightarrow> t, recipe, m, ident))))))"

subsection \<open>Handlers\<close>

definition obtain_for ::
  "create_env \<Rightarrow> fork_attempt \<Rightarrow> manifest \<Rightarrow> byte list option \<Rightarrow> pool \<Rightarrow> (problem + template_id) \<times> pool" where
  "obtain_for env att m recipe p =
     obtain_template (ce_sha256 env) m recipe
       (fill_base (at_base_thread att) (at_base_died att) (mf_prepare m \<noteq> None) (at_base att))
       (case recipe of
          None \<Rightarrow> Inr ()
        | Some bytes \<Rightarrow>
            fill_recipe (case_prod template_fork (at_recipe_fork att)) (at_recipe_thread att)
              (at_recipe_died att) bytes (at_recipe att))
       p"

definition fork_instance ::
  "create_env \<Rightarrow> manifest \<Rightarrow> byte list option \<Rightarrow> pool \<Rightarrow> (problem + (host_process \<times> sockaddr)) \<times> pool" where
  "fork_instance env m recipe p =
     (case obtain_for env (ce_first env) m recipe p of
        (Inl problem, p1) \<Rightarrow> (Inl problem, p1)
      | (Inr _, p1) \<Rightarrow>
          (case case_prod template_fork (at_fork (ce_first env)) of
             Inr forked \<Rightarrow> (Inr forked, p1)
           | Inl _ \<Rightarrow>
               (case obtain_for env (ce_second env) m recipe (forget (ce_sha256 env) m recipe p1) of
                  (Inl problem, p2) \<Rightarrow> (Inl problem, p2)
                | (Inr _, p2) \<Rightarrow> (case_prod template_fork (at_fork (ce_second env)), p2))))"

definition create_instance ::
  "create_env \<Rightarrow> byte list \<Rightarrow> app \<Rightarrow> (problem + (string \<times> api_instance)) \<times> app" where
  "create_instance env body app =
     (case admit env app body of
        Inl problem \<Rightarrow> (Inl problem, app)
      | Inr (ttl, recipe, m, ident) \<Rightarrow>
          (case fork_instance env m recipe (ap_templates app) of
             (Inl problem, p) \<Rightarrow> (Inl problem, app\<lparr>ap_templates := p\<rparr>)
           | (Inr (host, ep), p) \<Rightarrow>
               (case adopt (ce_pipe env) (ce_thread env) ident (sv_name (mf_service m))
                       (sv_version (mf_service m)) ep ttl (ce_adopted env) of
                  Inl e \<Rightarrow> (Inl (internal (ce_io_text env e)), app\<lparr>ap_templates := p\<rparr>)
                | Inr entry \<Rightarrow>
                    (Inr (''/v1/instances/'' @ ident, describe (ce_described env) entry),
                     app\<lparr>ap_templates := p, ap_registry := registry_insert entry (ap_registry app)\<rparr>))))"

definition list_services :: "app \<Rightarrow> service_entry list" where
  "list_services app =
     map (\<lambda>p. \<lparr>se_name = sv_name (mf_service (dp_manifest p)), se_version = sv_version (mf_service (dp_manifest p))\<rparr>)
       (iter_packages (ap_services app))"

definition list_instances :: "instant \<Rightarrow> app \<Rightarrow> api_instance list" where
  "list_instances now app = map (describe now) (registry_list (ap_registry app))"

definition get_instance :: "instant \<Rightarrow> string \<Rightarrow> app \<Rightarrow> problem + api_instance" where
  "get_instance now ident app =
     (case registry_get ident (ap_registry app) of
        None \<Rightarrow> Inl (unknown_instance ident)
      | Some entry \<Rightarrow> Inr (describe now entry))"

definition delete_instance :: "string \<Rightarrow> app \<Rightarrow> (problem + unit) \<times> app" where
  "delete_instance ident app =
     (case registry_remove ident (ap_registry app) of
        (None, _) \<Rightarrow> (Inl (unknown_instance ident), app)
      | (Some _, r) \<Rightarrow> (Inr (), app\<lparr>ap_registry := r\<rparr>))"

text \<open>
  \<open>renew_instance\<close> up to the lookup, and on the entry found, which the handler holds by its
  own reference.
\<close>

definition renew_ttl ::
  "(byte list \<Rightarrow> string + renew_instance_body) \<Rightarrow> byte list \<Rightarrow> problem + duration option" where
  "renew_ttl json body =
     (if body = [] then ttl_duration None
      else case json body of
             Inl e \<Rightarrow> Inl (invalid_body e)
           | Inr request \<Rightarrow> ttl_duration (ri_ttl_seconds request))"

definition renew_found :: "instant \<Rightarrow> instant \<Rightarrow> duration option \<Rightarrow> entry \<Rightarrow> problem + (api_instance \<times> entry)" where
  "renew_found now now' ttl e =
     (if en_state e \<noteq> GuestRunning then Inl (instance_exited (en_id e))
      else Inr (describe now' (renew now ttl e), renew now ttl e))"

definition renew_instance ::
  "(byte list \<Rightarrow> string + renew_instance_body) \<Rightarrow> instant \<Rightarrow> instant \<Rightarrow> string \<Rightarrow> byte list \<Rightarrow> app
     \<Rightarrow> (problem + api_instance) \<times> app" where
  "renew_instance json now now' ident body app =
     (case renew_ttl json body of
        Inl problem \<Rightarrow> (Inl problem, app)
      | Inr ttl \<Rightarrow>
          (case registry_get ident (ap_registry app) of
             None \<Rightarrow> (Inl (unknown_instance ident), app)
           | Some e \<Rightarrow>
               (case renew_found now now' ttl e of
                  Inl problem \<Rightarrow> (Inl problem, app)
                | Inr (described, e') \<Rightarrow>
                    (Inr described, app\<lparr>ap_registry := registry_insert e' (ap_registry app)\<rparr>))))"

subsection \<open>The sweeper, the watchers and the end\<close>

definition sweep :: "instant \<Rightarrow> app \<Rightarrow> app" where
  "sweep now app =
     app\<lparr>ap_registry := snd (remove_expired now (ap_registry app)), ap_templates := prune (ap_templates app)\<rparr>"

text \<open>What a watcher of a held instance records in the entry it shares.\<close>

definition record_state :: "string \<Rightarrow> guest_state \<Rightarrow> app \<Rightarrow> app" where
  "record_state ident state app =
     (case registry_get ident (ap_registry app) of
        None \<Rightarrow> app
      | Some e \<Rightarrow> app\<lparr>ap_registry := registry_insert (e\<lparr>en_state := state\<rparr>) (ap_registry app)\<rparr>)"

definition shut_down_server :: "app \<Rightarrow> app" where
  "shut_down_server app =
     app\<lparr>ap_registry := registry_clear (ap_registry app), ap_templates := clear_templates (ap_templates app)\<rparr>"

subsection \<open>The socket\<close>

datatype claim_error = AlreadyServed | StaleNotRemoved io_error | ParentNotCreated io_error

datatype claim_action = RemoveSocket | CreateParent

text \<open>What the file system and a connection attempt answer, and what the claim does to it.\<close>

definition claim_socket ::
  "bool \<Rightarrow> bool \<Rightarrow> io_error option \<Rightarrow> bool option \<Rightarrow> io_error option
     \<Rightarrow> (claim_error + unit) \<times> claim_action list" where
  "claim_socket socket_exists answered removed parent_exists created =
     (if socket_exists
      then (if answered then (Inl AlreadyServed, [])
            else (case removed of
                    Some e \<Rightarrow> (Inl (StaleNotRemoved e), [RemoveSocket])
                  | None \<Rightarrow> (Inr (), [RemoveSocket])))
      else if parent_exists = Some False
      then (case created of
              Some e \<Rightarrow> (Inl (ParentNotCreated e), [CreateParent])
            | None \<Rightarrow> (Inr (), [CreateParent]))
      else (Inr (), []))"

subsection \<open>Histories of the server\<close>

datatype app_event =
    AppCreate create_env "byte list"
  | AppDelete string
  | AppRenew "byte list \<Rightarrow> string + renew_instance_body" instant instant string "byte list"
  | AppSweep instant
  | AppRecord string guest_state

fun app_step :: "app_event \<Rightarrow> app \<Rightarrow> app" where
  "app_step (AppCreate env body) app = snd (create_instance env body app)"
| "app_step (AppDelete ident) app = snd (delete_instance ident app)"
| "app_step (AppRenew json now now' ident body) app = snd (renew_instance json now now' ident body app)"
| "app_step (AppSweep now) app = sweep now app"
| "app_step (AppRecord ident state) app = record_state ident state app"

text \<open>
  The events that leave the lease of \<open>ident\<close> alone: nobody deletes or renews it, no sweep
  comes at or after its end, and no new instance draws its identifier.
\<close>

fun spares :: "string \<Rightarrow> instant \<Rightarrow> app_event \<Rightarrow> bool" where
  "spares ident until (AppCreate env body) = (new_id (ce_random env) \<noteq> Inr ident)"
| "spares ident until (AppDelete i) = (i \<noteq> ident)"
| "spares ident until (AppRenew json now now' i body) = (i \<noteq> ident)"
| "spares ident until (AppSweep now) = (now < until)"
| "spares ident until (AppRecord i state) = True"

subsection \<open>Lemmas\<close>

lemma ttl_duration_bounds:
  "ttl_duration seconds = Inr (Some t) \<Longrightarrow> SECOND \<le> t \<and> t \<le> 86400 * SECOND"
  by (auto simp: ttl_duration_def MAX_TTL_SECONDS_def SECOND_def split: option.splits if_splits)

lemma ttl_duration_problem: "ttl_duration seconds = Inl p \<Longrightarrow> pb_status p = 400"
  by (auto simp: ttl_duration_def problem_defs split: option.splits if_splits)

lemma read_one_problem: "read_one roots op max_len f recipe = Inl p \<Longrightarrow> pb_status p \<in> {400, 403, 413}"
  by (auto simp: read_one_def problem_defs Let_def split: if_splits sum.splits)

lemma read_from_problem: "read_from roots op max_len fs recipe = Inl p \<Longrightarrow> pb_status p \<in> {400, 403, 413}"
  by (induction fs arbitrary: recipe) (auto simp: and_then_eq_Inl dest: read_one_problem)

lemma recipe_bytes_problem: "recipe_bytes env roots rq = Inl p \<Longrightarrow> pb_status p \<in> {400, 403, 413, 500}"
  by (auto simp: recipe_bytes_def read_recipe_files_def decode_recipe_def and_then_eq_Inl problem_defs
      dest: read_from_problem read_one_problem split: option.splits list.splits if_splits sum.splits)

lemma select_service_problem: "select_service index rq = Inl p \<Longrightarrow> pb_status p \<in> {404, 409}"
  by (auto simp: select_service_def problem_defs Let_def split: sum.splits select_error.splits)

lemma select_service_package:
  assumes "select_service index rq = Inr m"
  shows "m \<in> dp_manifest ` set (iter_packages index)" "sv_name (mf_service m) = ci_service rq"
proof -
  from assms have "select index (ci_service rq) (ci_version rq) = Inr m"
    by (auto simp: select_service_def split: sum.splits select_error.splits)
  then have "m \<in> set (candidates index (ci_service rq) (ci_version rq))"
    by (auto simp: select_def split: list.splits)
  then show "m \<in> dp_manifest ` set (iter_packages index)" "sv_name (mf_service m) = ci_service rq"
    by (auto simp: candidates_def)
qed

lemma admit_problem: "admit env app body = Inl p \<Longrightarrow> pb_status p \<in> {400, 403, 404, 409, 413, 500}"
  by (cases "new_id (ce_random env)"; cases "ce_json env body") (auto simp: admit_def and_then_eq_Inl problem_defs
      dest!: recipe_bytes_problem select_service_problem ttl_duration_problem
      split: if_splits)

lemma admit_ok:
  assumes "admit env app body = Inr (ttl, recipe, m, ident)"
  obtains rq where "ce_json env body = Inr rq" "SECOND \<le> ttl" "ttl \<le> 86400 * SECOND"
    "new_id (ce_random env) = Inr ident" "m \<in> dp_manifest ` set (iter_packages (ap_services app))"
    "sv_name (mf_service m) = ci_service rq" "recipe = None \<or> mf_initializer m \<noteq> None"
proof -
  from assms obtain rq t where "ce_json env body = Inr rq" "ttl_duration (ci_ttl_seconds rq) = Inr t"
    "select_service (ap_services app) rq = Inr m" "new_id (ce_random env) = Inr ident"
    "ttl = (case t of None \<Rightarrow> DEFAULT_TTL | Some t \<Rightarrow> t)" "recipe = None \<or> mf_initializer m \<noteq> None"
    by (cases "new_id (ce_random env)"; cases "ce_json env body") (auto simp: admit_def and_then_eq_Inr split: if_splits)
  moreover from this have "SECOND \<le> ttl \<and> ttl \<le> 86400 * SECOND"
    using ttl_duration_bounds by (cases t) (auto simp: DEFAULT_TTL_def SECOND_def)
  ultimately show thesis using that select_service_package by blast
qed

lemma base_owner_problem: "fst (base_owner has_prepare bu) = Inl p \<Longrightarrow> pb_status p = 500"
  by (auto simp: base_owner_def start_and_freeze_def freeze_and_serve_def problem_defs
      split: sum.splits prod.splits if_splits)

lemma recipe_owner_problem: "fst (recipe_owner bu recipe hp) = Inl p \<Longrightarrow> pb_status p = 500"
  by (auto simp: recipe_owner_def freeze_and_serve_def problem_defs split: sum.splits prod.splits if_splits)

lemma await_owner_problem:
  "await_owner thr died answer = Inl p \<Longrightarrow> (\<And>q. answer = Inl q \<Longrightarrow> pb_status q = 500) \<Longrightarrow> pb_status p = 500"
  by (auto simp: await_owner_def problem_defs split: option.splits if_splits)

lemma template_fork_problem: "template_fork sent answer = Inl p \<Longrightarrow> pb_status p = 500"
  by (auto simp: template_fork_def problem_defs split: option.splits sum.splits if_splits)

lemma fill_base_problem: "fill_base thr died has_prepare bu = Inl p \<Longrightarrow> pb_status p = 500"
  unfolding fill_base_def by (erule await_owner_problem) (rule base_owner_problem)

lemma fill_recipe_problem:
  "fill_recipe (template_fork sent answer) thr died recipe bu = Inl p \<Longrightarrow> pb_status p = 500"
  unfolding fill_recipe_def
  by (auto dest: template_fork_problem elim!: await_owner_problem intro: recipe_owner_problem
      split: sum.splits prod.splits)

lemma acquire_problem: "acquire k fill p = (Inl problem, p') \<Longrightarrow> fill = Inl problem"
  by (auto simp: acquire_def Let_def split: prod.splits option.splits sum.splits)

lemma obtain_for_problem: "obtain_for env att m recipe p = (Inl problem, p') \<Longrightarrow> pb_status problem = 500"
  by (auto simp: obtain_for_def obtain_template_def dest!: acquire_problem
      dest: fill_base_problem fill_recipe_problem split: prod.splits sum.splits option.splits)

lemma fork_instance_problem:
  "fork_instance env m recipe p = (Inl problem, p') \<Longrightarrow> pb_status problem = 500"
  by (auto simp: fork_instance_def dest: obtain_for_problem template_fork_problem
      split: prod.splits sum.splits)

lemma adopt_id: "adopt pipe thread ident service version ep ttl now = Inr e \<Longrightarrow> en_id e = ident"
  by (auto simp: adopt_def split: option.splits)

lemma fork_instance_source:
  assumes "fork_instance env m recipe p = (Inr forked, p')"
  shows "snd (at_fork (ce_first env)) = Some (Inr forked) \<or> snd (at_fork (ce_second env)) = Some (Inr forked)"
  using assms
  by (auto simp: fork_instance_def template_fork_def split: prod.splits sum.splits option.splits if_splits)

lemma create_forked:
  assumes "admit env app body = Inr (ttl, recipe, m, ident)"
    and "fork_instance env m recipe (ap_templates app) = (Inr (host, ep), p)"
  shows "create_instance env body app =
    (case adopt (ce_pipe env) (ce_thread env) ident (sv_name (mf_service m))
       (sv_version (mf_service m)) ep ttl (ce_adopted env) of
       Inl e \<Rightarrow> (Inl (internal (ce_io_text env e)), app\<lparr>ap_templates := p\<rparr>)
     | Inr e \<Rightarrow> (Inr (''/v1/instances/'' @ ident, describe (ce_described env) e),
          app\<lparr>ap_templates := p, ap_registry := registry_insert e (ap_registry app)\<rparr>))"
  by (simp add: create_instance_def assms)

lemma create_registry:
  assumes "create_instance env body app = (r, app')"
  shows "ap_registry app' = ap_registry app
    \<or> (\<exists>e. new_id (ce_random env) = Inr (en_id e) \<and> ap_registry app' = registry_insert e (ap_registry app))"
  using assms
  by (auto simp: create_instance_def dest!: adopt_id elim!: admit_ok split: sum.splits prod.splits)

lemma sweep_registry:
  assumes "registry_wf (ap_registry app)"
  shows "map_of (ap_registry (sweep now app)) = (\<lambda>k. case map_of (ap_registry app) k of None \<Rightarrow> None
      | Some e \<Rightarrow> if expired now e then None else Some e)" "registry_wf (ap_registry (sweep now app))"
  using remove_expired_map [OF assms prod.collapse [symmetric]] by (simp_all add: sweep_def)

lemma app_step_wf: "registry_wf (ap_registry app) \<Longrightarrow> registry_wf (ap_registry (app_step ev app))"
proof (cases ev)
  case (AppCreate env body)
  obtain r app' where "create_instance env body app = (r, app')" by (meson surj_pair)
  with create_registry [OF this] show "registry_wf (ap_registry app) \<Longrightarrow> ?thesis"
    using AppCreate registry_wf_insert by auto
next
  case (AppDelete ident)
  then show "registry_wf (ap_registry app) \<Longrightarrow> ?thesis"
    by (auto simp: delete_instance_def registry_remove_def registry_wf_remove split: option.splits)
qed (auto simp: renew_instance_def record_state_def registry_wf_insert sweep_registry
    split: sum.splits option.splits)

text \<open>An entry keeps everything but what its watcher records.\<close>

definition same_lease :: "entry \<Rightarrow> entry \<Rightarrow> bool" where
  "same_lease e e' = (e'\<lparr>en_state := en_state e\<rparr> = e)"

lemma same_lease_simps [simp]:
  "same_lease e e" "same_lease e e' \<Longrightarrow> same_lease e (e'\<lparr>en_state := st\<rparr>)"
  by (simp_all add: same_lease_def)

lemma same_lease_expires: "same_lease e e' \<Longrightarrow> en_expires_at e' = en_expires_at e \<and> en_id e' = en_id e"
  unfolding same_lease_def by (cases e; cases e') auto

lemma renew_found_ids: "renew_found now now' ttl e = Inr (d, e') \<Longrightarrow> en_id e' = en_id e"
  by (auto simp: renew_found_def renew_def Let_def split: if_splits)

lemma app_step_spares:
  assumes "registry_wf (ap_registry app)" "spares ident (en_expires_at e) ev"
    and "map_of (ap_registry app) ident = Some e'" "same_lease e e'"
  shows "\<exists>e''. map_of (ap_registry (app_step ev app)) ident = Some e'' \<and> same_lease e e''"
proof (cases ev)
  case (AppCreate env body)
  obtain r app' where "create_instance env body app = (r, app')" by (meson surj_pair)
  with create_registry [OF this] AppCreate assms show ?thesis by (auto simp: registry_insert_def)
next
  case (AppDelete i)
  with assms show ?thesis by (auto simp: delete_instance_def registry_remove_def split: option.splits)
next
  case (AppRenew json now now' i body)
  with assms show ?thesis
    using registry_lookup(2) [OF assms(1), of i]
    by (auto simp: renew_instance_def registry_get_def registry_insert_def dest!: renew_found_ids
        split: sum.splits option.splits)
next
  case (AppSweep now)
  with assms same_lease_expires [OF assms(4)] show ?thesis by (auto simp: sweep_registry expired_def)
next
  case (AppRecord i state)
  with assms show ?thesis
    using registry_lookup(2) [OF assms(1), of i]
    by (auto simp: record_state_def registry_get_def registry_insert_def split: option.splits)
qed

lemma app_run_spares:
  assumes "registry_wf (ap_registry app)" "list_all (spares ident (en_expires_at e)) evs"
    and "map_of (ap_registry app) ident = Some e'" "same_lease e e'"
  shows "registry_wf (ap_registry (fold app_step evs app))
    \<and> (\<exists>e''. map_of (ap_registry (fold app_step evs app)) ident = Some e'' \<and> same_lease e e'')"
  using assms
proof (induction evs arbitrary: app e')
  case (Cons ev evs)
  then have "spares ident (en_expires_at e) ev" by simp
  from app_step_spares [OF Cons.prems(1) this Cons.prems(3,4)] obtain e1
    where "map_of (ap_registry (app_step ev app)) ident = Some e1" "same_lease e e1" by blast
  with Cons app_step_wf [OF Cons.prems(1)] show ?case by simp
qed auto

subsection \<open>Properties\<close>

text \<open>
  C21: creating an instance either registers it or changes no instance. On success the answer
  locates and describes exactly the entry now held under the fresh identifier: a running
  instance of an installed package of the requested service, at the forked clone's endpoint,
  with a lease of one second to one day. Otherwise the registry is as before and the answer
  has one of the statuses the route documents.
\<close>

theorem create_registers_or_refuses:
  "case create_instance env body app of
      (Inl problem, app') \<Rightarrow>
        ap_registry app' = ap_registry app \<and> pb_status problem \<in> {400, 403, 404, 409, 413, 500}
    | (Inr (location, described), app') \<Rightarrow>
        \<exists>rq ident e ep. ce_json env body = Inr rq \<and> new_id (ce_random env) = Inr ident
          \<and> location = ''/v1/instances/'' @ ident \<and> described = describe (ce_described env) e
          \<and> map_of (ap_registry app') = (map_of (ap_registry app))(ident \<mapsto> e)
          \<and> en_id e = ident \<and> en_state e = GuestRunning \<and> en_service e = ci_service rq
          \<and> (\<exists>pkg. pkg \<in> set (iter_packages (ap_services app))
               \<and> package_key (dp_manifest pkg) = (en_service e, en_version e))
          \<and> (\<exists>host. (snd (at_fork (ce_first env)) = Some (Inr (host, ep))
                  \<or> snd (at_fork (ce_second env)) = Some (Inr (host, ep)))
               \<and> socket_addr (ai_endpoint described) = Some ep)
          \<and> SECOND \<le> en_ttl e \<and> en_ttl e \<le> 86400 * SECOND
          \<and> en_expires_at e = ce_adopted env + en_ttl e"
proof -
  obtain r app' where run: "create_instance env body app = (r, app')" by (meson surj_pair)
  show ?thesis
  proof (cases "admit env app body")
    case (Inl p)
    with run admit_problem [OF this] show ?thesis by (auto simp: create_instance_def)
  next
    case (Inr adm)
    obtain ttl recipe m ident where adm: "admit env app body = Inr (ttl, recipe, m, ident)"
      using Inr by (cases adm) auto
    obtain f p where fk: "fork_instance env m recipe (ap_templates app) = (f, p)" by (meson surj_pair)
    show ?thesis
    proof (cases f)
      case (Inl problem)
      with run adm fk fork_instance_problem [OF fk [unfolded Inl]] show ?thesis
        by (auto simp: create_instance_def)
    next
      case (Inr forked)
      obtain host ep where forked: "forked = (host, ep)" by (meson surj_pair)
      from adm obtain rq where rq: "ce_json env body = Inr rq" "SECOND \<le> ttl" "ttl \<le> 86400 * SECOND"
        "new_id (ce_random env) = Inr ident" "m \<in> dp_manifest ` set (iter_packages (ap_services app))"
        "sv_name (mf_service m) = ci_service rq" by (rule admit_ok)
      then obtain pkg where pkg: "pkg \<in> set (iter_packages (ap_services app))" "dp_manifest pkg = m" by auto
      let ?e = "\<lparr>en_id = ident, en_service = sv_name (mf_service m), en_version = sv_version (mf_service m),
          en_endpoint = ep, en_ttl = ttl, en_expires_at = ce_adopted env + ttl, en_state = GuestRunning\<rparr>"
      have "socket_addr (ai_endpoint (describe (ce_described env) ?e)) = Some ep"
        by (simp add: describe_def)
      then show ?thesis
        using rq pkg create_forked [OF adm fk [unfolded Inr forked]] fork_instance_source [OF fk [unfolded Inr forked]]
        by (cases "ce_pipe env"; cases "ce_thread env")
          (auto simp: adopt_def problem_defs registry_insert_def package_key_def intro!: exI [of _ ?e] exI [of _ pkg])
    qed
  qed
qed

text \<open>A server with one package, and a request for it that is served from a fresh template.\<close>

definition demo_redis :: manifest where
  "demo_redis =
     \<lparr>mf_service = \<lparr>sv_name = ''redis'', sv_version = ''7'', sv_extensions = []\<rparr>,
      mf_prepare = Some \<lparr>pr_fs = [], pr_module = None, pr_args = [], pr_stdin_file = None\<rparr>,
      mf_guest = \<lparr>gs_module = [], gs_args = [], gs_listen_port = 70, gs_ready = None\<rparr>,
      mf_initializer = None, mf_directory = [RootDir]\<rparr>"

definition demo_app :: app where
  "demo_app =
     \<lparr>ap_services = [((''redis'', ''7''), \<lparr>dp_manifest = demo_redis, dp_shadowed = []\<rparr>)],
      ap_registry = [], ap_templates = new_templates, ap_recipe_roots = []\<rparr>"

definition demo_attempt :: fork_attempt where
  "demo_attempt =
     \<lparr>at_base_thread = None, at_base_died = False, at_base = demo_bring_up, at_recipe_fork = (True, None),
      at_recipe_thread = None, at_recipe_died = False, at_recipe = demo_bring_up,
      at_fork = (True, Some (Inr (demo_host, demo_clone_addr)))\<rparr>"

definition demo_create :: create_env where
  "demo_create =
     \<lparr>ce_json = (\<lambda>_. Inr \<lparr>ci_service = ''redis'', ci_version = None, ci_recipe = None,
                           ci_recipe_files = [], ci_ttl_seconds = Some 60\<rparr>),
      ce_unbase64 = (\<lambda>_. Inl []), ce_sha256 = (\<lambda>b. b), ce_open = (\<lambda>_. Inl []), ce_reader_died = False,
      ce_euid = 1000, ce_peer = Some 1000, ce_random = Inr [1, 2], ce_first = demo_attempt,
      ce_second = demo_attempt, ce_pipe = None, ce_thread = None, ce_io_text = (\<lambda>_. []),
      ce_adopted = 0, ce_described = 0\<rparr>"

definition demo_served :: app where
  "demo_served = snd (create_instance demo_create [] demo_app)"

lemma hex2_small [simp]: "hex2 1 = ''01''" "hex2 2 = ''02''"
  by code_simp+

lemma demo_admit: "admit demo_create demo_app [] = Inr (60 * SECOND, None, demo_redis, ''0102'')"
  by (simp add: admit_def demo_create_def ttl_duration_def MAX_TTL_SECONDS_def recipe_bytes_def
      select_service_def select_def candidates_def iter_packages_def demo_app_def demo_redis_def new_id_def)

lemma demo_fork_instance:
  "fst (fork_instance demo_create demo_redis None new_templates) = Inr (demo_host, demo_clone_addr)"
  using demo_bring_up_ready
  by (auto simp: fork_instance_def obtain_for_def obtain_template_def acquire_def fill_base_def await_owner_def
      demo_create_def demo_attempt_def demo_redis_def template_fork_def pool_simps isl_def
      split: prod.splits sum.splits)

lemma demo_served_registry:
  "map_of (ap_registry demo_served) =
     [''0102'' \<mapsto> \<lparr>en_id = ''0102'', en_service = ''redis'', en_version = ''7'', en_endpoint = demo_clone_addr,
        en_ttl = 60 * SECOND, en_expires_at = 60 * SECOND, en_state = GuestRunning\<rparr>]"
proof -
  obtain p where "fork_instance demo_create demo_redis None new_templates = (Inr (demo_host, demo_clone_addr), p)"
    using demo_fork_instance by (metis prod.collapse)
  with demo_admit show ?thesis
    by (simp add: demo_served_def create_instance_def demo_app_def adopt_def registry_insert_def
        demo_create_def demo_redis_def)
qed

text \<open>
  C20: an instance lives out its lease and no longer. Whatever else the server does
  meanwhile, as long as nobody deletes or renews the instance and no earlier sweep comes at or
  after the end of its lease, it stays registered with its endpoint and lease; and the next
  sweep removes it exactly when the lease has run out.
\<close>

theorem instance_lives_out_its_lease:
  assumes "registry_wf (ap_registry app)" "registry_get ident (ap_registry app) = Some e"
    and "list_all (spares ident (en_expires_at e)) evs"
  shows "(\<exists>e'. registry_get ident (ap_registry (fold app_step evs app)) = Some e' \<and> same_lease e e')
    \<and> (registry_get ident (ap_registry (sweep now (fold app_step evs app))) = None \<longleftrightarrow> en_expires_at e \<le> now)"
proof -
  from app_run_spares [OF assms(1,3) assms(2) [unfolded registry_get_def]] obtain e'
    where "registry_wf (ap_registry (fold app_step evs app))"
      "map_of (ap_registry (fold app_step evs app)) ident = Some e'" "same_lease e e'" by auto
  with same_lease_expires [OF this(3)] show ?thesis
    by (auto simp: registry_get_def sweep_registry expired_def)
qed

theorem instance_lives_out_its_lease_witness:
  "registry_get ''0102'' (ap_registry (fold app_step [AppDelete ''99'', AppSweep 5] demo_served)) \<noteq> None
   \<and> registry_get ''0102'' (ap_registry (sweep (60 * SECOND) (fold app_step [AppDelete ''99'', AppSweep 5] demo_served))) = None"
proof -
  have "registry_wf (ap_registry demo_app)" by (simp add: demo_app_def registry_wf_def hm_wf_def)
  then have "registry_wf (ap_registry demo_served)"
    using app_step_wf [of demo_app "AppCreate demo_create []"] by (simp add: demo_served_def)
  from instance_lives_out_its_lease
    [OF this, of "''0102''" _ "[AppDelete ''99'', AppSweep 5]" "60 * SECOND"]
  show ?thesis by (auto simp: registry_get_def demo_served_registry SECOND_def)
qed

text \<open>
  A peer that is not the server's own user cannot make the server touch a recipe file:
  whatever the files are, the outcome of the request is the same, and it is a refusal when the
  request names any.
\<close>

theorem foreign_peer_reads_no_files:
  assumes "ce_peer env \<noteq> Some (ce_euid env)"
  shows "recipe_bytes (env\<lparr>ce_open := op, ce_reader_died := d\<rparr>) roots rq = recipe_bytes env roots rq
    \<and> (ci_recipe_files rq = [] \<or> isl (recipe_bytes env roots rq))"
  using assms
  by (cases "ci_recipe rq"; cases "ci_recipe_files rq") (auto simp: recipe_bytes_def)

theorem foreign_peer_reads_no_files_witness:
  "isl (recipe_bytes (demo_create\<lparr>ce_peer := Some 0\<rparr>) [[RootDir]]
     \<lparr>ci_service = ''redis'', ci_version = None, ci_recipe = None, ci_recipe_files = [''/etc/passwd''],
      ci_ttl_seconds = None\<rparr>)"
  using foreign_peer_reads_no_files [of "demo_create\<lparr>ce_peer := Some 0\<rparr>" False "\<lambda>_. Inl []" "[[RootDir]]"
      "\<lparr>ci_service = ''redis'', ci_version = None, ci_recipe = None, ci_recipe_files = [''/etc/passwd''],
      ci_ttl_seconds = None\<rparr>"]
  by (simp add: demo_create_def)

text \<open>
  The bound on recipe files does not cover a recipe given inline: whatever its length, the
  decoded bytes go on, although the host refuses a payload above \<open>MAX_PAYLOAD_LEN\<close>.
\<close>

lemma inline_recipe_unbounded:
  "ci_recipe rq = Some t \<Longrightarrow> ci_recipe_files rq = [] \<Longrightarrow> ce_unbase64 env t = Inr bytes \<Longrightarrow>
     recipe_bytes env roots rq = Inr (Some bytes)"
  by (simp add: recipe_bytes_def decode_recipe_def)

text \<open>
  A renewal that found its entry just before a sweep removes it still answers with the new
  lease.
\<close>

lemma renewal_overtaken_by_sweep:
  assumes "registry_wf (ap_registry app)" "registry_get ident (ap_registry app) = Some e"
    and "en_state e = GuestRunning" "en_expires_at e \<le> now"
  shows "\<exists>d e'. renew_found now now (Some ttl) e = Inr (d, e') \<and> ai_state d = InstanceRunning
    \<and> ai_expires_in_seconds d = nat (max 0 ttl div SECOND)
    \<and> registry_get ident (ap_registry (sweep now app)) = None"
  using assms by (auto simp: renew_found_def renew_def describe_def registry_get_def sweep_registry expired_def)

end
