(* ===== verification/Client.thy ===== *)
theory Client
  imports Serve
begin

text \<open>
  The client of a serving manager (\<open>src/crates/servicecache/src/serve/client.rs\<close>) and the
  server's routes (\<open>router\<close> in \<open>src/crates/servicecache/src/serve/mod.rs\<close>): the request each
  operation sends, how its answer is taken, and the handler a request reaches. The JSON codec
  and the connection are arguments.
\<close>

subsection \<open>Requests\<close>

datatype http_method = HttpGet | HttpHead | HttpPost | HttpDelete | HttpOther string

record http_request =
  hr_method :: http_method
  hr_path :: string
  hr_body :: "byte list"

record http_response =
  hs_status :: nat
  hs_body :: "byte list"

definition client_services :: http_request where
  "client_services = \<lparr>hr_method = HttpGet, hr_path = ''/v1/services'', hr_body = []\<rparr>"

definition client_create :: "(create_instance_body \<Rightarrow> byte list) \<Rightarrow> create_instance_body \<Rightarrow> http_request" where
  "client_create to_json request =
     \<lparr>hr_method = HttpPost, hr_path = ''/v1/instances'', hr_body = to_json request\<rparr>"

definition client_instances :: http_request where
  "client_instances = \<lparr>hr_method = HttpGet, hr_path = ''/v1/instances'', hr_body = []\<rparr>"

definition client_instance :: "string \<Rightarrow> http_request" where
  "client_instance ident = \<lparr>hr_method = HttpGet, hr_path = ''/v1/instances/'' @ ident, hr_body = []\<rparr>"

definition client_renew :: "(renew_instance_body \<Rightarrow> byte list) \<Rightarrow> string \<Rightarrow> nat option \<Rightarrow> http_request" where
  "client_renew to_json ident ttl_seconds =
     \<lparr>hr_method = HttpPost, hr_path = ''/v1/instances/'' @ ident @ ''/renew'',
      hr_body = to_json \<lparr>ri_ttl_seconds = ttl_seconds\<rparr>\<rparr>"

definition client_delete :: "string \<Rightarrow> http_request" where
  "client_delete ident = \<lparr>hr_method = HttpDelete, hr_path = ''/v1/instances/'' @ ident, hr_body = []\<rparr>"

subsection \<open>Answers\<close>

datatype client_error = ApiError problem | WrongAnswer nat "byte list" | Undecodable string | CallFailed string

text \<open>
  \<open>Client::call\<close>: the connection, the handshake, the request and the reply, each of which may
  fail; \<open>ca_sent\<close> is what the server answers.
\<close>

record call_answers =
  ca_connect :: "string option"
  ca_handshake :: "string option"
  ca_build :: "string option"
  ca_sent :: "string + http_response"
  ca_body :: "string option"

definition client_call :: "call_answers \<Rightarrow> string + http_response" where
  "client_call a =
     (case ca_connect a of Some e \<Rightarrow> Inl e | None \<Rightarrow>
      case ca_handshake a of Some e \<Rightarrow> Inl e | None \<Rightarrow>
      case ca_build a of Some e \<Rightarrow> Inl e | None \<Rightarrow>
      case ca_sent a of Inl e \<Rightarrow> Inl e | Inr response \<Rightarrow>
      case ca_body a of Some e \<Rightarrow> Inl e | None \<Rightarrow> Inr response)"

text \<open>A call over a connection on which nothing fails.\<close>

definition reached :: "http_response \<Rightarrow> call_answers" where
  "reached response =
     \<lparr>ca_connect = None, ca_handshake = None, ca_build = None, ca_sent = Inr response, ca_body = None\<rparr>"

lemma client_call_reached [simp]: "client_call (reached response) = Inr response"
  by (simp add: client_call_def reached_def)

definition refusal :: "(byte list \<Rightarrow> string + problem) \<Rightarrow> http_response \<Rightarrow> client_error" where
  "refusal problem_json r =
     (case problem_json (hs_body r) of Inr p \<Rightarrow> ApiError p | Inl _ \<Rightarrow> WrongAnswer (hs_status r) (hs_body r))"

definition expect_json ::
  "(byte list \<Rightarrow> string + problem) \<Rightarrow> (byte list \<Rightarrow> string + 'a) \<Rightarrow> nat \<Rightarrow> string + http_response \<Rightarrow> client_error + 'a" where
  "expect_json problem_json json expected answer =
     (case answer of
        Inl e \<Rightarrow> Inl (CallFailed e)
      | Inr r \<Rightarrow>
          if hs_status r \<noteq> expected then Inl (refusal problem_json r)
          else (case json (hs_body r) of Inl e \<Rightarrow> Inl (Undecodable e) | Inr x \<Rightarrow> Inr x))"

definition expect_deleted :: "(byte list \<Rightarrow> string + problem) \<Rightarrow> string + http_response \<Rightarrow> client_error + unit" where
  "expect_deleted problem_json answer =
     (case answer of
        Inl e \<Rightarrow> Inl (CallFailed e)
      | Inr r \<Rightarrow> if hs_status r \<noteq> 204 then Inl (refusal problem_json r) else Inr ())"

subsection \<open>Routes\<close>

datatype route =
    ToListServices | ToCreate | ToListInstances | ToGet string | ToDelete string | ToRenew string
  | ToOpenApi | ToMethodNotAllowed | ToUnknownRoute

text \<open>A handler for \<open>GET\<close> answers \<open>HEAD\<close> too. A path parameter is one nonempty segment.\<close>

definition reads :: "http_method \<Rightarrow> bool" where
  "reads m = (m = HttpGet \<or> m = HttpHead)"

definition router :: "http_method \<Rightarrow> string \<Rightarrow> route" where
  "router m p =
     (case split_on (CHR ''/'') p of
        [a, b] \<Rightarrow>
          if a = [] \<and> b = ''openapi.json'' then (if reads m then ToOpenApi else ToMethodNotAllowed)
          else ToUnknownRoute
      | [a, b, c] \<Rightarrow>
          if a = [] \<and> b = ''v1'' \<and> c = ''services''
          then (if reads m then ToListServices else ToMethodNotAllowed)
          else if a = [] \<and> b = ''v1'' \<and> c = ''instances''
          then (if reads m then ToListInstances else if m = HttpPost then ToCreate else ToMethodNotAllowed)
          else ToUnknownRoute
      | [a, b, c, d] \<Rightarrow>
          if a = [] \<and> b = ''v1'' \<and> c = ''instances'' \<and> d \<noteq> []
          then (if reads m then ToGet d else if m = HttpDelete then ToDelete d else ToMethodNotAllowed)
          else ToUnknownRoute
      | [a, b, c, d, e] \<Rightarrow>
          if a = [] \<and> b = ''v1'' \<and> c = ''instances'' \<and> d \<noteq> [] \<and> e = ''renew''
          then (if m = HttpPost then ToRenew d else ToMethodNotAllowed)
          else ToUnknownRoute
      | _ \<Rightarrow> ToUnknownRoute)"

definition route_of :: "http_request \<Rightarrow> route" where
  "route_of r = router (hr_method r) (hr_path r)"

subsection \<open>Lemmas\<close>

lemma hex_digit_not_slash: "n < 16 \<Longrightarrow> hex_digit n \<noteq> CHR ''/''"
  using to_digit16_hex_digit [of n] by (auto simp: to_digit16_def)

lemma hex2_no_slash: "CHR ''/'' \<notin> set (hex2 b)"
proof -
  have "unat b div 16 < 16" using unat_byte_less [of b] by (simp add: less_mult_imp_div_less)
  then show ?thesis
    using hex_digit_not_slash [of "unat b div 16"] hex_digit_not_slash [of "unat b mod 16"] by (auto simp: hex2_def)
qed

lemma new_id_segment:
  assumes "new_id (Inr bytes) = Inr ident" "bytes \<noteq> []"
  shows "CHR ''/'' \<notin> set ident" "ident \<noteq> []" "length ident = 2 * length bytes"
proof -
  have ident: "ident = concat (map hex2 bytes)" using assms(1) by (simp add: new_id_def)
  show "CHR ''/'' \<notin> set ident" using hex2_no_slash by (auto simp: ident)
  show len: "length ident = 2 * length bytes" by (simp add: ident length_concat comp_def sum_list_triv)
  show "ident \<noteq> []" using len assms(2) by auto
qed

lemma split_instance_path:
  assumes "CHR ''/'' \<notin> set ident"
  shows "split_on (CHR ''/'') (''/v1/instances/'' @ ident) = [[], ''v1'', ''instances'', ident]"
    and "split_on (CHR ''/'') (''/v1/instances/'' @ ident @ ''/renew'') = [[], ''v1'', ''instances'', ident, ''renew'']"
proof -
  have "''/v1/instances/'' @ s = [] @ CHR ''/'' # ''v1'' @ CHR ''/'' # ''instances'' @ CHR ''/'' # s" for s :: string
    by simp
  then have parts: "split_on (CHR ''/'') (''/v1/instances/'' @ s) = [] # ''v1'' # ''instances'' # split_on (CHR ''/'') s" for s
    by (simp only:) (simp add: split_on_append)
  show "split_on (CHR ''/'') (''/v1/instances/'' @ ident) = [[], ''v1'', ''instances'', ident]"
    unfolding parts by (simp add: split_on_absent [OF assms])
  show "split_on (CHR ''/'') (''/v1/instances/'' @ ident @ ''/renew'') = [[], ''v1'', ''instances'', ident, ''renew'']"
    unfolding parts using split_on_append [OF assms, of "''renew''"] by (simp add: split_on_absent)
qed

subsection \<open>Properties\<close>

text \<open>
  Every request the client sends reaches the handler it is meant for, for the identifiers
  the server hands out: they are one path segment, so no identifier turns one route into
  another.
\<close>

theorem client_reaches_its_handler:
  assumes "new_id (Inr bytes) = Inr ident" "bytes \<noteq> []"
  shows "route_of client_services = ToListServices \<and> route_of client_instances = ToListInstances
    \<and> route_of (client_create to_json request) = ToCreate
    \<and> route_of (client_instance ident) = ToGet ident
    \<and> route_of (client_delete ident) = ToDelete ident
    \<and> route_of (client_renew renew_json ident ttl_seconds) = ToRenew ident"
  using new_id_segment [OF assms] split_instance_path [of ident]
  by (simp add: route_of_def router_def reads_def client_services_def client_instances_def client_create_def
      client_instance_def client_delete_def client_renew_def)

theorem client_reaches_its_handler_witness:
  "route_of (client_delete ''0102'') = ToDelete ''0102''"
  using client_reaches_its_handler [of "[1, 2]" "''0102''"] by (simp add: new_id_def)

end
