(* ===== verification/Http.thy ===== *)
theory Http
  imports Client "HOL-Library.Countable"
begin

text \<open>
  The server's answers (\<open>src/crates/servicecache/src/serve/mod.rs\<close>, \<open>api.rs\<close>): a request goes
  through the routes to its handler, and what the handler gives becomes a response. With the
  client of the theory Client this is the whole way of a call and back. The JSON codecs are
  arguments, as is what the HTTP stack answers to a body over the limit; percent-encoding in
  paths is not modelled.
\<close>

subsection \<open>Responses\<close>

record codecs =
  cd_problem :: "problem \<Rightarrow> byte list"
  cd_problem_in :: "byte list \<Rightarrow> string + problem"
  cd_instance :: "api_instance \<Rightarrow> byte list"
  cd_instance_in :: "byte list \<Rightarrow> string + api_instance"
  cd_instances :: "api_instance list \<Rightarrow> byte list"
  cd_instances_in :: "byte list \<Rightarrow> string + api_instance list"
  cd_services :: "service_entry list \<Rightarrow> byte list"
  cd_services_in :: "byte list \<Rightarrow> string + service_entry list"

text \<open>\<open>IntoResponse for Problem\<close>.\<close>

definition problem_response :: "codecs \<Rightarrow> problem \<Rightarrow> http_response" where
  "problem_response cd p =
     \<lparr>hs_status = (if 100 \<le> pb_status p \<and> pb_status p \<le> 999 then pb_status p else 500), hs_body = cd_problem cd p\<rparr>"

definition result_response :: "codecs \<Rightarrow> nat \<Rightarrow> ('a \<Rightarrow> byte list) \<Rightarrow> problem + 'a \<Rightarrow> http_response" where
  "result_response cd status out r =
     (case r of Inl p \<Rightarrow> problem_response cd p | Inr x \<Rightarrow> \<lparr>hs_status = status, hs_body = out x\<rparr>)"

record http_env =
  ht_codecs :: codecs
  ht_create :: create_env
  ht_renew_json :: "byte list \<Rightarrow> string + renew_instance_body"
  ht_now :: instant
  ht_now' :: instant
  ht_document :: "byte list"
  ht_too_large :: http_response

definition limited :: "http_env \<Rightarrow> http_request \<Rightarrow> app \<Rightarrow> http_response \<times> app \<Rightarrow> http_response \<times> app" where
  "limited env rq app answer = (if MAX_BODY < length (hr_body rq) then (ht_too_large env, app) else answer)"

definition route_answer :: "http_env \<Rightarrow> http_request \<Rightarrow> app \<Rightarrow> http_response \<times> app" where
  "route_answer env rq app =
     (let cd = ht_codecs env in
      case route_of rq of
        ToListServices \<Rightarrow> (\<lparr>hs_status = 200, hs_body = cd_services cd (list_services app)\<rparr>, app)
      | ToListInstances \<Rightarrow>
          (\<lparr>hs_status = 200, hs_body = cd_instances cd (list_instances (ht_now env) app)\<rparr>, app)
      | ToCreate \<Rightarrow>
          limited env rq app
            (case create_instance (ht_create env) (hr_body rq) app of
               (r, app') \<Rightarrow> (result_response cd 201 (\<lambda>(_, d). cd_instance cd d) r, app'))
      | ToGet ident \<Rightarrow> (result_response cd 200 (cd_instance cd) (get_instance (ht_now env) ident app), app)
      | ToDelete ident \<Rightarrow>
          (case delete_instance ident app of (r, app') \<Rightarrow> (result_response cd 204 (\<lambda>_. []) r, app'))
      | ToRenew ident \<Rightarrow>
          limited env rq app
            (case renew_instance (ht_renew_json env) (ht_now env) (ht_now' env) ident (hr_body rq) app of
               (r, app') \<Rightarrow> (result_response cd 200 (cd_instance cd) r, app'))
      | ToOpenApi \<Rightarrow> (\<lparr>hs_status = 200, hs_body = ht_document env\<rparr>, app)
      | ToMethodNotAllowed \<Rightarrow> (problem_response cd method_not_allowed, app)
      | ToUnknownRoute \<Rightarrow> (problem_response cd unknown_route, app))"

text \<open>The request log passes the response on; a \<open>HEAD\<close> request gets it without its body.\<close>

record access_line =
  al_method :: http_method
  al_path :: string
  al_status :: nat

definition access_log :: "http_request \<Rightarrow> http_response \<times> app \<Rightarrow> (http_response \<times> app) \<times> access_line" where
  "access_log rq answer =
     (answer, \<lparr>al_method = hr_method rq, al_path = hr_path rq, al_status = hs_status (fst answer)\<rparr>)"

definition answer_request :: "http_env \<Rightarrow> http_request \<Rightarrow> app \<Rightarrow> (http_response \<times> app) \<times> access_line" where
  "answer_request env rq app =
     (case access_log rq (route_answer env rq app) of
        ((response, app'), line) \<Rightarrow>
          ((if hr_method rq = HttpHead then response\<lparr>hs_body := []\<rparr> else response, app'), line))"

subsection \<open>What a handler may answer\<close>

text \<open>The statuses each route documents in its \<open>utoipa::path\<close> attribute.\<close>

fun documented :: "route \<Rightarrow> nat list" where
  "documented ToListServices = [200]"
| "documented ToCreate = [201, 400, 403, 404, 409, 413, 500]"
| "documented ToListInstances = [200]"
| "documented (ToGet ident) = [200, 404]"
| "documented (ToDelete ident) = [204, 404]"
| "documented (ToRenew ident) = [200, 400, 404, 409]"
| "documented ToOpenApi = [200]"
| "documented ToMethodNotAllowed = [405]"
| "documented ToUnknownRoute = [404]"

lemma route_problems [simp]: "pb_status method_not_allowed = 405" "pb_status unknown_route = 404"
  by (simp_all add: problem_defs)

lemma owner_problems:
  "fst (base_owner prep bu) = Inl p \<Longrightarrow> pb_status p = 500"
  "fst (recipe_owner bu recipe hp) = Inl p \<Longrightarrow> pb_status p = 500"
  "template_fork sent answer = Inl p \<Longrightarrow> pb_status p = 500"
  by (auto simp: base_owner_def recipe_owner_def start_and_freeze_def freeze_and_serve_def template_fork_def
      problem_defs split: sum.splits prod.splits if_splits option.splits)

lemma fill_problems:
  "fill_base te died prep bu = Inl p \<Longrightarrow> pb_status p = 500"
  "fill_recipe (template_fork sent answer) te died recipe bu = Inl p \<Longrightarrow> pb_status p = 500"
  by (auto simp: fill_base_def fill_recipe_def await_owner_def problem_defs dest: owner_problems
      split: option.splits if_splits sum.splits)

lemma obtain_for_status: "obtain_for env att m recipe pool = (Inl p, pool') \<Longrightarrow> pb_status p = 500"
  by (auto simp: obtain_for_def obtain_template_def acquire_def Let_def dest: fill_problems
      split: prod.splits option.splits sum.splits)

lemma fork_instance_status:
  "fork_instance env m recipe pool = (Inl p, pool') \<Longrightarrow> pb_status p = 500"
  by (auto simp: fork_instance_def dest: obtain_for_status owner_problems(3) split: prod.splits sum.splits)

lemma read_from_status:
  "read_from roots op n ps recipe = Inl p \<Longrightarrow> pb_status p \<in> {400, 403, 413}"
proof (induction ps arbitrary: recipe)
  case (Cons f ps)
  have "read_one roots op n f recipe = Inl p \<Longrightarrow> pb_status p \<in> {400, 403, 413}"
    by (auto simp: read_one_def problem_defs Let_def split: if_splits sum.splits)
  with Cons show ?case by (auto simp: and_then_def split: sum.splits)
qed simp

lemma recipe_bytes_status:
  "recipe_bytes env roots rq = Inl p \<Longrightarrow> pb_status p \<in> {400, 403, 413, 500}"
  by (auto simp: recipe_bytes_def and_then_def decode_recipe_def read_recipe_files_def problem_defs
      simp del: read_from.simps dest: read_from_status split: option.splits list.splits sum.splits if_splits)

lemma admit_status: "admit env app body = Inl p \<Longrightarrow> pb_status p \<in> {400, 403, 404, 409, 413, 500}"
  by (auto simp: admit_def and_then_def ttl_duration_def select_service_def problem_defs Let_def
      dest!: recipe_bytes_status split: sum.splits option.splits if_splits select_error.splits)

lemma create_problem:
  "create_instance env body app = (Inl p, app') \<Longrightarrow> pb_status p \<in> {400, 403, 404, 409, 413, 500}"
  by (auto simp: create_instance_def problem_defs dest!: admit_status fork_instance_status
      split: sum.splits prod.splits)

lemma renew_problem:
  "renew_instance json now now' ident body app = (Inl p, app') \<Longrightarrow> pb_status p \<in> {400, 404, 409}"
  by (auto simp: renew_instance_def renew_ttl_def ttl_duration_def renew_found_def problem_defs
      split: sum.splits option.splits if_splits prod.splits)

lemma get_delete_problem:
  "get_instance now ident app = Inl p \<Longrightarrow> pb_status p = 404"
  "delete_instance ident app = (Inl p, app') \<Longrightarrow> pb_status p = 404"
  by (auto simp: get_instance_def delete_instance_def problem_defs split: option.splits prod.splits)

lemmas handler_problems = create_problem renew_problem get_delete_problem

subsection \<open>Properties\<close>


definition demo_http :: http_env where
  "demo_http =
     \<lparr>ht_codecs =
        \<lparr>cd_problem = (\<lambda>p. map byte_of_char (pb_kind p)), cd_problem_in = (\<lambda>_. Inl []), cd_instance = (\<lambda>_. []),
         cd_instance_in = (\<lambda>_. Inl []), cd_instances = (\<lambda>_. []), cd_instances_in = (\<lambda>_. Inr []),
         cd_services = (\<lambda>_. []), cd_services_in = (\<lambda>_. Inr [])\<rparr>,
      ht_create = demo_create, ht_renew_json = (\<lambda>_. Inl []), ht_now = 0, ht_now' = 0, ht_document = [],
      ht_too_large = \<lparr>hs_status = 413, hs_body = []\<rparr>\<rparr>"


text \<open>
  What is relied on of the JSON codecs: the client reads back what the server wrote.
\<close>

definition codecs_ok :: "codecs \<Rightarrow> bool" where
  "codecs_ok cd =
     ((\<forall>p. cd_problem_in cd (cd_problem cd p) = Inr p) \<and> (\<forall>d. cd_instance_in cd (cd_instance cd d) = Inr d)
      \<and> (\<forall>ds. cd_instances_in cd (cd_instances cd ds) = Inr ds) \<and> (\<forall>ss. cd_services_in cd (cd_services cd ss) = Inr ss))"

text \<open>A client's call: the request, the server's answer, and how the client takes it.\<close>

definition call_json ::
  "http_env \<Rightarrow> (byte list \<Rightarrow> string + 'a) \<Rightarrow> nat \<Rightarrow> http_request \<Rightarrow> app \<Rightarrow> (client_error + 'a) \<times> app" where
  "call_json env json expected rq app =
     (case answer_request env rq app of
        ((response, app'), _) \<Rightarrow> (expect_json (cd_problem_in (ht_codecs env)) json expected (client_call (reached response)), app'))"

definition call_delete :: "http_env \<Rightarrow> string \<Rightarrow> app \<Rightarrow> (client_error + unit) \<times> app" where
  "call_delete env ident app =
     (case answer_request env (client_delete ident) app of
        ((response, app'), _) \<Rightarrow> (expect_deleted (cd_problem_in (ht_codecs env)) (client_call (reached response)), app'))"

definition as_client :: "problem + 'a \<Rightarrow> client_error + 'a" where
  "as_client r = (case r of Inl p \<Rightarrow> Inl (ApiError p) | Inr x \<Rightarrow> Inr x)"

lemma as_client_simps [simp]: "as_client (Inl p) = Inl (ApiError p)" "as_client (Inr x) = Inr x"
  by (simp_all add: as_client_def)

lemma expect_result:
  assumes "codecs_ok cd" "\<forall>p. r = Inl p \<longrightarrow> 400 \<le> pb_status p \<and> pb_status p \<le> 500" "status < 400"
    and "\<And>x. json (out x) = Inr (f x)"
  shows "expect_json (cd_problem_in cd) json status (Inr (result_response cd status out r))
    = as_client (map_sum id f r)"
  using assms
  by (cases r) (auto simp: expect_json_def result_response_def problem_response_def refusal_def codecs_ok_def)

lemma handler_ranges:
  "create_instance env body app = (Inl p, app') \<Longrightarrow> 400 \<le> pb_status p \<and> pb_status p \<le> 500"
  "renew_instance json now now' ident body app = (Inl p, app') \<Longrightarrow> 400 \<le> pb_status p \<and> pb_status p \<le> 500"
  "get_instance now ident app = Inl p \<Longrightarrow> 400 \<le> pb_status p \<and> pb_status p \<le> 500"
  "delete_instance ident app = (Inl p, app') \<Longrightarrow> 400 \<le> pb_status p \<and> pb_status p \<le> 500"
  using handler_problems(1) [of env body app p app'] handler_problems(2) [of json now now' ident body app p app']
    handler_problems(3) [of now ident app p] handler_problems(4) [of ident app p app']
  by auto

lemma client_routes:
  assumes "new_id (Inr bytes) = Inr ident" "bytes \<noteq> []"
  shows "route_of client_services = ToListServices" "route_of client_instances = ToListInstances"
    "route_of (client_create to_json request) = ToCreate" "route_of (client_instance ident) = ToGet ident"
    "route_of (client_delete ident) = ToDelete ident" "route_of (client_renew renew_json ident ttl) = ToRenew ident"
  using new_id_segment [OF assms] split_instance_path [of ident]
  by (simp_all add: route_of_def router_def reads_def client_services_def client_instances_def client_create_def
      client_instance_def client_delete_def client_renew_def)

lemma call_json_result:
  assumes "codecs_ok (ht_codecs env)" "route_answer env rq app = (result_response (ht_codecs env) status out r, app')"
    and "hr_method rq \<noteq> HttpHead" "\<forall>p. r = Inl p \<longrightarrow> 400 \<le> pb_status p \<and> pb_status p \<le> 500" "status < 400"
    and "\<And>x. json (out x) = Inr (f x)"
  shows "call_json env json status rq app = (as_client (map_sum id f r), app')"
  using expect_result [of "ht_codecs env" r status json out f] assms
  by (simp add: call_json_def answer_request_def access_log_def)

lemma client_methods:
  "hr_method client_services = HttpGet" "hr_method client_instances = HttpGet"
  "hr_method (client_create to_json request) = HttpPost" "hr_method (client_instance ident) = HttpGet"
  "hr_method (client_renew renew_json ident ttl) = HttpPost" "hr_method (client_delete ident) = HttpDelete"
  "hr_body (client_create to_json request) = to_json request"
  "hr_body (client_renew renew_json ident ttl) = renew_json \<lparr>ri_ttl_seconds = ttl\<rparr>"
  by (simp_all add: client_services_def client_instances_def client_create_def client_instance_def client_renew_def
      client_delete_def)

lemma codecs_in:
  assumes "codecs_ok cd"
  shows "cd_instance_in cd (cd_instance cd d) = Inr d" "cd_problem_in cd (cd_problem cd p) = Inr p"
    "cd_instances_in cd (cd_instances cd ds) = Inr ds" "cd_services_in cd (cd_services cd ss) = Inr ss"
  using assms by (simp_all add: codecs_ok_def)

lemma call_create:
  assumes "codecs_ok (ht_codecs env)" "length (to_json request) \<le> MAX_BODY"
  shows "call_json env (cd_instance_in (ht_codecs env)) 201 (client_create to_json request) app
    = map_prod (\<lambda>r. as_client (map_sum id snd r)) id (create_instance (ht_create env) (to_json request) app)"
proof -
  obtain r app' where r: "create_instance (ht_create env) (to_json request) app = (r, app')" by fastforce
  have range: "\<forall>p. r = Inl p \<longrightarrow> 400 \<le> pb_status p \<and> pb_status p \<le> 500"
    using r handler_ranges(1) by blast
  have "route_of (client_create to_json request) = ToCreate"
    using client_routes(3) [of "[0]"] by (simp add: new_id_def)
  then have "route_answer env (client_create to_json request) app
      = (result_response (ht_codecs env) 201 (\<lambda>(_, d). cd_instance (ht_codecs env) d) r, app')"
    using assms(2) by (simp add: route_answer_def limited_def client_methods r Let_def)
  from call_json_result [OF assms(1) this, of "cd_instance_in (ht_codecs env)" snd] r range
  show ?thesis by (auto simp: client_methods codecs_in [OF assms(1)])
qed

lemma call_renew:
  assumes "codecs_ok (ht_codecs env)" "length (renew_json \<lparr>ri_ttl_seconds = ttl\<rparr>) \<le> MAX_BODY"
    and "new_id (Inr bytes) = Inr ident" "bytes \<noteq> []"
  shows "call_json env (cd_instance_in (ht_codecs env)) 200 (client_renew renew_json ident ttl) app
    = map_prod as_client id (renew_instance (ht_renew_json env) (ht_now env) (ht_now' env) ident
        (renew_json \<lparr>ri_ttl_seconds = ttl\<rparr>) app)"
proof -
  obtain r app' where r: "renew_instance (ht_renew_json env) (ht_now env) (ht_now' env) ident
      (renew_json \<lparr>ri_ttl_seconds = ttl\<rparr>) app = (r, app')" by fastforce
  have range: "\<forall>p. r = Inl p \<longrightarrow> 400 \<le> pb_status p \<and> pb_status p \<le> 500"
    using r handler_ranges(2) by blast
  have "route_answer env (client_renew renew_json ident ttl) app
      = (result_response (ht_codecs env) 200 (cd_instance (ht_codecs env)) r, app')"
    using assms(2) by (simp add: route_answer_def limited_def client_methods r client_routes [OF assms(3,4)] Let_def)
  from call_json_result [OF assms(1) this, of "cd_instance_in (ht_codecs env)" id] r range
  show ?thesis by (auto simp: client_methods codecs_in [OF assms(1)] sum.map_id)
qed

lemma call_get:
  assumes "codecs_ok (ht_codecs env)" "new_id (Inr bytes) = Inr ident" "bytes \<noteq> []"
  shows "call_json env (cd_instance_in (ht_codecs env)) 200 (client_instance ident) app
    = (as_client (get_instance (ht_now env) ident app), app)"
proof -
  have "route_answer env (client_instance ident) app
      = (result_response (ht_codecs env) 200 (cd_instance (ht_codecs env)) (get_instance (ht_now env) ident app), app)"
    by (simp add: route_answer_def client_routes [OF assms(2,3)] Let_def)
  from call_json_result [OF assms(1) this, of "cd_instance_in (ht_codecs env)" id] handler_ranges(3) [of _ ident app]
  show ?thesis by (auto simp: client_methods codecs_in [OF assms(1)] sum.map_id)
qed

lemma call_delete_result:
  assumes "codecs_ok (ht_codecs env)" "new_id (Inr bytes) = Inr ident" "bytes \<noteq> []"
  shows "call_delete env ident app = map_prod as_client id (delete_instance ident app)"
proof -
  obtain r app' where r: "delete_instance ident app = (r, app')" by fastforce
  then show ?thesis
    by (cases r) (auto simp: call_delete_def answer_request_def access_log_def route_answer_def
        client_routes [OF assms(2,3)] client_methods result_response_def problem_response_def expect_deleted_def
        refusal_def codecs_in [OF assms(1)] dest: get_delete_problem)
qed

text \<open>
  C28: a client gets what the handler gave. For every call of the client and every identifier
  the server hands out, the state after the call is the one the handler leaves, and the value
  the client returns is the handler's result: the instance, the list, or the very problem the
  handler refused with.
\<close>

theorem client_gets_the_handlers_result:
  assumes "codecs_ok (ht_codecs env)" "new_id (Inr bytes) = Inr ident" "bytes \<noteq> []"
    and "length (to_json request) \<le> MAX_BODY" "length (renew_json \<lparr>ri_ttl_seconds = ttl\<rparr>) \<le> MAX_BODY"
  shows "call_json env (cd_services_in (ht_codecs env)) 200 client_services app = (Inr (list_services app), app)
    \<and> call_json env (cd_instances_in (ht_codecs env)) 200 client_instances app
      = (Inr (list_instances (ht_now env) app), app)
    \<and> call_json env (cd_instance_in (ht_codecs env)) 201 (client_create to_json request) app
      = map_prod (\<lambda>r. as_client (map_sum id snd r)) id (create_instance (ht_create env) (to_json request) app)
    \<and> call_json env (cd_instance_in (ht_codecs env)) 200 (client_instance ident) app
      = (as_client (get_instance (ht_now env) ident app), app)
    \<and> call_json env (cd_instance_in (ht_codecs env)) 200 (client_renew renew_json ident ttl) app
      = map_prod as_client id (renew_instance (ht_renew_json env) (ht_now env) (ht_now' env) ident
          (renew_json \<lparr>ri_ttl_seconds = ttl\<rparr>) app)
    \<and> call_delete env ident app = map_prod as_client id (delete_instance ident app)"
proof -
  have "call_json env (cd_services_in (ht_codecs env)) 200 client_services app = (Inr (list_services app), app)"
    "call_json env (cd_instances_in (ht_codecs env)) 200 client_instances app
      = (Inr (list_instances (ht_now env) app), app)"
    by (simp_all add: call_json_def answer_request_def access_log_def route_answer_def client_routes [OF assms(2,3)]
        client_methods expect_json_def codecs_in [OF assms(1)])
  then show ?thesis
    using call_create [of env to_json request app] call_get [OF assms(1-3)]
      call_renew [of env renew_json ttl bytes ident app]
      call_delete_result [OF assms(1-3)] assms by blast
qed

text \<open>
  A codec that has these laws: values as numbers, by the pairing and list bijections, and a
  number as that many bytes.
\<close>

definition text_code :: "string \<Rightarrow> nat" where
  "text_code s = list_encode (map of_char s)"

definition text_decode :: "nat \<Rightarrow> string" where
  "text_decode n = map char_of (list_decode n)"

lemma text_decode_code [simp]: "text_decode (text_code s) = s"
  by (simp add: text_decode_def text_code_def comp_def)

definition problem_code :: "problem \<Rightarrow> nat" where
  "problem_code p =
     prod_encode (text_code (pb_kind p), prod_encode (text_code (pb_title p),
       prod_encode (pb_status p, case pb_detail p of None \<Rightarrow> 0 | Some d \<Rightarrow> Suc (text_code d))))"

definition problem_decode :: "nat \<Rightarrow> problem" where
  "problem_decode n =
     (case prod_decode n of (kind, rest) \<Rightarrow> case prod_decode rest of (title, rest') \<Rightarrow>
      case prod_decode rest' of (status, detail) \<Rightarrow>
        \<lparr>pb_kind = text_decode kind, pb_title = text_decode title, pb_status = status,
         pb_detail = (case detail of 0 \<Rightarrow> None | Suc d \<Rightarrow> Some (text_decode d))\<rparr>)"

lemma problem_decode_code [simp]: "problem_decode (problem_code p) = p"
  by (simp add: problem_decode_def problem_code_def split: option.splits)

definition instance_code :: "api_instance \<Rightarrow> nat" where
  "instance_code i =
     list_encode [text_code (ai_id i), text_code (ai_service i), text_code (ai_version i),
       text_code (ae_host (ai_endpoint i)), unat (ae_port (ai_endpoint i)),
       if ai_state i = InstanceRunning then 0 else 1,
       case ai_exit_status i of None \<Rightarrow> 0 | Some c \<Rightarrow> Suc (int_encode c), ai_expires_in_seconds i]"

definition instance_decode :: "nat \<Rightarrow> api_instance" where
  "instance_decode n =
     (let f = list_decode n in
      \<lparr>ai_id = text_decode (f ! 0), ai_service = text_decode (f ! 1), ai_version = text_decode (f ! 2),
       ai_endpoint = \<lparr>ae_host = text_decode (f ! 3), ae_port = of_nat (f ! 4)\<rparr>,
       ai_state = (if f ! 5 = 0 then InstanceRunning else InstanceExited),
       ai_exit_status = (case f ! 6 of 0 \<Rightarrow> None | Suc c \<Rightarrow> Some (int_decode c)), ai_expires_in_seconds = f ! 7\<rparr>)"

lemma instance_decode_code [simp]: "instance_decode (instance_code i) = i"
proof -
  have "ai_state i = InstanceRunning \<or> ai_state i = InstanceExited" by (cases "ai_state i") simp_all
  then show ?thesis
    by (auto simp: instance_decode_def instance_code_def Let_def numeral_eq_Suc split: option.splits)
qed

definition service_code :: "service_entry \<Rightarrow> nat" where
  "service_code e = prod_encode (text_code (se_name e), text_code (se_version e))"

definition service_decode :: "nat \<Rightarrow> service_entry" where
  "service_decode n =
     (case prod_decode n of (name, version) \<Rightarrow> \<lparr>se_name = text_decode name, se_version = text_decode version\<rparr>)"

lemma service_decode_code [simp]: "service_decode (service_code e) = e"
  by (simp add: service_decode_def service_code_def)

definition number_bytes :: "nat \<Rightarrow> byte list" where
  "number_bytes n = replicate n 0"

definition demo_codecs :: codecs where
  "demo_codecs =
     \<lparr>cd_problem = number_bytes \<circ> problem_code, cd_problem_in = Inr \<circ> problem_decode \<circ> length,
      cd_instance = number_bytes \<circ> instance_code, cd_instance_in = Inr \<circ> instance_decode \<circ> length,
      cd_instances = number_bytes \<circ> list_encode \<circ> map instance_code,
      cd_instances_in = Inr \<circ> map instance_decode \<circ> list_decode \<circ> length,
      cd_services = number_bytes \<circ> list_encode \<circ> map service_code,
      cd_services_in = Inr \<circ> map service_decode \<circ> list_decode \<circ> length\<rparr>"

lemma demo_codecs_ok: "codecs_ok demo_codecs"
  by (simp add: codecs_ok_def demo_codecs_def number_bytes_def comp_def)

theorem client_gets_the_handlers_result_witness:
  "call_delete (demo_http\<lparr>ht_codecs := demo_codecs\<rparr>) ''0102'' demo_app = (Inl (ApiError (unknown_instance ''0102'')), demo_app)"
proof -
  let ?env = "demo_http\<lparr>ht_codecs := demo_codecs\<rparr>"
  have "codecs_ok (ht_codecs ?env)" by (simp add: demo_codecs_ok)
  moreover have "new_id (Inr [1, 2]) = Inr ''0102''" by (simp add: new_id_def)
  ultimately have "call_delete ?env ''0102'' demo_app = map_prod as_client id (delete_instance ''0102'' demo_app)"
    using client_gets_the_handlers_result [of ?env "[1, 2]" "''0102''" "\<lambda>_. []" undefined "\<lambda>_. []" None demo_app] by simp
  then show ?thesis by (simp add: delete_instance_def registry_remove_def demo_app_def)
qed

end
