(* ===== verification/Cache.thy ===== *)
theory Cache
  imports Sockets Machines
begin

text \<open>
  The cache of compiled modules (\<open>src/crates/servicecache/src/cache.rs\<close>): where it lives, the
  entries, and processes that look an entry up, take its lock, compile, write the artifact
  under another name and rename it, and may die at any point. Compiling, serialising and
  hashing are third-party code: a record of functions.
\<close>

subsection \<open>The directory\<close>

definition nonempty :: "string option \<Rightarrow> string option" where
  "nonempty v = (case v of Some [] \<Rightarrow> None | _ \<Rightarrow> v)"

datatype cache_error =
    NoCacheDirectory | CleanFailed io_error | ModuleUnreadable io_error | EntryLockFailed io_error
  | CompileFailed string | WriteFailed string | MoveFailed io_error

definition directory ::
  "path option \<Rightarrow> string option \<Rightarrow> string option \<Rightarrow> string option \<Rightarrow> cache_error + path" where
  "directory flag environment xdg home =
     (case flag of
        Some dir \<Rightarrow> Inr dir
      | None \<Rightarrow>
          (case nonempty environment of
             Some dir \<Rightarrow> Inr (components dir)
           | None \<Rightarrow>
               (case nonempty xdg of
                  Some dir \<Rightarrow> Inr (join_path (components dir) [Normal ''servicecache''])
                | None \<Rightarrow>
                    (case nonempty home of
                       Some dir \<Rightarrow> Inr (join_path (components dir) [Normal ''.cache'', Normal ''servicecache''])
                     | None \<Rightarrow> Inl NoCacheDirectory))))"

text \<open>\<open>clean\<close>, from what removing the directory answers.\<close>

definition clean :: "io_error option \<Rightarrow> cache_error + bool" where
  "clean removed =
     (case removed of None \<Rightarrow> Inr True | Some NotFound \<Rightarrow> Inr False | Some e \<Rightarrow> Inl (CleanFailed e))"

subsection \<open>Entries\<close>

record 'm compiler =
  cc_compile :: "byte list \<Rightarrow> string + 'm"
  cc_serialize :: "'m \<Rightarrow> byte list"
  cc_deserialize :: "byte list \<Rightarrow> string + 'm"
  cc_hash :: "byte list \<Rightarrow> string"
  cc_features :: "string list"
  cc_digest :: "string \<Rightarrow> string"
  cc_engine_id :: string
  cc_format :: string

definition engine_key :: "'m compiler \<Rightarrow> string" where
  "engine_key cc =
     cc_engine_id cc @ ''-'' @ cc_format cc @ ''-cpu''
     @ take 8 (cc_digest cc (join_strings ''+'' (cc_features cc)))"

definition entry_dir :: "'m compiler \<Rightarrow> path \<Rightarrow> path" where
  "entry_dir cc dir = dir @ [Normal ''modules'', Normal (engine_key cc)]"

definition cache_entry :: "'m compiler \<Rightarrow> path \<Rightarrow> string \<Rightarrow> path" where
  "cache_entry cc dir hash = entry_dir cc dir @ [Normal (hash @ ''.bin'')]"

definition partial_entry :: "'m compiler \<Rightarrow> path \<Rightarrow> string \<Rightarrow> nat \<Rightarrow> path" where
  "partial_entry cc dir hash pid = entry_dir cc dir @ [Normal (hash @ ''.bin'' @ ''.tmp-'' @ show_nat pid)]"

type_synonym cache_files = "path \<Rightarrow> byte list option"

definition load_entry :: "'m compiler \<Rightarrow> path \<Rightarrow> cache_files \<Rightarrow> 'm option" where
  "load_entry cc entry files =
     (case files entry of
        None \<Rightarrow> None
      | Some artifact \<Rightarrow> (case cc_deserialize cc artifact of Inl _ \<Rightarrow> None | Inr m \<Rightarrow> Some m))"

text \<open>
  \<open>store_entry\<close>: writing may fail and leave some bytes under the other name, renaming may
  fail and leave them there.
\<close>

definition store_entry ::
  "'m compiler \<Rightarrow> path \<Rightarrow> string \<Rightarrow> nat \<Rightarrow> (string \<times> byte list) option \<Rightarrow> io_error option \<Rightarrow> 'm \<Rightarrow> cache_files
     \<Rightarrow> (cache_error + unit) \<times> cache_files" where
  "store_entry cc dir hash pid written renamed m files =
     (case written of
        Some (e, bytes) \<Rightarrow> (Inl (WriteFailed e), files(partial_entry cc dir hash pid \<mapsto> bytes))
      | None \<Rightarrow>
          (case renamed of
             Some e \<Rightarrow> (Inl (MoveFailed e), files(partial_entry cc dir hash pid \<mapsto> cc_serialize cc m))
           | None \<Rightarrow>
               (Inr (), files(partial_entry cc dir hash pid := None,
                              cache_entry cc dir hash \<mapsto> cc_serialize cc m))))"

text \<open>
  \<open>lock_entry\<close>: the directory is made, the lock file beside the entry opened, and the lock
  awaited; the first of these to fail is the result.
\<close>

definition lock_path :: "'m compiler \<Rightarrow> path \<Rightarrow> string \<Rightarrow> path" where
  "lock_path cc dir hash = entry_dir cc dir @ [Normal (hash @ ''.lock'')]"

definition lock_entry :: "io_error option \<Rightarrow> io_error option \<Rightarrow> io_error option \<Rightarrow> io_error option" where
  "lock_entry created opened locked =
     (case created of Some e \<Rightarrow> Some e | None \<Rightarrow> (case opened of Some e \<Rightarrow> Some e | None \<Rightarrow> locked))"

text \<open>
  \<open>load_bytes\<close>: \<open>files\<close> is the directory at the first look, \<open>locked\<close> the directory once
  the lock is held, when another process may have stored the entry.
\<close>

definition load_bytes ::
  "'m compiler \<Rightarrow> path \<Rightarrow> nat \<Rightarrow> io_error option \<Rightarrow> (string \<times> byte list) option \<Rightarrow> io_error option \<Rightarrow> byte list
     \<Rightarrow> cache_files \<Rightarrow> cache_files \<Rightarrow> (cache_error + 'm) \<times> cache_files" where
  "load_bytes cc dir pid lock written renamed bytes files locked =
     (let hash = cc_hash cc bytes; entry = cache_entry cc dir hash in
      case load_entry cc entry files of
        Some m \<Rightarrow> (Inr m, files)
      | None \<Rightarrow>
          (case lock of
             Some e \<Rightarrow> (Inl (EntryLockFailed e), files)
           | None \<Rightarrow>
               (case load_entry cc entry locked of
                  Some m \<Rightarrow> (Inr m, locked)
                | None \<Rightarrow>
                    (case cc_compile cc bytes of
                       Inl e \<Rightarrow> (Inl (CompileFailed e), locked)
                     | Inr m \<Rightarrow>
                         (case store_entry cc dir hash pid written renamed m locked of
                            (Inl e, files') \<Rightarrow> (Inl e, files')
                          | (Inr _, files') \<Rightarrow> (Inr m, files'))))))"

definition load_module ::
  "'m compiler \<Rightarrow> path \<Rightarrow> nat \<Rightarrow> io_error option \<Rightarrow> (string \<times> byte list) option \<Rightarrow> io_error option
     \<Rightarrow> io_error + byte list \<Rightarrow> cache_files \<Rightarrow> cache_files \<Rightarrow> (cache_error + 'm) \<times> cache_files" where
  "load_module cc dir pid lock written renamed read files locked =
     (case read of
        Inl e \<Rightarrow> (Inl (ModuleUnreadable e), files)
      | Inr bytes \<Rightarrow> load_bytes cc dir pid lock written renamed bytes files locked)"

definition save_hashed ::
  "'m compiler \<Rightarrow> path \<Rightarrow> nat \<Rightarrow> io_error option \<Rightarrow> (string \<times> byte list) option \<Rightarrow> io_error option \<Rightarrow> string \<Rightarrow> 'm
     \<Rightarrow> cache_files \<Rightarrow> (cache_error + unit) \<times> cache_files" where
  "save_hashed cc dir pid lock written renamed hash m files =
     (case lock of
        Some e \<Rightarrow> (Inl (EntryLockFailed e), files)
      | None \<Rightarrow>
          if files (cache_entry cc dir hash) \<noteq> None then (Inr (), files)
          else store_entry cc dir hash pid written renamed m files)"

text \<open>The runtime's view of the cache, by the hash of a module as the runtime prints it.\<close>

definition to_ascii_lowercase :: "string \<Rightarrow> string" where
  "to_ascii_lowercase =
     map (\<lambda>c. let n = (of_char c :: nat) in if 65 \<le> n \<and> n \<le> 90 then char_of (n + 32) else c)"

definition wasix_load :: "'m compiler \<Rightarrow> path \<Rightarrow> string \<Rightarrow> cache_files \<Rightarrow> 'm option" where
  "wasix_load cc dir key files = load_entry cc (cache_entry cc dir (to_ascii_lowercase key)) files"

definition wasix_contains :: "'m compiler \<Rightarrow> path \<Rightarrow> string \<Rightarrow> cache_files \<Rightarrow> bool" where
  "wasix_contains cc dir key files = (files (cache_entry cc dir (to_ascii_lowercase key)) \<noteq> None)"

definition wasix_save ::
  "'m compiler \<Rightarrow> path \<Rightarrow> nat \<Rightarrow> io_error option \<Rightarrow> (string \<times> byte list) option \<Rightarrow> io_error option \<Rightarrow> string \<Rightarrow> 'm
     \<Rightarrow> cache_files \<Rightarrow> (cache_error + unit) \<times> cache_files" where
  "wasix_save cc dir pid lock written renamed key m files =
     save_hashed cc dir pid lock written renamed (to_ascii_lowercase key) m files"

subsection \<open>Processes sharing a directory\<close>

datatype 'm cache_stage =
    CacheIdle
  | CacheMissed "byte list"
  | CacheCompiling "byte list"
  | CacheStoring "byte list" 'm
  | CacheWritten "byte list" 'm
  | CacheLoaded "byte list" 'm
  | CacheFailed

record 'm cache_world =
  cw_files :: cache_files
  cw_lock :: "path \<Rightarrow> nat option"
  cw_stage :: "nat \<Rightarrow> 'm cache_stage"

datatype cache_action =
    CaLook nat "byte list" | CaLock nat | CaCompile nat | CaWrite nat "byte list" | CaWritten nat
  | CaRename nat | CaFail nat | CaDie nat

definition move_to :: "nat \<Rightarrow> 'm cache_stage \<Rightarrow> 'm cache_world \<Rightarrow> 'm cache_world" where
  "move_to pid st w = w\<lparr>cw_stage := (cw_stage w)(pid := st)\<rparr>"

definition unlock :: "path \<Rightarrow> 'm cache_world \<Rightarrow> 'm cache_world" where
  "unlock entry w = w\<lparr>cw_lock := (cw_lock w)(entry := None)\<rparr>"

text \<open>The entry a process is at work on with the lock held.\<close>

definition holds :: "'m compiler \<Rightarrow> path \<Rightarrow> 'm cache_stage \<Rightarrow> path option" where
  "holds cc dir st =
     (case st of
        CacheCompiling bytes \<Rightarrow> Some (cache_entry cc dir (cc_hash cc bytes))
      | CacheStoring bytes _ \<Rightarrow> Some (cache_entry cc dir (cc_hash cc bytes))
      | CacheWritten bytes _ \<Rightarrow> Some (cache_entry cc dir (cc_hash cc bytes))
      | _ \<Rightarrow> None)"

definition give_up :: "'m compiler \<Rightarrow> path \<Rightarrow> nat \<Rightarrow> 'm cache_stage \<Rightarrow> 'm cache_world \<Rightarrow> 'm cache_world" where
  "give_up cc dir pid st w =
     (case holds cc dir (cw_stage w pid) of
        None \<Rightarrow> move_to pid st w
      | Some entry \<Rightarrow> unlock entry (move_to pid st w))"

fun cache_step :: "'m compiler \<Rightarrow> path \<Rightarrow> cache_action \<Rightarrow> 'm cache_world \<Rightarrow> 'm cache_world option" where
  "cache_step cc dir (CaLook pid bytes) w =
     (case cw_stage w pid of
        CacheIdle \<Rightarrow>
          Some (case load_entry cc (cache_entry cc dir (cc_hash cc bytes)) (cw_files w) of
                  Some m \<Rightarrow> move_to pid (CacheLoaded bytes m) w
                | None \<Rightarrow> move_to pid (CacheMissed bytes) w)
      | _ \<Rightarrow> None)"
| "cache_step cc dir (CaLock pid) w =
     (case cw_stage w pid of
        CacheMissed bytes \<Rightarrow>
          (let entry = cache_entry cc dir (cc_hash cc bytes) in
           if cw_lock w entry \<noteq> None then None
           else Some (case load_entry cc entry (cw_files w) of
                        Some m \<Rightarrow> move_to pid (CacheLoaded bytes m) w
                      | None \<Rightarrow>
                          (move_to pid (CacheCompiling bytes) w)\<lparr>cw_lock := (cw_lock w)(entry \<mapsto> pid)\<rparr>))
      | _ \<Rightarrow> None)"
| "cache_step cc dir (CaCompile pid) w =
     (case cw_stage w pid of
        CacheCompiling bytes \<Rightarrow>
          Some (case cc_compile cc bytes of
                  Inl _ \<Rightarrow> give_up cc dir pid CacheFailed w
                | Inr m \<Rightarrow> move_to pid (CacheStoring bytes m) w)
      | _ \<Rightarrow> None)"
| "cache_step cc dir (CaWrite pid part) w =
     (case cw_stage w pid of
        CacheStoring bytes m \<Rightarrow>
          Some (w\<lparr>cw_files := (cw_files w)(partial_entry cc dir (cc_hash cc bytes) pid \<mapsto> part)\<rparr>)
      | _ \<Rightarrow> None)"
| "cache_step cc dir (CaWritten pid) w =
     (case cw_stage w pid of
        CacheStoring bytes m \<Rightarrow>
          Some (move_to pid (CacheWritten bytes m)
            (w\<lparr>cw_files := (cw_files w)(partial_entry cc dir (cc_hash cc bytes) pid \<mapsto> cc_serialize cc m)\<rparr>))
      | _ \<Rightarrow> None)"
| "cache_step cc dir (CaRename pid) w =
     (case cw_stage w pid of
        CacheWritten bytes m \<Rightarrow>
          (let entry = cache_entry cc dir (cc_hash cc bytes); partial = partial_entry cc dir (cc_hash cc bytes) pid in
           Some (give_up cc dir pid (CacheLoaded bytes m)
             (w\<lparr>cw_files := (cw_files w)(entry := cw_files w partial, partial := None)\<rparr>)))
      | _ \<Rightarrow> None)"
| "cache_step cc dir (CaFail pid) w =
     (case cw_stage w pid of
        CacheStoring _ _ \<Rightarrow> Some (give_up cc dir pid CacheFailed w)
      | CacheWritten _ _ \<Rightarrow> Some (give_up cc dir pid CacheFailed w)
      | _ \<Rightarrow> None)"
| "cache_step cc dir (CaDie pid) w = Some (give_up cc dir pid CacheIdle w)"

definition empty_cache :: "'m cache_world" where
  "empty_cache = \<lparr>cw_files = (\<lambda>_. None), cw_lock = (\<lambda>_. None), cw_stage = (\<lambda>_. CacheIdle)\<rparr>"

inductive caches :: "'m compiler \<Rightarrow> path \<Rightarrow> 'm cache_world \<Rightarrow> bool" for cc dir where
  caches_empty: "caches cc dir empty_cache"
| caches_step: "caches cc dir w \<Longrightarrow> cache_step cc dir a w = Some w' \<Longrightarrow> caches cc dir w'"

interpretation shared: machine "\<lambda>w. w = empty_cache" "cache_step cc dir" "\<lambda>_ _. True" "caches cc dir"
  for cc :: "'m compiler" and dir
proof
  fix P :: "'m cache_world \<Rightarrow> bool" and w
  assume "caches cc dir w" and P: "\<And>w. w = empty_cache \<Longrightarrow> P w"
    "\<And>w a w'. caches cc dir w \<Longrightarrow> P w \<Longrightarrow> True \<Longrightarrow> cache_step cc dir a w = Some w' \<Longrightarrow> P w'"
  then show "P w" by (induction rule: caches.induct) blast+
qed (auto intro: caches.intros)

subsection \<open>Lemmas\<close>

text \<open>What is relied on: an artifact loads as the module it was written from, and hashes differ.\<close>

definition codec_ok :: "'m compiler \<Rightarrow> bool" where
  "codec_ok cc =
     ((\<forall>bytes m. cc_compile cc bytes = Inr m \<longrightarrow> cc_deserialize cc (cc_serialize cc m) = Inr m)
      \<and> (\<forall>b b'. cc_hash cc b = cc_hash cc b' \<longrightarrow> b = b'))"

lemma cache_entry_inject [simp]: "cache_entry cc dir h = cache_entry cc dir h' \<longleftrightarrow> h = h'"
  by (simp add: cache_entry_def)

lemma trailing_digits:
  "\<not> is_digit sep \<Longrightarrow> takeWhile is_digit (rev (s @ sep # show_nat n)) = rev (show_nat n)"
  using show_nat_digits [of _ n] takeWhile_append2 [of "rev (show_nat n)" is_digit "sep # rev s"] by simp

lemma partial_pid: "partial_entry cc dir h pid = partial_entry cc dir h' pid' \<Longrightarrow> pid = pid'"
proof -
  assume "partial_entry cc dir h pid = partial_entry cc dir h' pid'"
  then have "rev ((h @ ''.bin.tmp'') @ CHR ''-'' # show_nat pid) = rev ((h' @ ''.bin.tmp'') @ CHR ''-'' # show_nat pid')"
    by (simp add: partial_entry_def)
  then have "takeWhile is_digit (rev ((h @ ''.bin.tmp'') @ CHR ''-'' # show_nat pid))
      = takeWhile is_digit (rev ((h' @ ''.bin.tmp'') @ CHR ''-'' # show_nat pid'))" by (rule arg_cong)
  moreover have "\<not> is_digit (CHR ''-'')" by (simp add: is_digit_def digit_value_def)
  ultimately have "rev (show_nat pid) = rev (show_nat pid')" by (simp only: trailing_digits if_True not_False_eq_True)
  then have "parse_nat (show_nat pid) = parse_nat (show_nat pid')" by simp
  then show ?thesis by simp
qed

text \<open>A lock file is neither an entry nor one that is being written.\<close>

lemma lock_path_distinct:
  "lock_path cc dir h \<noteq> cache_entry cc dir h'" "lock_path cc dir h \<noteq> partial_entry cc dir h' pid"
proof -
  have "last (h @ ''.lock'') \<noteq> last (h' @ ''.bin'')" by simp
  then show "lock_path cc dir h \<noteq> cache_entry cc dir h'"
    by (auto simp: lock_path_def cache_entry_def)
  have "is_digit (last (show_nat pid))" using show_nat_digits [of "last (show_nat pid)" pid] by simp
  moreover have "\<not> is_digit (CHR ''k'')" by (simp add: is_digit_def digit_value_def)
  ultimately have "last (h @ ''.lock'') \<noteq> last (h' @ ''.bin'' @ ''.tmp-'' @ show_nat pid)" by auto
  then have "h @ ''.lock'' \<noteq> h' @ ''.bin'' @ ''.tmp-'' @ show_nat pid" by metis
  then show "lock_path cc dir h \<noteq> partial_entry cc dir h' pid"
    by (simp add: lock_path_def partial_entry_def)
qed

lemma partial_not_entry [simp]: "partial_entry cc dir h pid \<noteq> cache_entry cc dir h'"
proof
  assume "partial_entry cc dir h pid = cache_entry cc dir h'"
  then have "last (h @ ''.bin'' @ ''.tmp-'' @ show_nat pid) = last (h' @ ''.bin'')"
    by (simp add: partial_entry_def cache_entry_def)
  then have "CHR ''n'' \<in> set (show_nat pid)" by (auto simp: last_append) (metis last_in_set show_nat_not_Nil)
  then show False using show_nat_digits by (fastforce simp: is_digit_def digit_value_def)
qed

text \<open>
  The two interfaces share their entries: what a load by content gave, the runtime finds under
  the module's hash, and a later save of it changes nothing.
\<close>

lemma wasix_shares_entry:
  assumes "codec_ok cc" "load_bytes cc dir pid lock written renamed bytes files locked = (Inr m, files')"
    and "to_ascii_lowercase key = cc_hash cc bytes"
  shows "wasix_load cc dir key files' = Some m" "wasix_contains cc dir key files'"
    "lock' = None \<Longrightarrow> wasix_save cc dir pid' lock' written' renamed' key m' files' = (Inr (), files')"
proof -
  show "wasix_load cc dir key files' = Some m"
    using assms
    by (auto simp: load_bytes_def wasix_load_def store_entry_def codec_ok_def Let_def load_entry_def
        split: option.splits sum.splits)
  then show "wasix_contains cc dir key files'"
    by (auto simp: wasix_load_def wasix_contains_def load_entry_def split: option.splits)
  then show "lock' = None \<Longrightarrow> wasix_save cc dir pid' lock' written' renamed' key m' files' = (Inr (), files')"
    by (simp add: wasix_contains_def wasix_save_def save_hashed_def)
qed

definition cache_inv :: "'m compiler \<Rightarrow> path \<Rightarrow> 'm cache_world \<Rightarrow> bool" where
  "cache_inv cc dir w =
     ((\<forall>hash a. cw_files w (cache_entry cc dir hash) = Some a \<longrightarrow>
         (\<exists>bytes m. hash = cc_hash cc bytes \<and> cc_compile cc bytes = Inr m \<and> a = cc_serialize cc m))
      \<and> (\<forall>pid e. holds cc dir (cw_stage w pid) = Some e \<longrightarrow> cw_lock w e = Some pid \<and> cw_files w e = None)
      \<and> (\<forall>pid bytes m. cw_stage w pid \<in> {CacheStoring bytes m, CacheWritten bytes m, CacheLoaded bytes m} \<longrightarrow>
           cc_compile cc bytes = Inr m)
      \<and> (\<forall>pid bytes m. cw_stage w pid = CacheWritten bytes m \<longrightarrow>
           cw_files w (partial_entry cc dir (cc_hash cc bytes) pid) = Some (cc_serialize cc m)))"

lemma load_entry_sound:
  assumes "codec_ok cc" "cache_inv cc dir w" "load_entry cc (cache_entry cc dir (cc_hash cc bytes)) (cw_files w) = Some m"
  shows "cc_compile cc bytes = Inr m"
proof -
  obtain a where a: "cw_files w (cache_entry cc dir (cc_hash cc bytes)) = Some a" "cc_deserialize cc a = Inr m"
    using assms(3) by (auto simp: load_entry_def split: option.splits sum.splits)
  with assms(2) obtain b m' where "cc_hash cc bytes = cc_hash cc b" "cc_compile cc b = Inr m'" "a = cc_serialize cc m'"
    unfolding cache_inv_def by blast
  with assms(1) a(2) show ?thesis by (fastforce simp: codec_ok_def)
qed

lemma load_entry_absent:
  assumes "codec_ok cc" "cache_inv cc dir w" "load_entry cc (cache_entry cc dir h) (cw_files w) = None"
  shows "cw_files w (cache_entry cc dir h) = None"
proof (rule ccontr)
  assume "cw_files w (cache_entry cc dir h) \<noteq> None"
  then obtain a where a: "cw_files w (cache_entry cc dir h) = Some a" by blast
  with assms(2) obtain b m where "cc_compile cc b = Inr m" "a = cc_serialize cc m" unfolding cache_inv_def by blast
  with assms(1,3) a show False by (simp add: codec_ok_def load_entry_def)
qed

lemma holds_simps [simp]:
  "holds cc dir CacheIdle = None" "holds cc dir (CacheMissed b) = None" "holds cc dir (CacheLoaded b m) = None"
  "holds cc dir CacheFailed = None"
  "holds cc dir (CacheCompiling b) = Some (cache_entry cc dir (cc_hash cc b))"
  "holds cc dir (CacheStoring b m) = Some (cache_entry cc dir (cc_hash cc b))"
  "holds cc dir (CacheWritten b m) = Some (cache_entry cc dir (cc_hash cc b))"
  by (simp_all add: holds_def)

lemma holds_entry: "holds cc dir st = Some e \<Longrightarrow> \<exists>h. e = cache_entry cc dir h"
  by (cases st) auto

lemma cache_invD:
  assumes "cache_inv cc dir w"
  shows "cw_files w (cache_entry cc dir hash) = Some a \<Longrightarrow>
      \<exists>bytes m. hash = cc_hash cc bytes \<and> cc_compile cc bytes = Inr m \<and> a = cc_serialize cc m"
    and "holds cc dir (cw_stage w pid) = Some e \<Longrightarrow> cw_lock w e = Some pid"
    and "holds cc dir (cw_stage w pid) = Some e \<Longrightarrow> cw_files w e = None"
    and "cw_stage w pid = CacheStoring bytes m \<or> cw_stage w pid = CacheWritten bytes m \<or> cw_stage w pid = CacheLoaded bytes m \<Longrightarrow>
      cc_compile cc bytes = Inr m"
    and "cw_stage w pid = CacheWritten bytes m \<Longrightarrow>
      cw_files w (partial_entry cc dir (cc_hash cc bytes) pid) = Some (cc_serialize cc m)"
  using assms unfolding cache_inv_def by blast+

lemma cache_invI:
  assumes "\<And>hash a. cw_files w (cache_entry cc dir hash) = Some a \<Longrightarrow>
      \<exists>bytes m. hash = cc_hash cc bytes \<and> cc_compile cc bytes = Inr m \<and> a = cc_serialize cc m"
    and "\<And>pid e. holds cc dir (cw_stage w pid) = Some e \<Longrightarrow> cw_lock w e = Some pid \<and> cw_files w e = None"
    and "\<And>pid bytes m. cw_stage w pid = CacheStoring bytes m \<or> cw_stage w pid = CacheWritten bytes m \<or> cw_stage w pid = CacheLoaded bytes m \<Longrightarrow>
      cc_compile cc bytes = Inr m"
    and "\<And>pid bytes m. cw_stage w pid = CacheWritten bytes m \<Longrightarrow>
      cw_files w (partial_entry cc dir (cc_hash cc bytes) pid) = Some (cc_serialize cc m)"
  shows "cache_inv cc dir w"
  using assms unfolding cache_inv_def by blast

lemma give_up_inv:
  assumes "cache_inv cc dir w" "holds cc dir st = None" "\<And>b m. st = CacheLoaded b m \<Longrightarrow> cc_compile cc b = Inr m"
  shows "cache_inv cc dir (give_up cc dir pid st w)"
proof -
  note inv = cache_invD [OF assms(1)]
  let ?w = "give_up cc dir pid st w"
  have files: "cw_files ?w = cw_files w" and stage: "cw_stage ?w = (cw_stage w)(pid := st)"
    by (simp_all add: give_up_def move_to_def unlock_def split: option.splits)
  have lock: "cw_lock ?w e = cw_lock w e" if "holds cc dir (cw_stage w pid) \<noteq> Some e" for e
    using that by (simp add: give_up_def move_to_def unlock_def split: option.splits)
  show ?thesis
  proof (rule cache_invI)
    fix pid' e assume h: "holds cc dir (cw_stage ?w pid') = Some e"
    then have p: "pid' \<noteq> pid" "holds cc dir (cw_stage w pid') = Some e"
      using assms(2) by (auto simp: stage split: if_splits)
    have "holds cc dir (cw_stage w pid) \<noteq> Some e" using inv(2) p by (metis option.inject)
    with lock inv(2,3) p show "cw_lock ?w e = Some pid' \<and> cw_files ?w e = None" by (simp add: files)
  qed (use inv assms(2,3) in \<open>auto simp: files stage split: if_splits\<close>)
qed

lemma move_inv:
  assumes "cache_inv cc dir w" "holds cc dir st = holds cc dir (cw_stage w pid)" "\<And>b m. st = CacheWritten b m \<Longrightarrow> False"
    and "\<And>b m. st = CacheLoaded b m \<or> st = CacheStoring b m \<Longrightarrow> cc_compile cc b = Inr m"
  shows "cache_inv cc dir (move_to pid st w)"
  by (rule cache_invI)
    (use cache_invD [OF assms(1)] assms(2-4) in \<open>auto simp: move_to_def split: if_splits\<close>)

text \<open>A file under another name than any entry's changes nothing but its own partial.\<close>

lemma partial_inv:
  assumes "cache_inv cc dir w" "\<And>b m. cw_stage w pid = CacheWritten b m \<Longrightarrow> False"
  shows "cache_inv cc dir (w\<lparr>cw_files := (cw_files w)(partial_entry cc dir h pid := c)\<rparr>)"
proof -
  note inv = cache_invD [OF assms(1)]
  let ?w = "w\<lparr>cw_files := (cw_files w)(partial_entry cc dir h pid := c)\<rparr>"
  have entry: "cw_files ?w (cache_entry cc dir hash) = cw_files w (cache_entry cc dir hash)" for hash
    using partial_not_entry [of cc dir h pid hash, symmetric] by simp
  show ?thesis
  proof (rule cache_invI)
    fix pid' e assume held: "holds cc dir (cw_stage ?w pid') = Some e"
    then obtain h' where "e = cache_entry cc dir h'" using holds_entry by blast
    with held inv(2,3) entry show "cw_lock ?w e = Some pid' \<and> cw_files ?w e = None" by simp
  next
    fix pid' bytes m assume st: "cw_stage ?w pid' = CacheWritten bytes m"
    then have "pid' \<noteq> pid" using assms(2) by auto
    then have "partial_entry cc dir (cc_hash cc bytes) pid' \<noteq> partial_entry cc dir h pid"
      using partial_pid by blast
    with st inv(5) show "cw_files ?w (partial_entry cc dir (cc_hash cc bytes) pid') = Some (cc_serialize cc m)"
      by simp
  qed (use inv(1,4) entry in auto)
qed

lemma lock_inv:
  assumes "codec_ok cc" "cache_inv cc dir w" "cw_stage w pid = CacheMissed bytes"
    and "cw_lock w (cache_entry cc dir (cc_hash cc bytes)) = None"
    and "load_entry cc (cache_entry cc dir (cc_hash cc bytes)) (cw_files w) = None"
  shows "cache_inv cc dir ((move_to pid (CacheCompiling bytes) w)
    \<lparr>cw_lock := (cw_lock w)(cache_entry cc dir (cc_hash cc bytes) \<mapsto> pid)\<rparr>)"
proof -
  note inv = cache_invD [OF assms(2)]
  have absent: "cw_files w (cache_entry cc dir (cc_hash cc bytes)) = None"
    by (rule load_entry_absent [OF assms(1,2,5)])
  show ?thesis
  proof (rule cache_invI)
    fix pid' e
    let ?w = "(move_to pid (CacheCompiling bytes) w)\<lparr>cw_lock := (cw_lock w)(cache_entry cc dir (cc_hash cc bytes) \<mapsto> pid)\<rparr>"
    assume "holds cc dir (cw_stage ?w pid') = Some e"
    with inv(2) [of pid' e] inv(3) [of pid' e] assms(4) absent
    show "cw_lock ?w e = Some pid' \<and> cw_files ?w e = None" by (auto simp: move_to_def split: if_splits)
  qed (use inv in \<open>auto simp: move_to_def split: if_splits\<close>)
qed

lemma move_written_inv:
  assumes "cache_inv cc dir w" "cw_stage w pid = CacheStoring bytes m"
    and "cw_files w (partial_entry cc dir (cc_hash cc bytes) pid) = Some (cc_serialize cc m)"
  shows "cache_inv cc dir (move_to pid (CacheWritten bytes m) w)"
proof -
  note inv = cache_invD [OF assms(1)]
  let ?e = "cache_entry cc dir (cc_hash cc bytes)"
  have held: "cw_lock w ?e = Some pid" "cw_files w ?e = None"
    and "cc_compile cc bytes = Inr m"
    using inv(2) [of pid ?e] inv(3) [of pid ?e] inv(4) [of pid bytes m] assms(2) by simp_all
  with inv assms(2,3) show ?thesis
    by (intro cache_invI) (auto simp: move_to_def split: if_splits)
qed

lemma written_inv:
  assumes "cache_inv cc dir w" "cw_stage w pid = CacheStoring bytes m"
  shows "cache_inv cc dir (move_to pid (CacheWritten bytes m)
    (w\<lparr>cw_files := (cw_files w)(partial_entry cc dir (cc_hash cc bytes) pid \<mapsto> cc_serialize cc m)\<rparr>))"
  by (rule move_written_inv [OF partial_inv [OF assms(1)]]) (simp_all add: assms(2))

lemma rename_inv:
  assumes "cache_inv cc dir w" "cw_stage w pid = CacheWritten bytes m"
  shows "cache_inv cc dir (give_up cc dir pid (CacheLoaded bytes m)
    (w\<lparr>cw_files := (cw_files w)(cache_entry cc dir (cc_hash cc bytes) := Some (cc_serialize cc m),
         partial_entry cc dir (cc_hash cc bytes) pid := None)\<rparr>))"
proof -
  note inv = cache_invD [OF assms(1)]
  let ?e = "cache_entry cc dir (cc_hash cc bytes)" and ?p = "partial_entry cc dir (cc_hash cc bytes) pid"
  let ?w = "give_up cc dir pid (CacheLoaded bytes m)
    (w\<lparr>cw_files := (cw_files w)(?e := Some (cc_serialize cc m), ?p := None)\<rparr>)"
  have compiled: "cc_compile cc bytes = Inr m" using inv(4) assms(2) by blast
  have fields: "cw_files ?w = (cw_files w)(?e := Some (cc_serialize cc m), ?p := None)"
    "cw_stage ?w = (cw_stage w)(pid := CacheLoaded bytes m)" "cw_lock ?w = (cw_lock w)(?e := None)"
    using assms(2) by (simp_all add: give_up_def move_to_def unlock_def)
  have entry: "cw_files ?w (cache_entry cc dir h) =
      (if h = cc_hash cc bytes then Some (cc_serialize cc m) else cw_files w (cache_entry cc dir h))" for h
    using partial_not_entry [of cc dir "cc_hash cc bytes" pid h, symmetric] by (simp add: fields)
  show ?thesis
  proof (rule cache_invI)
    fix pid' e assume "holds cc dir (cw_stage ?w pid') = Some e"
    then have p: "pid' \<noteq> pid" "holds cc dir (cw_stage w pid') = Some e" by (auto simp: fields split: if_splits)
    have "e \<noteq> ?e" using p inv(2) [of pid' e] inv(2) [of pid ?e] assms(2) by auto
    moreover obtain h where "e = cache_entry cc dir h" using p(2) holds_entry by blast
    ultimately show "cw_lock ?w e = Some pid' \<and> cw_files ?w e = None"
      using inv(2,3) [OF p(2)] entry [of h] by (auto simp: fields(3))
  next
    fix pid' b k assume "cw_stage ?w pid' = CacheWritten b k"
    then have p: "pid' \<noteq> pid" "cw_stage w pid' = CacheWritten b k" by (auto simp: fields split: if_splits)
    then have "partial_entry cc dir (cc_hash cc b) pid' \<noteq> ?p" using partial_pid by blast
    then show "cw_files ?w (partial_entry cc dir (cc_hash cc b) pid') = Some (cc_serialize cc k)"
      using inv(5) [OF p(2)] by (simp add: fields(1))
  qed (use inv(1,4) entry compiled in \<open>auto simp: fields(2) split: if_splits\<close>)
qed

lemma cache_step_inv:
  assumes "codec_ok cc" "cache_inv cc dir w" "cache_step cc dir a w = Some w'"
  shows "cache_inv cc dir w'"
proof (cases a)
  case (CaLook pid bytes)
  with assms(3) show ?thesis
    using load_entry_sound [OF assms(1,2)]
    by (auto intro!: move_inv [OF assms(2)] split: cache_stage.splits option.splits)
next
  case (CaLock pid)
  with assms(3) show ?thesis
    using load_entry_sound [OF assms(1,2)]
    by (auto simp: Let_def intro!: move_inv [OF assms(2)] lock_inv [OF assms(1,2)]
        split: cache_stage.splits option.splits if_splits)
next
  case (CaCompile pid)
  with assms(3) show ?thesis
    by (auto intro!: move_inv [OF assms(2)] give_up_inv [OF assms(2)] split: cache_stage.splits sum.splits)
next
  case (CaWrite pid part)
  with assms(3) show ?thesis
    by (auto intro!: partial_inv [OF assms(2)] split: cache_stage.splits)
next
  case (CaWritten pid)
  with assms(3) show ?thesis by (auto intro!: written_inv [OF assms(2)] split: cache_stage.splits)
next
  case (CaRename pid)
  with assms(3) rename_inv [OF assms(2), of pid] cache_invD(5) [OF assms(2), of pid] show ?thesis
    by (auto simp: Let_def split: cache_stage.splits)
next
  case (CaFail pid)
  with assms(3) show ?thesis by (auto intro!: give_up_inv [OF assms(2)] split: cache_stage.splits)
next
  case (CaDie pid)
  with assms(3) show ?thesis by (auto intro!: give_up_inv [OF assms(2)])
qed

lemma empty_cache_inv: "cache_inv cc dir empty_cache"
  by (simp add: empty_cache_def cache_inv_def)

lemma caches_inv:
  assumes "codec_ok cc" "caches cc dir w"
  shows "cache_inv cc dir w"
  by (rule shared.invariant [where Q = "cache_inv cc dir", OF _ _ assms(2)])
    (auto simp: empty_cache_inv simp del: cache_step.simps intro: cache_step_inv [OF assms(1)])

abbreviation cache_run :: "'m compiler \<Rightarrow> path \<Rightarrow> cache_action list \<Rightarrow> 'm cache_world \<Rightarrow> 'm cache_world option" where
  "cache_run cc dir \<equiv> run_steps (cache_step cc dir)"

lemma caches_run: "caches cc dir w \<Longrightarrow> cache_run cc dir acts w = Some w' \<Longrightarrow> caches cc dir w'"
  by (rule shared.reach_run) auto

subsection \<open>Properties\<close>

text \<open>
  C24: however many processes share a cache directory, and wherever any of them dies, a module
  that a process gets is the one compiling its bytes gives; a stored entry is always a
  complete artifact of the module it is named after; and no entry is compiled while it is
  stored or while another process compiles it.
\<close>

theorem shared_cache_sound:
  assumes "codec_ok cc" "caches cc dir w"
  shows "(\<forall>pid bytes m. cw_stage w pid = CacheLoaded bytes m \<longrightarrow> cc_compile cc bytes = Inr m)
    \<and> (\<forall>bytes a. cw_files w (cache_entry cc dir (cc_hash cc bytes)) = Some a \<longrightarrow>
         (\<exists>m. cc_compile cc bytes = Inr m \<and> a = cc_serialize cc m))
    \<and> (\<forall>pid e. holds cc dir (cw_stage w pid) = Some e \<longrightarrow>
         cw_files w e = None \<and> (\<forall>pid'. holds cc dir (cw_stage w pid') = Some e \<longrightarrow> pid' = pid))"
proof -
  note inv = cache_invD [OF caches_inv [OF assms]]
  have "\<exists>m. cc_compile cc bytes = Inr m \<and> a = cc_serialize cc m"
    if "cw_files w (cache_entry cc dir (cc_hash cc bytes)) = Some a" for bytes a
    using inv(1) [OF that] assms(1) unfolding codec_ok_def by metis
  moreover have "pid' = pid"
    if "holds cc dir (cw_stage w pid) = Some e" "holds cc dir (cw_stage w pid') = Some e" for pid pid' e
    using inv(2) [OF that(1)] inv(2) [OF that(2)] by simp
  ultimately show ?thesis using inv(3,4) by blast
qed

text \<open>A compiler that keeps the bytes; one process fills an entry and dies, another uses it.\<close>

definition demo_compiler :: "byte list compiler" where
  "demo_compiler =
     \<lparr>cc_compile = Inr, cc_serialize = (\<lambda>m. m), cc_deserialize = Inr, cc_hash = map char_of_byte,
      cc_features = [''avx2''], cc_digest = (\<lambda>s. s), cc_engine_id = ''cranelift'', cc_format = ''sys''\<rparr>"

definition demo_shared :: "byte list cache_world" where
  "demo_shared =
     the (cache_run demo_compiler [RootDir]
       [CaLook 1 [7], CaLock 1, CaCompile 1, CaWritten 1, CaRename 1, CaDie 1, CaLook 2 [7]] empty_cache)"

lemma demo_codec: "codec_ok demo_compiler"
proof -
  have "b = b'" if "map char_of_byte b = map char_of_byte b'" for b b'
    using that by (metis (no_types, lifting) byte_char_inverse map_idI list.map_comp comp_apply)
  then show ?thesis by (simp add: codec_ok_def demo_compiler_def)
qed

lemma demo_shared_run:
  "cache_run demo_compiler [RootDir]
     [CaLook 1 [7], CaLock 1, CaCompile 1, CaWritten 1, CaRename 1, CaDie 1, CaLook 2 [7]] empty_cache = Some demo_shared"
  "cw_stage demo_shared 2 = CacheLoaded [7] [7]"
  by (simp_all add: demo_shared_def demo_compiler_def empty_cache_def load_entry_def move_to_def give_up_def
      unlock_def partial_not_entry [symmetric])

theorem shared_cache_sound_witness:
  "cw_stage demo_shared 2 = CacheLoaded [7] [7] \<and> cc_compile demo_compiler [7] = Inr [7]"
  using shared_cache_sound [OF demo_codec caches_run [OF caches_empty demo_shared_run(1)]] demo_shared_run(2) by blast

end
