(* ===== verification/Cli.thy ===== *)
theory Cli
  imports Serve Cache Smaps
begin

text \<open>
  The command line (\<open>src/crates/servicecache/src/cli.rs\<close>): the search path and the socket, the
  selection of a service, \<open>run\<close> with its clones, \<open>request\<close> with the loop that holds an
  instance, and \<open>services check\<close>. Printed lines are results; terminals, signals and polls are
  arguments.
\<close>

subsection \<open>Paths\<close>

definition SYSTEM_DEFAULTS :: "path list" where
  "SYSTEM_DEFAULTS =
     map components [''/usr/local/share/servicecache/services'', ''/usr/share/servicecache/services'']"

text \<open>\<open>env::split_paths\<close> splits at colons.\<close>

definition service_dirs :: "path list \<Rightarrow> string option \<Rightarrow> string option \<Rightarrow> path list" where
  "service_dirs flag_dirs environment_dirs home =
     (if flag_dirs \<noteq> [] then flag_dirs
      else case environment_dirs of
        Some v \<Rightarrow> map components (filter (\<lambda>p. p \<noteq> []) (split_on (CHR '':'') v))
      | None \<Rightarrow>
          (case home of
             Some h \<Rightarrow> [join_path (components h)
               [Normal ''.local'', Normal ''share'', Normal ''servicecache'', Normal ''services'']]
           | None \<Rightarrow> []) @ SYSTEM_DEFAULTS)"

definition socket_path :: "path option \<Rightarrow> string option \<Rightarrow> string option \<Rightarrow> path \<Rightarrow> nat \<Rightarrow> path" where
  "socket_path flag environment runtime_dir temp_dir uid =
     (case flag of
        Some p \<Rightarrow> p
      | None \<Rightarrow>
          (case nonempty environment of
             Some v \<Rightarrow> components v
           | None \<Rightarrow>
               (case nonempty runtime_dir of
                  Some d \<Rightarrow> join_path (components d) [Normal ''servicecache'', Normal ''serve.sock'']
                | None \<Rightarrow>
                    join_path temp_dir [Normal (''servicecache-'' @ show_nat uid), Normal ''serve.sock''])))"

definition serve_verbosity :: "bool \<Rightarrow> nat \<Rightarrow> bool \<Rightarrow> bool \<Rightarrow> nat" where
  "serve_verbosity is_serve verbose log_given env_given =
     (if is_serve \<and> verbose = 0 \<and> \<not> log_given \<and> \<not> env_given then 1 else verbose)"

subsection \<open>Services\<close>

datatype cli_error =
    NoService string
  | SeveralVersions string "string list"
  | HostError manager_error
  | PrepareExited int
  | InitializerExited int
  | NoInitializer string
  | GuestStatus string int
  | UnexpectedEvent reply
  | CliPollFailed
  | CliReadFailed
  | ModuleCheckFailed string string path
  | RecipeUnreadable io_error
  | ApiRefused problem
  | TransportFailed string
  | BadApiEndpoint
  | InstanceGone string "int option"

definition split_service :: "string \<Rightarrow> string \<times> string option" where
  "split_service service =
     (case split_once (CHR ''@'') service of
        Some (name, version) \<Rightarrow> (name, Some version)
      | None \<Rightarrow> (service, None))"

definition find_service :: "service_index \<Rightarrow> string \<Rightarrow> cli_error + manifest" where
  "find_service index service =
     (let (name, version) = split_service service in
      case select index name version of
        Inl SelectNotFound \<Rightarrow> Inl (NoService service)
      | Inl (Ambiguous versions) \<Rightarrow> Inl (SeveralVersions name versions)
      | Inr m \<Rightarrow> Inr m)"

definition print_services :: "service_index \<Rightarrow> string list" where
  "print_services index =
     concat (map (\<lambda>p.
       (sv_name (mf_service (dp_manifest p)) @ '' '' @ sv_version (mf_service (dp_manifest p)) @ '' ''
        @ show_path (mf_directory (dp_manifest p)))
       # map (\<lambda>s. ''  shadowed '' @ show_path (sp_directory s)) (dp_shadowed p)) (iter_packages index))"

text \<open>\<open>check_services\<close>: every module of every package, the shadowed ones included.\<close>

fun check_packages ::
  "(path \<Rightarrow> bool) \<Rightarrow> (manifest \<times> path) list \<Rightarrow> string list \<Rightarrow> (cli_error + unit) \<times> string list" where
  "check_packages loads [] printed = (Inr (), printed)"
| "check_packages loads ((m, dir) # packages) printed =
     (let name = sv_name (mf_service m); version = sv_version (mf_service m) in
      if list_all loads (modules m)
      then check_packages loads packages
             (printed @ [''checked '' @ name @ '' '' @ version @ '' '' @ show_path dir])
      else (Inl (ModuleCheckFailed name version dir), printed))"

definition check_services :: "(path \<Rightarrow> bool) \<Rightarrow> service_index \<Rightarrow> (cli_error + unit) \<times> string list" where
  "check_services loads index = check_packages loads (all_packages index) []"

definition read_recipe :: "(path \<Rightarrow> io_error + byte list) \<Rightarrow> io_error + byte list \<Rightarrow> string \<Rightarrow> cli_error + byte list" where
  "read_recipe read_file stdin arg =
     (case (if arg = ''-'' then stdin else read_file (components arg)) of
        Inl e \<Rightarrow> Inl (RecipeUnreadable e)
      | Inr bytes \<Rightarrow> Inr bytes)"

subsection \<open>run\<close>

text \<open>\<open>run_service\<close> up to the printed endpoint.\<close>

definition run_initializer ::
  "bring_up \<Rightarrow> manifest \<Rightarrow> byte list option \<Rightarrow> host_process \<Rightarrow> (cli_error + unit) \<times> host_process" where
  "run_initializer bu m recipe hp =
     (case (recipe, mf_initializer m) of
        (Some bytes, Some _) \<Rightarrow>
          (case hp_initialize (bu_sent_initialize bu) bytes hp of
             (Inl e, hp') \<Rightarrow> (Inl (HostError e), hp')
           | (Inr status, hp') \<Rightarrow>
               if status = 0 then (Inr (), hp') else (Inl (InitializerExited status), hp'))
      | (Some _, None) \<Rightarrow> (Inl (NoInitializer (sv_name (mf_service m))), hp)
      | (None, _) \<Rightarrow> (Inr (), hp))"

definition run_started ::
  "bring_up \<Rightarrow> manifest \<Rightarrow> byte list option \<Rightarrow> host_process \<Rightarrow> cli_error + (sockaddr \<times> host_process)" where
  "run_started bu m recipe hp =
     (case hp_start (bu_bound bu) (bu_sent_start bu) hp of
        (Inl e, _) \<Rightarrow> Inl (HostError e)
      | (Inr ep, hp') \<Rightarrow>
          (case run_initializer bu m recipe hp' of
             (Inl e, _) \<Rightarrow> Inl e
           | (Inr _, hp'') \<Rightarrow> Inr (ep, hp'')))"

definition run_service ::
  "bring_up \<Rightarrow> manifest \<Rightarrow> byte list option \<Rightarrow> cli_error + (sockaddr \<times> host_process)" where
  "run_service bu m recipe =
     (case spawn_host (bu_pair bu) (bu_spawned bu) (bu_inbox bu) of
        Inl e \<Rightarrow> Inl (HostError e)
      | Inr hp \<Rightarrow>
          if mf_prepare m \<noteq> None
          then (case hp_prepare (bu_sent_prepare bu) hp of
                  (Inl e, _) \<Rightarrow> Inl (HostError e)
                | (Inr status, hp') \<Rightarrow>
                    if status = 0 then run_started bu m recipe hp' else Inl (PrepareExited status))
          else run_started bu m recipe hp)"

text \<open>\<open>Lines\<close>: collected, and written in one call when dropped.\<close>

definition add_line :: "string \<Rightarrow> string \<Rightarrow> string" where
  "add_line line lines = lines @ line @ [char_of (10 :: nat)]"

definition run_banner :: "manifest \<Rightarrow> sockaddr \<Rightarrow> nat option \<Rightarrow> nat \<Rightarrow> string" where
  "run_banner m ep clones pid =
     (let first = add_line (''==> '' @ sv_name (mf_service m) @ '' is listening on host port ''
            @ show_nat (unat (sa_port ep)) @ '' ('' @ show_addr ep @ ''; guest port ''
            @ show_nat (gs_listen_port (mf_guest m)) @ ''). Ctrl-C to stop.'') (add_line [] []);
          second = (case clones of
             None \<Rightarrow> first
           | Some n \<Rightarrow>
               add_line (''==> Enter here, or `kill -USR1 '' @ show_nat pid @ ''`, freezes it and forks ''
                 @ show_nat n @ '' clone'' @ (if n = 1 then [] else ''s'') @ ''.'') first)
      in add_line [] second)"

text \<open>\<open>fork_signal\<close> and \<open>end_signals\<close>: the signals are blocked, then read from a descriptor.\<close>

definition signal_descriptor :: "string option \<Rightarrow> string + fd \<Rightarrow> string + fd" where
  "signal_descriptor blocked opened = (case blocked of Some e \<Rightarrow> Inl e | None \<Rightarrow> opened)"

text \<open>The end of \<open>run\<close> without clones.\<close>

definition run_to_exit :: "manifest \<Rightarrow> host_process \<Rightarrow> cli_error + unit" where
  "run_to_exit m hp =
     (case fst (wait_exit hp) of
        Inl e \<Rightarrow> Inl (HostError e)
      | Inr status \<Rightarrow> if status = 0 then Inr () else Inl (GuestStatus (sv_name (mf_service m)) status))"

subsection \<open>run with clones\<close>

record clone_state =
  cl_template :: host_process
  cl_terminal :: bool
  cl_clones :: "host_process list"
  cl_frozen :: bool
  cl_failed :: bool
  cl_printed :: "sockaddr list"

text \<open>
  One turn of the loop: what the template has sent by then, which descriptors are ready, what
  reading them gives (\<open>ct_line\<close> is whether a line was read), and the calls of a freeze and
  of each fork.
\<close>

record clone_turn =
  ct_arrived :: "incoming list"
  ct_template_ready :: bool
  ct_signal_ready :: bool
  ct_signal_read :: bool
  ct_stdin_ready :: bool
  ct_line :: "bool option"
  ct_freeze_sent :: "chan_error + unit"
  ct_forks :: "fork_input list"

datatype clone_poll = CloneInterrupted | ClonePollFailed | CloneTurn clone_turn

datatype clone_round = CloneOn clone_state | CloneReturn int | CloneFail cli_error

definition heed_template :: "clone_state \<Rightarrow> clone_round" where
  "heed_template st =
     (case read_event (cl_template st) of
        (Inl e, _) \<Rightarrow> CloneFail (HostError e)
      | (Inr (Exited RunGuest status _), _) \<Rightarrow> CloneReturn status
      | (Inr (Exited kind status (Some pid)), hp) \<Rightarrow>
          (let clones = filter (\<lambda>c. hp_pid c \<noteq> pid) (cl_clones st);
               failed = (cl_failed st \<or> status \<noteq> 0) in
           if clones = [] then CloneReturn (if failed then 1 else 0)
           else CloneOn (st\<lparr>cl_template := hp, cl_clones := clones, cl_failed := failed\<rparr>))
      | (Inr other, _) \<Rightarrow> CloneFail (UnexpectedEvent other))"

fun fork_clones :: "fork_input list \<Rightarrow> clone_state \<Rightarrow> clone_round" where
  "fork_clones [] st = CloneOn st"
| "fork_clones (fi # fis) st =
     (let hp = (cl_template st)\<lparr>hp_inbox := hp_inbox (cl_template st) @ fi_arrived fi\<rparr> in
      case hp_fork (fi_pair fi) (fi_bound fi) (fi_sent fi) (fi_child_inbox fi) hp of
        (Inl e, _) \<Rightarrow> CloneFail (HostError e)
      | (Inr (clone, ep), hp') \<Rightarrow>
          fork_clones fis (st\<lparr>cl_template := hp', cl_clones := cl_clones st @ [clone],
                              cl_printed := cl_printed st @ [ep]\<rparr>))"

definition freeze_and_fork :: "clone_turn \<Rightarrow> clone_state \<Rightarrow> clone_round" where
  "freeze_and_fork t st =
     (if cl_frozen st then fork_clones (ct_forks t) st
      else case hp_freeze (ct_freeze_sent t) (cl_template st) of
             (Inl e, _) \<Rightarrow> CloneFail (HostError e)
           | (Inr _, hp) \<Rightarrow> fork_clones (ct_forks t) (st\<lparr>cl_template := hp, cl_frozen := True\<rparr>))"

definition take_turn :: "clone_turn \<Rightarrow> clone_state \<Rightarrow> clone_round" where
  "take_turn t st0 =
     (let st1 = st0\<lparr>cl_template := (cl_template st0)\<lparr>hp_inbox := hp_inbox (cl_template st0) @ ct_arrived t\<rparr>\<rparr> in
      case (if ct_template_ready t then heed_template st1 else CloneOn st1) of
        CloneOn st \<Rightarrow>
          if ct_signal_ready t \<and> \<not> ct_signal_read t then CloneFail CliReadFailed
          else if ct_stdin_ready t \<and> cl_terminal st
          then (case ct_line t of
                  None \<Rightarrow> CloneFail CliReadFailed
                | Some False \<Rightarrow>
                    (let st' = st\<lparr>cl_terminal := False\<rparr> in
                     if ct_signal_ready t then freeze_and_fork t st' else CloneOn st')
                | Some True \<Rightarrow> freeze_and_fork t st)
          else if ct_signal_ready t then freeze_and_fork t st else CloneOn st
      | over \<Rightarrow> over)"

fun run_with_clones :: "clone_poll list \<Rightarrow> clone_state \<Rightarrow> clone_round" where
  "run_with_clones [] st = CloneOn st"
| "run_with_clones (CloneInterrupted # polls) st = run_with_clones polls st"
| "run_with_clones (ClonePollFailed # polls) st = CloneFail CliPollFailed"
| "run_with_clones (CloneTurn t # polls) st =
     (case take_turn t st of CloneOn st' \<Rightarrow> run_with_clones polls st' | over \<Rightarrow> over)"

definition new_clone_state :: "host_process \<Rightarrow> bool \<Rightarrow> clone_state" where
  "new_clone_state hp terminal =
     \<lparr>cl_template = hp, cl_terminal = terminal, cl_clones = [], cl_frozen = False, cl_failed = False,
      cl_printed = []\<rparr>"

subsection \<open>request\<close>

definition REQUEST_TTL :: duration where
  "REQUEST_TTL = 30 * SECOND"

definition REQUEST_RENEW_INTERVAL :: duration where
  "REQUEST_RENEW_INTERVAL = 10 * SECOND"

datatype hold_end = Released | HoldExited "int option"

datatype renewal = Renewed | RenewRefused problem | RenewUnreachable string

text \<open>
  What a poll of the hold loop finds: a timeout comes with the outcome of the renewal and, if
  that is refused, of the look at the instance; a ready descriptor with what reading it gives.
\<close>

datatype hold_poll =
    HoldInterrupted
  | HoldPollFailed
  | HoldTimeout renewal "api_instance option"
  | HoldReady bool bool bool "bool option"

fun hold_instance :: "hold_poll list \<Rightarrow> (cli_error + hold_end) option" where
  "hold_instance [] = None"
| "hold_instance (HoldInterrupted # polls) = hold_instance polls"
| "hold_instance (HoldPollFailed # polls) = Some (Inl CliPollFailed)"
| "hold_instance (HoldTimeout renewal current # polls) =
     (case renewal of
        Renewed \<Rightarrow> hold_instance polls
      | RenewUnreachable e \<Rightarrow> Some (Inl (TransportFailed e))
      | RenewRefused problem \<Rightarrow>
          (case current of
             Some inst \<Rightarrow>
               if ai_state inst = InstanceExited then Some (Inr (HoldExited (ai_exit_status inst)))
               else Some (Inl (ApiRefused problem))
           | None \<Rightarrow> Some (Inl (ApiRefused problem))))"
| "hold_instance (HoldReady signal_ready signal_read stdin_ready line # polls) =
     (if signal_ready
      then Some (if signal_read then Inr Released else Inl CliReadFailed)
      else if stdin_ready
      then (case line of
              None \<Rightarrow> Some (Inl CliReadFailed)
            | Some False \<Rightarrow> Some (Inr Released)
            | Some True \<Rightarrow> hold_instance polls)
      else hold_instance polls)"

definition create_body :: "(byte list \<Rightarrow> string) \<Rightarrow> string \<Rightarrow> byte list option \<Rightarrow> create_instance_body" where
  "create_body base64 service recipe =
     (let (name, version) = split_service service in
      \<lparr>ci_service = name, ci_version = version, ci_recipe = map_option (encode_recipe base64) recipe,
       ci_recipe_files = [], ci_ttl_seconds = Some 30\<rparr>)"

text \<open>\<open>request_instance\<close>: the answer to the creation, the hold, and the answer to the deletion.\<close>

definition request_instance ::
  "cli_error + api_instance \<Rightarrow> hold_poll list \<Rightarrow> cli_error + unit \<Rightarrow> (cli_error + unit) option \<times> sockaddr option" where
  "request_instance created polls deleted =
     (case created of
        Inl e \<Rightarrow> (Some (Inl e), None)
      | Inr inst \<Rightarrow>
          (case socket_addr (ai_endpoint inst) of
             None \<Rightarrow> (Some (Inl BadApiEndpoint), None)
           | Some ep \<Rightarrow>
               (case hold_instance polls of
                  None \<Rightarrow> (None, Some ep)
                | Some (Inl e) \<Rightarrow> (Some (Inl e), Some ep)
                | Some (Inr (HoldExited status)) \<Rightarrow> (Some (Inl (InstanceGone (ai_service inst) status)), Some ep)
                | Some (Inr Released) \<Rightarrow> (Some deleted, Some ep))))"

subsection \<open>Lemmas\<close>

lemma split_service_at: "CHR ''@'' \<notin> set name \<Longrightarrow> split_service (name @ ''@'' @ version) = (name, Some version)"
  by (simp add: split_service_def split_once_append)

text \<open>
  A notice that arrives while a fork awaits its reply is kept aside by the manager's handle,
  and the loop of \<open>run_with_clones\<close> looks only at what it reads from the channel: after two
  clones are forked and both have exited, the loop still counts the first.
\<close>

definition demo_two_forks :: clone_turn where
  "demo_two_forks =
     \<lparr>ct_arrived = [Message (Frozen 1)], ct_template_ready = False, ct_signal_ready = True, ct_signal_read = True,
      ct_stdin_ready = False, ct_line = None, ct_freeze_sent = Inr (),
      ct_forks =
        [demo_fork,
         demo_fork\<lparr>fi_arrived := [Message (Exited RunChild 0 (Some 8)), Message (Forked 9 (show_addr demo_clone_addr))],
                   fi_child_inbox := [Message (Forked 9 (show_addr demo_clone_addr))]\<rparr>]\<rparr>"

definition demo_last_exit :: clone_turn where
  "demo_last_exit = demo_two_forks\<lparr>ct_arrived := [Message (Exited RunChild 0 (Some 9))], ct_template_ready := True,
     ct_signal_ready := False\<rparr>"

lemma exit_during_fork_is_lost:
  "\<exists>st. run_with_clones [CloneTurn demo_two_forks, CloneTurn demo_last_exit] (new_clone_state demo_host False) = CloneOn st
     \<and> map hp_pid (cl_clones st) = [8] \<and> hp_events (cl_template st) = [Exited RunChild 0 (Some 8)]
     \<and> hp_inbox (cl_template st) = []"
  by (simp add: take_turn_def demo_two_forks_def demo_last_exit_def freeze_and_fork_def new_clone_state_def
      hp_freeze_def request_host_def next_reply_def hp_fork_def demo_fork_def demo_host_def heed_template_def
      read_event_def Let_def)

lemma check_packages_ok:
  "fst (check_packages loads packages printed) = Inr () \<longleftrightarrow> (\<forall>(m, dir) \<in> set packages. list_all loads (modules m))"
  by (induction packages arbitrary: printed) (auto simp: Let_def split: if_splits)

lemma held_until:
  "hold_instance polls = Some (Inr (HoldExited status)) \<Longrightarrow>
     \<exists>problem inst. HoldTimeout (RenewRefused problem) (Some inst) \<in> set polls
       \<and> ai_state inst = InstanceExited \<and> ai_exit_status inst = status"
  by (induction polls rule: hold_instance.induct)
    (auto split: renewal.splits option.splits if_splits bool.splits)

subsection \<open>Holding an instance of a serving manager\<close>

text \<open>
  What the server does between two renewals by the holder of \<open>ident\<close>: anything that does not
  concern that instance, with sweeps no later than the renewal that follows.
\<close>

fun leaves_alone :: "string \<Rightarrow> instant \<Rightarrow> app_event \<Rightarrow> bool" where
  "leaves_alone ident t (AppCreate env body) = (new_id (ce_random env) \<noteq> Inr ident)"
| "leaves_alone ident t (AppDelete i) = (i \<noteq> ident)"
| "leaves_alone ident t (AppRenew json now now' i body) = (i \<noteq> ident)"
| "leaves_alone ident t (AppSweep now) = (now \<le> t)"
| "leaves_alone ident t (AppRecord i state) = (i \<noteq> ident)"

fun hold_rounds ::
  "(byte list \<Rightarrow> string + renew_instance_body) \<Rightarrow> byte list \<Rightarrow> string \<Rightarrow> (app_event list \<times> instant) list \<Rightarrow> app \<Rightarrow> app" where
  "hold_rounds json body ident [] app = app"
| "hold_rounds json body ident ((evs, t) # rounds) app =
     hold_rounds json body ident rounds (app_step (AppRenew json t t ident body) (fold app_step evs app))"

text \<open>Each renewal comes within the interval and some latency of the one before.\<close>

fun on_time :: "string \<Rightarrow> duration \<Rightarrow> instant \<Rightarrow> (app_event list \<times> instant) list \<Rightarrow> bool" where
  "on_time ident latency t0 [] = True"
| "on_time ident latency t0 ((evs, t) # rounds) =
     (t \<le> t0 + REQUEST_RENEW_INTERVAL + latency \<and> list_all (leaves_alone ident t) evs
      \<and> on_time ident latency t rounds)"

lemma app_step_keeps:
  assumes "registry_wf (ap_registry app)" "leaves_alone ident t ev" "t < en_expires_at e"
    and "map_of (ap_registry app) ident = Some e"
  shows "map_of (ap_registry (app_step ev app)) ident = Some e"
proof (cases ev)
  case (AppCreate env body)
  obtain r app' where "create_instance env body app = (r, app')" by (meson surj_pair)
  with create_registry [OF this] AppCreate assms show ?thesis by (auto simp: registry_insert_def)
next
  case (AppDelete i)
  with assms show ?thesis by (auto simp: delete_instance_def registry_remove_def split: option.splits)
next
  case (AppRenew json now now' i body)
  with assms show ?thesis
    using registry_lookup(2) [OF assms(1), of i]
    by (auto simp: renew_instance_def registry_get_def registry_insert_def dest!: renew_found_ids
        split: sum.splits option.splits)
next
  case (AppSweep now)
  with assms show ?thesis by (auto simp: sweep_registry expired_def)
next
  case (AppRecord i state)
  with assms show ?thesis
    using registry_lookup(2) [OF assms(1), of i]
    by (auto simp: record_state_def registry_get_def registry_insert_def split: option.splits)
qed

lemma app_run_keeps:
  assumes "registry_wf (ap_registry app)" "list_all (leaves_alone ident t) evs" "t < en_expires_at e"
    and "map_of (ap_registry app) ident = Some e"
  shows "registry_wf (ap_registry (fold app_step evs app)) \<and> map_of (ap_registry (fold app_step evs app)) ident = Some e"
  using assms
proof (induction evs arbitrary: app)
  case (Cons ev evs)
  with app_step_keeps [of app ident t ev e] app_step_wf [of app ev] show ?case by simp
qed simp

lemma renewed_entry:
  assumes "registry_wf (ap_registry app)" "map_of (ap_registry app) ident = Some e" "en_state e = GuestRunning"
    and "renew_ttl json body = Inr None"
  shows "map_of (ap_registry (app_step (AppRenew json t t ident body) app)) ident
    = Some (e\<lparr>en_expires_at := t + en_ttl e\<rparr>)"
  using assms registry_lookup(2) [OF assms(1,2)]
  by (auto simp: renew_instance_def registry_get_def renew_found_def renew_def registry_insert_def)

subsection \<open>Properties\<close>


definition demo_held :: entry where
  "demo_held = \<lparr>en_id = ''0a'', en_service = ''redis'', en_version = ''7'', en_endpoint = demo_clone_addr,
     en_ttl = REQUEST_TTL, en_expires_at = REQUEST_TTL, en_state = GuestRunning\<rparr>"

text \<open>
  The poll of \<open>hold_instance\<close> starts its timeout afresh after every line on standard input:
  four lines nine seconds apart are four polls that find standard input ready and none that
  times out, so nothing has renewed the lease when the sweep after them comes.
\<close>

lemma lines_postpone_renewal:
  "9 * SECOND < REQUEST_RENEW_INTERVAL
   \<and> hold_instance (replicate 4 (HoldReady False False True (Some True))) = None
   \<and> registry_get ''0a'' (ap_registry (app_step (AppSweep (4 * (9 * SECOND)))
        (demo_app\<lparr>ap_registry := [(''0a'', demo_held)]\<rparr>))) = None"
proof -
  have "registry_wf (ap_registry (demo_app\<lparr>ap_registry := [(''0a'', demo_held)]\<rparr>))"
    by (simp add: registry_wf_def hm_wf_def demo_held_def)
  then show ?thesis
    by (simp add: numeral_eq_Suc registry_get_def sweep_registry expired_def demo_held_def REQUEST_TTL_def
        REQUEST_RENEW_INTERVAL_def SECOND_def)
qed


end
