(* ===== verification/Logging.thy ===== *)
theory Logging
  imports Sockets
begin

text \<open>
  Logging (\<open>src/crates/servicecache/src/logging.rs\<close>): the directives in effect, set once per
  process, and the process id at the start of every line. The filter's parser and the format
  of an event are arguments.
\<close>

definition PATCH_TARGETS :: "string list" where
  "PATCH_TARGETS = [''wasmer_vm::trap::suspend'', ''virtual_mio::selector'', ''virtual_net::host'']"

definition our_targets :: "string \<Rightarrow> string" where
  "our_targets level =
     join_strings '','' (map (\<lambda>target. target @ ''='' @ level) (''servicecache'' # PATCH_TARGETS))"

fun directives_for :: "nat \<Rightarrow> string" where
  "directives_for 0 = ''warn''"
| "directives_for (Suc 0) = ''warn,servicecache=info''"
| "directives_for (Suc (Suc 0)) = ''warn,'' @ our_targets ''debug''"
| "directives_for (Suc (Suc (Suc 0))) = ''info,'' @ our_targets ''trace''"
| "directives_for (Suc (Suc (Suc (Suc n)))) = ''trace''"

text \<open>The flag, else \<open>-v\<close>, else the environment, else the level for none.\<close>

definition chosen_directives :: "nat \<Rightarrow> string option \<Rightarrow> string option \<Rightarrow> string" where
  "chosen_directives verbosity log environment =
     (case (log, verbosity, environment) of
        (Some d, _, _) \<Rightarrow> d
      | (None, 0, Some d) \<Rightarrow> d
      | (None, v, _) \<Rightarrow> directives_for v)"

text \<open>The process-wide cell of the directives and the subscriber's filter; the first call sets both.\<close>

record 'f log_state =
  lg_directives :: "string option"
  lg_filter :: "'f option"

definition no_logging :: "'f log_state" where
  "no_logging = \<lparr>lg_directives = None, lg_filter = None\<rparr>"

definition set_once :: "'a \<Rightarrow> 'a option \<Rightarrow> 'a option" where
  "set_once x cell = (case cell of None \<Rightarrow> Some x | Some y \<Rightarrow> Some y)"

definition init_logging ::
  "(string \<Rightarrow> string + 'f) \<Rightarrow> nat \<Rightarrow> string option \<Rightarrow> string option \<Rightarrow> 'f log_state
     \<Rightarrow> (string \<times> string + unit) \<times> 'f log_state" where
  "init_logging parse verbosity log environment st =
     (let d = chosen_directives verbosity log environment in
      case parse d of
        Inl e \<Rightarrow> (Inl (d, e), st)
      | Inr f \<Rightarrow> (Inr (), \<lparr>lg_directives = set_once d (lg_directives st), lg_filter = set_once f (lg_filter st)\<rparr>))"

text \<open>\<open>WithPid\<close>: a line as the process \<open>pid\<close> writes it.\<close>

definition with_pid :: "nat \<Rightarrow> string \<Rightarrow> string" where
  "with_pid pid event = ''['' @ show_nat pid @ ''] '' @ event"

subsection \<open>Lemmas\<close>

lemma init_logging_once:
  assumes "init_logging parse v log env no_logging = (Inr (), st)"
    and "init_logging parse' v' log' env' st = (r, st')"
  shows "lg_directives st = Some (chosen_directives v log env)" "st' = st"
  using assms by (auto simp: init_logging_def no_logging_def set_once_def Let_def split: sum.splits)

text \<open>A line tells who wrote it.\<close>

lemma with_pid_inject: "with_pid p event = with_pid q event' \<longleftrightarrow> p = q \<and> event = event'"
proof
  assume "with_pid p event = with_pid q event'"
  then have eq: "show_nat p @ '']'' @ '' '' @ event = show_nat q @ '']'' @ '' '' @ event'"
    by (simp add: with_pid_def)
  have takes: "takeWhile is_digit (show_nat n @ CHR '']'' # rest) = show_nat n" for n rest
  proof -
    have "\<forall>c \<in> set (show_nat n). is_digit c" using show_nat_digits by blast
    moreover have "\<not> is_digit (CHR '']'')" by (simp add: is_digit_def digit_value_def)
    ultimately show ?thesis by (simp add: takeWhile_append2)
  qed
  have "show_nat p = show_nat q"
    using takes [of p "'' '' @ event"] takes [of q "'' '' @ event'"] eq by simp
  moreover from this have "event = event'" using eq by simp
  ultimately show "p = q \<and> event = event'" by (metis parse_show_nat option.inject)
qed simp

end
