(* ===== verification/Servers.thy ===== *)
theory Servers
  imports Serve
begin

text \<open>
  A server from its start to its end (\<open>src/crates/servicecache/src/serve/mod.rs\<close>): \<open>run\<close> and
  \<open>serve_on\<close> as one function of what the system answers, and servers that come and go on one
  socket path, system call by system call.
\<close>

subsection \<open>One server\<close>

record serve_options =
  so_socket :: path
  so_services :: service_index
  so_cache_dir :: path
  so_template_ttl :: duration
  so_recipe_roots :: "path list"

text \<open>\<open>Peer\<close>: the uid of a connection, from \<open>SO_PEERCRED\<close>.\<close>

definition connect_info :: "io_error + nat \<Rightarrow> nat option" where
  "connect_info peer_cred = (case peer_cred of Inl _ \<Rightarrow> None | Inr uid \<Rightarrow> Some uid)"

datatype serve_error =
    ClaimFailed claim_error
  | RootsFailed roots_error
  | ServerRuntimeFailed string
  | BindFailed io_error
  | SignalHandlerFailed string
  | StdoutFailed string
  | ServerFailed string

text \<open>What the calls of \<open>run\<close> answer, in their order; \<open>None\<close> is success.\<close>

record serve_answers =
  sa_exists :: bool
  sa_answered :: bool
  sa_removed :: "io_error option"
  sa_parent_exists :: "bool option"
  sa_created :: "io_error option"
  sa_fs :: fs_view
  sa_runtime :: "string option"
  sa_bind :: "io_error option"
  sa_interrupt :: "string option"
  sa_terminate :: "string option"
  sa_flush :: "string option"
  sa_server :: "string option"

datatype serve_effect = Claims claim_action | BindsSocket | PrintsSocket path | Serves | UnlinksSocket

definition new_app :: "serve_options \<Rightarrow> roots \<Rightarrow> app" where
  "new_app options roots =
     \<lparr>ap_services = so_services options, ap_registry = [], ap_templates = new_templates, ap_recipe_roots = roots\<rparr>"

definition shutdown_signal :: "serve_answers \<Rightarrow> serve_error + unit" where
  "shutdown_signal a =
     (case sa_interrupt a of
        Some e \<Rightarrow> Inl (SignalHandlerFailed e)
      | None \<Rightarrow> (case sa_terminate a of Some e \<Rightarrow> Inl (SignalHandlerFailed e) | None \<Rightarrow> Inr ()))"

text \<open>
  \<open>serve_on\<close>: the result, what was done, and the state it leaves. The requests and sweeps
  until the shutdown are \<open>events\<close>.
\<close>

definition serve_on ::
  "serve_answers \<Rightarrow> path \<Rightarrow> app_event list \<Rightarrow> app \<Rightarrow> (serve_error + unit) \<times> serve_effect list \<times> app" where
  "serve_on a socket events app =
     (case sa_bind a of
        Some e \<Rightarrow> (Inl (BindFailed e), [], app)
      | None \<Rightarrow>
          (case shutdown_signal a of
             Inl e \<Rightarrow> (Inl e, [BindsSocket], app)
           | Inr _ \<Rightarrow>
               (case sa_flush a of
                  Some e \<Rightarrow> (Inl (StdoutFailed e), [BindsSocket, PrintsSocket socket], app)
                | None \<Rightarrow>
                    (let app' = fold app_step events app; done = [BindsSocket, PrintsSocket socket, Serves] in
                     case sa_server a of
                       Some e \<Rightarrow> (Inl (ServerFailed e), done, app')
                     | None \<Rightarrow> (Inr (), done, shut_down_server app')))))"

definition serve_run ::
  "serve_answers \<Rightarrow> serve_options \<Rightarrow> app_event list \<Rightarrow> (serve_error + unit) \<times> serve_effect list \<times> app option" where
  "serve_run a options events =
     (case claim_socket (sa_exists a) (sa_answered a) (sa_removed a) (sa_parent_exists a) (sa_created a) of
        (Inl e, actions) \<Rightarrow> (Inl (ClaimFailed e), map Claims actions, None)
      | (Inr _, actions) \<Rightarrow>
          (case new_roots (sa_fs a) (so_recipe_roots options) of
             Inl e \<Rightarrow> (Inl (RootsFailed e), map Claims actions, None)
           | Inr roots \<Rightarrow>
               (case sa_runtime a of
                  Some e \<Rightarrow> (Inl (ServerRuntimeFailed e), map Claims actions, None)
                | None \<Rightarrow>
                    (case serve_on a (so_socket options) events (new_app options roots) of
                       (r, done, app) \<Rightarrow> (r, map Claims actions @ done @ [UnlinksSocket], Some app)))))"

subsection \<open>Servers on one path\<close>

text \<open>
  The stages of a process in \<open>run\<close>, by the next system call on the socket: the look in
  \<open>claim_socket\<close>, its connection attempt, its removal of a stale socket, the bind, the listen
  that completes it, and the removal at the end. A socket file is an inode; a process that
  serves holds the listening socket behind one.
\<close>

datatype server_stage =
    Idle
  | Looking
  | Connecting
  | Unlinking
  | Claimed
  | Bound nat
  | ServingOn nat
  | Leaving

record socket_world =
  sw_file :: "nat option"
  sw_next :: nat
  sw_listening :: "nat list"
  sw_stage :: "nat \<Rightarrow> server_stage"

definition new_world :: "bool \<Rightarrow> socket_world" where
  "new_world stale =
     \<lparr>sw_file = (if stale then Some 0 else None), sw_next = 1, sw_listening = [], sw_stage = (\<lambda>_. Idle)\<rparr>"

definition answers_at :: "socket_world \<Rightarrow> bool" where
  "answers_at w = (case sw_file w of None \<Rightarrow> False | Some i \<Rightarrow> i \<in> set (sw_listening w))"

definition moved :: "nat \<Rightarrow> server_stage \<Rightarrow> socket_world \<Rightarrow> socket_world" where
  "moved p st w = w\<lparr>sw_stage := (sw_stage w)(p := st)\<rparr>"

text \<open>The flag of a step is whether the system call, where it can, succeeds.\<close>

datatype server_call =
    SvStart nat
  | SvLook nat bool
  | SvConnect nat
  | SvUnlink nat bool
  | SvAbort nat
  | SvBind nat bool
  | SvListen nat bool
  | SvEnd nat
  | SvRemove nat
  | SvDie nat

fun server_step :: "server_call \<Rightarrow> socket_world \<Rightarrow> socket_world option" where
  "server_step (SvStart p) w = (if sw_stage w p = Idle then Some (moved p Looking w) else None)"
| "server_step (SvLook p created) w =
     (if sw_stage w p \<noteq> Looking then None
      else Some (moved p (if sw_file w \<noteq> None then Connecting else if created then Claimed else Idle) w))"
| "server_step (SvConnect p) w =
     (if sw_stage w p \<noteq> Connecting then None
      else Some (moved p (if answers_at w then Idle else Unlinking) w))"
| "server_step (SvUnlink p ok) w =
     (if sw_stage w p \<noteq> Unlinking then None
      else if ok \<and> sw_file w \<noteq> None then Some (moved p Claimed w\<lparr>sw_file := None\<rparr>)
      else Some (moved p Idle w))"
| "server_step (SvAbort p) w = (if sw_stage w p = Claimed then Some (moved p Idle w) else None)"
| "server_step (SvBind p ok) w =
     (if sw_stage w p \<noteq> Claimed then None
      else if ok \<and> sw_file w = None
      then Some (moved p (Bound (sw_next w)) w\<lparr>sw_file := Some (sw_next w), sw_next := Suc (sw_next w)\<rparr>)
      else Some (moved p Leaving w))"
| "server_step (SvListen p ok) w =
     (case sw_stage w p of
        Bound i \<Rightarrow>
          Some (if ok then moved p (ServingOn i) w\<lparr>sw_listening := i # sw_listening w\<rparr> else moved p Leaving w)
      | _ \<Rightarrow> None)"
| "server_step (SvEnd p) w =
     (case sw_stage w p of
        ServingOn i \<Rightarrow> Some (moved p Leaving w\<lparr>sw_listening := removeAll i (sw_listening w)\<rparr>)
      | _ \<Rightarrow> None)"
| "server_step (SvRemove p) w =
     (if sw_stage w p = Leaving then Some (moved p Idle w\<lparr>sw_file := None\<rparr>) else None)"
| "server_step (SvDie p) w =
     (case sw_stage w p of
        ServingOn i \<Rightarrow> Some (moved p Idle w\<lparr>sw_listening := removeAll i (sw_listening w)\<rparr>)
      | _ \<Rightarrow> Some (moved p Idle w))"

abbreviation server_steps :: "server_call list \<Rightarrow> socket_world \<Rightarrow> socket_world option" where
  "server_steps \<equiv> run_steps server_step"

text \<open>
  The windows of \<open>run\<close>: from its start until it serves, and from the end of serving until it
  has removed the socket. Serial histories are those in which no window opens while another is.
\<close>

fun in_window :: "server_stage \<Rightarrow> bool" where
  "in_window Idle = False"
| "in_window (ServingOn i) = False"
| "in_window _ = True"

fun opens_window :: "server_call \<Rightarrow> bool" where
  "opens_window (SvStart p) = True"
| "opens_window (SvEnd p) = True"
| "opens_window _ = False"

definition quiet :: "socket_world \<Rightarrow> bool" where
  "quiet w = (\<forall>p. \<not> in_window (sw_stage w p))"

inductive servers :: "socket_world \<Rightarrow> bool" where
  servers_new: "servers (new_world stale)"
| servers_step: "servers w \<Longrightarrow> opens_window s \<longrightarrow> quiet w \<Longrightarrow> server_step s w = Some w' \<Longrightarrow> servers w'"

interpretation serial: machine "\<lambda>w. \<exists>stale. w = new_world stale" server_step "\<lambda>s w. opens_window s \<longrightarrow> quiet w" servers
proof
  fix P :: "socket_world \<Rightarrow> bool" and w
  assume "servers w" and P: "\<And>w. \<exists>stale. w = new_world stale \<Longrightarrow> P w"
    "\<And>w s w'. servers w \<Longrightarrow> P w \<Longrightarrow> opens_window s \<longrightarrow> quiet w \<Longrightarrow> server_step s w = Some w' \<Longrightarrow> P w'"
  then show "P w" by (induction rule: servers.induct) blast+
qed (auto intro: servers.intros)

subsection \<open>The invariant\<close>

text \<open>The stages in which \<open>claim_socket\<close> has found the path free, or \<open>serve_on\<close> is over.\<close>

fun has_way :: "server_stage \<Rightarrow> bool" where
  "has_way Unlinking = True"
| "has_way Claimed = True"
| "has_way (Bound i) = True"
| "has_way Leaving = True"
| "has_way _ = False"

definition servers_inv :: "socket_world \<Rightarrow> bool" where
  "servers_inv w =
     ((\<forall>p i. sw_stage w p = ServingOn i \<longrightarrow> sw_file w = Some i \<and> i \<in> set (sw_listening w))
      \<and> (\<forall>p i. sw_stage w p = Bound i \<longrightarrow> sw_file w = Some i)
      \<and> (\<forall>p q i. has_way (sw_stage w p) \<longrightarrow> sw_stage w q \<noteq> ServingOn i)
      \<and> (\<forall>p q i j. sw_stage w p = ServingOn i \<longrightarrow> sw_stage w q = ServingOn j \<longrightarrow> p = q)
      \<and> (\<forall>p q. in_window (sw_stage w p) \<longrightarrow> in_window (sw_stage w q) \<longrightarrow> p = q))"

lemma moved_simps [simp]:
  "sw_stage (moved p st w) = (sw_stage w)(p := st)" "sw_file (moved p st w) = sw_file w"
  "sw_listening (moved p st w) = sw_listening w" "sw_next (moved p st w) = sw_next w"
  by (simp_all add: moved_def)

lemma moved_next [simp]:
  "moved p st w\<lparr>sw_file := f, sw_next := sw_next w\<rparr> = moved p st w\<lparr>sw_file := f\<rparr>"
  by (cases w) (simp add: moved_def)

lemma has_way_in_window: "has_way st \<Longrightarrow> in_window st"
  by (cases st) simp_all

lemma servers_invD:
  assumes "servers_inv w"
  shows "sw_stage w p = ServingOn i \<Longrightarrow> sw_file w = Some i"
    "sw_stage w p = ServingOn i \<Longrightarrow> i \<in> set (sw_listening w)"
    "sw_stage w p = Bound i \<Longrightarrow> sw_file w = Some i"
    "has_way (sw_stage w p) \<Longrightarrow> sw_stage w q \<noteq> ServingOn i"
    "sw_stage w p = ServingOn i \<Longrightarrow> sw_stage w q = ServingOn j \<Longrightarrow> p = q"
    "in_window (sw_stage w p) \<Longrightarrow> in_window (sw_stage w q) \<Longrightarrow> p = q"
  using assms unfolding servers_inv_def by blast+

lemma servers_invI:
  assumes "\<And>p i. sw_stage w p = ServingOn i \<Longrightarrow> sw_file w = Some i \<and> i \<in> set (sw_listening w)"
    "\<And>p i. sw_stage w p = Bound i \<Longrightarrow> sw_file w = Some i"
    "\<And>p q i. has_way (sw_stage w p) \<Longrightarrow> sw_stage w q \<noteq> ServingOn i"
    "\<And>p q i j. sw_stage w p = ServingOn i \<Longrightarrow> sw_stage w q = ServingOn j \<Longrightarrow> p = q"
    "\<And>p q. in_window (sw_stage w p) \<Longrightarrow> in_window (sw_stage w q) \<Longrightarrow> p = q"
  shows "servers_inv w"
  using assms unfolding servers_inv_def by blast

text \<open>One process moves; what has to hold of it, and of the others where its move is seen.\<close>

lemma servers_inv_move:
  assumes inv: "servers_inv w" and stage: "sw_stage w' = (sw_stage w)(p := st)"
    and serving: "\<And>q i. q \<noteq> p \<Longrightarrow> sw_stage w q = ServingOn i \<Longrightarrow> sw_file w' = Some i \<and> i \<in> set (sw_listening w')"
    and bound: "\<And>q i. q \<noteq> p \<Longrightarrow> sw_stage w q = Bound i \<Longrightarrow> sw_file w' = Some i"
    and serves: "\<And>i. st = ServingOn i \<Longrightarrow> sw_file w' = Some i \<and> i \<in> set (sw_listening w')"
    and binds: "\<And>i. st = Bound i \<Longrightarrow> sw_file w' = Some i"
    and way: "\<And>q i. q \<noteq> p \<Longrightarrow> has_way st \<Longrightarrow> sw_stage w q \<noteq> ServingOn i"
    and alone: "\<And>q i. q \<noteq> p \<Longrightarrow> st = ServingOn i \<Longrightarrow> \<not> has_way (sw_stage w q) \<and> (\<forall>j. sw_stage w q \<noteq> ServingOn j)"
    and window: "\<And>q. q \<noteq> p \<Longrightarrow> in_window st \<Longrightarrow> \<not> in_window (sw_stage w q)"
  shows "servers_inv w'"
proof (rule servers_invI)
  show "sw_stage w' q = ServingOn i \<Longrightarrow> sw_file w' = Some i \<and> i \<in> set (sw_listening w')" for q i
    by (cases "q = p") (simp_all add: stage serving serves)
  show "sw_stage w' q = Bound i \<Longrightarrow> sw_file w' = Some i" for q i
    by (cases "q = p") (simp_all add: stage bound binds)
  show "has_way (sw_stage w' q) \<Longrightarrow> sw_stage w' r \<noteq> ServingOn i" for q r i
    using way [of r i] alone [of q i] servers_invD(4) [OF inv, of q r i]
    by (cases "q = p"; cases "r = p") (auto simp: stage)
  show "sw_stage w' q = ServingOn i \<Longrightarrow> sw_stage w' r = ServingOn j \<Longrightarrow> q = r" for q r i j
    using alone [of q j] alone [of r i] servers_invD(5) [OF inv, of q i r j]
    by (cases "q = p"; cases "r = p") (auto simp: stage)
  show "in_window (sw_stage w' q) \<Longrightarrow> in_window (sw_stage w' r) \<Longrightarrow> q = r" for q r
    using window [of q] window [of r] servers_invD(6) [OF inv, of q r]
    by (cases "q = p"; cases "r = p") (auto simp: stage)
qed

lemma others_not_in_window:
  assumes "servers_inv w" "in_window (sw_stage w p)" "q \<noteq> p"
  shows "\<not> in_window (sw_stage w q)"
  using servers_invD(6) [OF assms(1), of p q] assms(2,3) by blast

text \<open>A move that leaves the file and the listening sockets alone.\<close>

lemma servers_inv_moved:
  assumes inv: "servers_inv w" and new: "\<nexists>i. st = ServingOn i" "\<nexists>i. st = Bound i"
    and way: "\<And>q i. has_way st \<Longrightarrow> sw_stage w q \<noteq> ServingOn i"
    and window: "in_window st \<Longrightarrow> in_window (sw_stage w p) \<or> quiet w"
  shows "servers_inv (moved p st w)"
  by (rule servers_inv_move [OF inv, of _ p st])
    (use new way window others_not_in_window [OF inv, of p] servers_invD(1-3) [OF inv]
     in \<open>auto simp: quiet_def\<close>)

lemma servers_inv_closed:
  assumes inv: "servers_inv w" and serving: "sw_stage w p = ServingOn i" and st: "st = Idle \<or> st = Leaving \<and> quiet w"
  shows "servers_inv (moved p st w\<lparr>sw_listening := removeAll i (sw_listening w)\<rparr>)"
proof (rule servers_inv_move [OF inv, of _ p st])
  have other: "sw_stage w q \<noteq> ServingOn j" if "q \<noteq> p" for q j
    using servers_invD(5) [OF inv serving, of q j] that by blast
  show "q \<noteq> p \<Longrightarrow> sw_stage w q = ServingOn j \<Longrightarrow> sw_file (moved p st w\<lparr>sw_listening := removeAll i (sw_listening w)\<rparr>) = Some j
      \<and> j \<in> set (sw_listening (moved p st w\<lparr>sw_listening := removeAll i (sw_listening w)\<rparr>))" for q j
    using other by blast
  show "q \<noteq> p \<Longrightarrow> has_way st \<Longrightarrow> sw_stage w q \<noteq> ServingOn j" for q j
    using other by blast
qed (use st servers_invD(3) [OF inv] in \<open>auto simp: quiet_def\<close>)

lemma servers_inv_file:
  assumes inv: "servers_inv w" and way: "has_way (sw_stage w p)"
    and st: "st = Idle \<and> file = None \<or> st = Claimed \<and> file = None \<or> (\<exists>i. st = Bound i \<and> file = Some i)"
  shows "servers_inv (moved p st w\<lparr>sw_file := file, sw_next := next\<rparr>)"
proof (rule servers_inv_move [OF inv, of _ p st])
  have window: "in_window (sw_stage w p)" using way by (rule has_way_in_window)
  show "q \<noteq> p \<Longrightarrow> in_window st \<Longrightarrow> \<not> in_window (sw_stage w q)" for q
    using others_not_in_window [OF inv window] by blast
  show "q \<noteq> p \<Longrightarrow> sw_stage w q = Bound i \<Longrightarrow> sw_file (moved p st w\<lparr>sw_file := file, sw_next := next\<rparr>) = Some i" for q i
    using others_not_in_window [OF inv window, of q] by auto
qed (use st servers_invD(4) [OF inv way] in \<open>auto\<close>)

lemma servers_inv_listen:
  assumes inv: "servers_inv w" and bound: "sw_stage w p = Bound i"
  shows "servers_inv (moved p (ServingOn i) w\<lparr>sw_listening := i # sw_listening w\<rparr>)"
proof (rule servers_inv_move [OF inv, of _ p "ServingOn i"])
  have nobody: "sw_stage w q \<noteq> ServingOn j" for q j using servers_invD(4) [OF inv, of p q j] bound by simp
  show "q \<noteq> p \<Longrightarrow> ServingOn i = ServingOn j \<Longrightarrow> \<not> has_way (sw_stage w q) \<and> (\<forall>j. sw_stage w q \<noteq> ServingOn j)" for q j
    using others_not_in_window [OF inv, of p q] has_way_in_window [of "sw_stage w q"] nobody bound
    by auto
  show "q \<noteq> p \<Longrightarrow> sw_stage w q = ServingOn j
      \<Longrightarrow> sw_file (moved p (ServingOn i) w\<lparr>sw_listening := i # sw_listening w\<rparr>) = Some j
        \<and> j \<in> set (sw_listening (moved p (ServingOn i) w\<lparr>sw_listening := i # sw_listening w\<rparr>))" for q j
    using nobody by blast
qed (use servers_invD(3) [OF inv] bound in \<open>auto\<close>)

lemma nobody_serves:
  assumes "servers_inv w" "\<not> answers_at w"
  shows "sw_stage w q \<noteq> ServingOn i"
  using assms(2) servers_invD(1,2) [OF assms(1), of q i] by (auto simp: answers_at_def)

lemma server_step_inv:
  assumes inv: "servers_inv w" and serial: "opens_window s \<longrightarrow> quiet w" and step: "server_step s w = Some w'"
  shows "servers_inv w'"
proof (cases s)
  case (SvLook p created)
  have "sw_file w = None \<Longrightarrow> \<not> answers_at w" by (simp add: answers_at_def)
  then show ?thesis
    using step SvLook nobody_serves [OF inv] by (auto split: if_splits intro!: servers_inv_moved [OF inv])
next
  case (SvConnect p)
  then show ?thesis
    using step nobody_serves [OF inv] by (auto split: if_splits intro!: servers_inv_moved [OF inv])
next
  case (SvUnlink p ok)
  then show ?thesis
    using step servers_inv_file [OF inv, of p Claimed None "sw_next w"] servers_inv_moved [OF inv, of Idle p]
    by (auto split: if_splits)
next
  case (SvBind p ok)
  then show ?thesis
    using step servers_invD(4) [OF inv, of p]
      servers_inv_file [OF inv, of p "Bound (sw_next w)" "Some (sw_next w)" "Suc (sw_next w)"]
    by (auto split: if_splits intro!: servers_inv_moved [OF inv])
next
  case (SvListen p ok)
  then show ?thesis
    using step servers_invD(4) [OF inv, of p]
    by (auto split: if_splits server_stage.splits intro!: servers_inv_moved [OF inv] servers_inv_listen [OF inv])
next
  case (SvEnd p)
  then show ?thesis
    using step serial by (auto split: server_stage.splits intro!: servers_inv_closed [OF inv])
next
  case (SvRemove p)
  then show ?thesis
    using step servers_inv_file [OF inv, of p Idle None "sw_next w"] by (auto split: if_splits)
next
  case (SvDie p)
  then show ?thesis
    using step by (auto split: server_stage.splits intro!: servers_inv_closed [OF inv] servers_inv_moved [OF inv])
qed (use step serial in \<open>auto split: if_splits intro!: servers_inv_moved [OF inv]\<close>)

lemma new_world_inv: "servers_inv (new_world stale)"
  by (simp add: servers_inv_def new_world_def)

lemma servers_servers_inv: "servers w \<Longrightarrow> servers_inv w"
  by (rule serial.invariant [where Q = servers_inv])
    (auto simp: new_world_inv simp del: server_step.simps intro: server_step_inv)

subsection \<open>The claim, alone and in company\<close>

text \<open>Undisturbed, the steps of a claim end where \<open>claim_socket\<close> does.\<close>

lemma claim_steps:
  assumes "sw_stage w p = Idle"
  shows "\<exists>w'. server_steps
      (SvStart p # SvLook p (parent_exists \<noteq> Some False \<or> created = None)
       # (if sw_file w = None then [] else SvConnect p # (if answers_at w then [] else [SvUnlink p (removed = None)]))) w
      = Some w'
    \<and> sw_stage w' p = (if isl (fst (claim_socket (sw_file w \<noteq> None) (answers_at w) removed parent_exists created))
                       then Idle else Claimed)"
  using assms by (auto simp: claim_socket_def answers_at_def split: option.splits)

text \<open>
  Two servers that start at once both find the path free. The one whose bind fails still
  removes the socket file as it leaves, and the other serves on a socket nobody can reach.
\<close>

lemma losing_bind_unlinks_the_winner:
  "\<exists>w. server_steps [SvStart 1, SvStart 2, SvLook 1 True, SvLook 2 True, SvBind 1 True, SvListen 1 True,
       SvBind 2 True, SvRemove 2] (new_world False) = Some w
     \<and> sw_stage w 1 = ServingOn 1 \<and> sw_file w = None"
  by (simp add: new_world_def answers_at_def)

text \<open>So does a server that is leaving when its successor has already taken over its path.\<close>

lemma leaving_server_unlinks_its_successor:
  "\<exists>w. server_steps [SvStart 1, SvLook 1 True, SvBind 1 True, SvListen 1 True, SvEnd 1,
       SvStart 2, SvLook 2 True, SvConnect 2, SvUnlink 2 True, SvBind 2 True, SvListen 2 True, SvRemove 1] (new_world False) = Some w
     \<and> sw_stage w 2 = ServingOn 2 \<and> sw_file w = None"
  by (simp add: new_world_def answers_at_def)

subsection \<open>Properties\<close>

text \<open>
  C10: a server owns the socket it serves on. In every history of servers that start, fail,
  stop and are killed on one path, none of them starting or stopping while another is, a
  process that serves is the only one, the path names its socket, and it answers there; and
  whoever else starts is refused and leaves everything as it was.
\<close>

theorem serving_socket_is_own:
  assumes "servers w" "sw_stage w p = ServingOn i"
  shows "sw_file w = Some i \<and> answers_at w \<and> (\<forall>q j. sw_stage w q = ServingOn j \<longrightarrow> q = p)
    \<and> (\<forall>q created. sw_stage w q = Idle \<longrightarrow> server_steps [SvStart q, SvLook q created, SvConnect q] w = Some w)"
proof -
  note inv = servers_servers_inv [OF assms(1)]
  have named: "sw_file w = Some i" using servers_invD(1) [OF inv assms(2)] .
  moreover have ans: "answers_at w" using servers_invD(2) [OF inv assms(2)] by (simp add: answers_at_def named)
  moreover have "\<forall>q j. sw_stage w q = ServingOn j \<longrightarrow> q = p" using servers_invD(5) [OF inv assms(2)] by blast
  moreover have "sw_stage w q = Idle \<Longrightarrow> server_steps [SvStart q, SvLook q created, SvConnect q] w = Some w" for q created
    using named ans by (cases w) (auto simp: moved_def answers_at_def fun_upd_idem)
  ultimately show ?thesis by blast
qed

text \<open>Server 1 takes over a stale socket and is killed; server 2 takes over its socket.\<close>

lemma servers_window:
  "servers w \<Longrightarrow> list_all (\<lambda>s. \<not> opens_window s) ss \<Longrightarrow> server_steps ss w = Some w' \<Longrightarrow> servers w'"
  by (rule serial.reach_run) (auto simp: list_all_iff)

lemma servers_started:
  "servers w \<Longrightarrow> quiet w \<Longrightarrow> list_all (\<lambda>s. \<not> opens_window s) ss
     \<Longrightarrow> server_steps (SvStart p # ss) w = Some w' \<Longrightarrow> servers w'"
  by (cases "server_step (SvStart p) w") (auto simp del: server_step.simps intro: servers_window servers_step)

definition demo_takeover :: "nat \<Rightarrow> server_call list" where
  "demo_takeover p = [SvLook p True, SvConnect p, SvUnlink p True, SvBind p True, SvListen p True]"

definition demo_world :: "nat \<Rightarrow> socket_world" where
  "demo_world n = \<lparr>sw_file = Some n, sw_next = Suc n, sw_listening = [], sw_stage = (\<lambda>_. Idle)\<rparr>"

definition demo_serving_world :: "nat \<Rightarrow> nat \<Rightarrow> socket_world" where
  "demo_serving_world p n = \<lparr>sw_file = Some n, sw_next = Suc n, sw_listening = [n], sw_stage = (\<lambda>_. Idle)(p := ServingOn n)\<rparr>"

lemma demo_takeover_run:
  "server_steps (SvStart p # demo_takeover p) (demo_world n) = Some (demo_serving_world p (Suc n))"
  "server_steps (SvStart p # demo_takeover p @ [SvDie p]) (demo_world n) = Some (demo_world (Suc n))"
  by (simp_all add: demo_takeover_def demo_world_def demo_serving_world_def answers_at_def moved_def fun_upd_idem)

lemma demo_serving_servers: "servers (demo_serving_world 2 2)"
proof -
  have "demo_world 0 = new_world True" by (simp add: demo_world_def new_world_def)
  then have "servers (demo_world 0)" by (simp add: servers_new)
  moreover have quiet: "quiet (demo_world n)" for n by (simp add: quiet_def demo_world_def)
  ultimately have "servers (demo_world (Suc 0))"
    using servers_started [OF _ quiet _ demo_takeover_run(2) [of 1 0]] by (simp add: demo_takeover_def)
  from servers_started [OF this quiet _ demo_takeover_run(1) [of 2 "Suc 0"]] show ?thesis
    by (simp add: demo_takeover_def numeral_2_eq_2)
qed

theorem serving_socket_is_own_witness:
  "answers_at (demo_serving_world 2 2)
   \<and> server_steps [SvStart 3, SvLook 3 True, SvConnect 3] (demo_serving_world 2 2) = Some (demo_serving_world 2 2)"
proof -
  have "sw_stage (demo_serving_world 2 2) 2 = ServingOn 2" "sw_stage (demo_serving_world 2 2) 3 = Idle"
    by (simp_all add: demo_serving_world_def)
  then show ?thesis using serving_socket_is_own [OF demo_serving_servers, of 2 2] by blast
qed

lemma serve_on_effects:
  assumes "serve_on a socket events app = (r, done, app')"
  shows "\<exists>n. done = take n [BindsSocket, PrintsSocket socket, Serves]"
    "BindsSocket \<in> set done \<longleftrightarrow> sa_bind a = None"
    "PrintsSocket socket \<in> set done \<longleftrightarrow> sa_bind a = None \<and> shutdown_signal a = Inr ()"
    "Serves \<in> set done \<longleftrightarrow> sa_bind a = None \<and> shutdown_signal a = Inr () \<and> sa_flush a = None"
    "r = Inr () \<Longrightarrow> Serves \<in> set done \<and> ap_registry app' = [] \<and> pl_slots (ap_templates app') = []"
proof -
  have "done \<in> {[], [BindsSocket], [BindsSocket, PrintsSocket socket], [BindsSocket, PrintsSocket socket, Serves]}"
    using assms by (auto simp: serve_on_def Let_def split: option.splits sum.splits)
  then show "\<exists>n. done = take n [BindsSocket, PrintsSocket socket, Serves]"
    by (auto intro: exI [of _ 0] exI [of _ 1] exI [of _ 2] exI [of _ 3])
qed (use assms in \<open>auto simp: serve_on_def shut_down_server_def registry_clear_def clear_templates_def Let_def
      split: option.splits sum.splits\<close>)

text \<open>
  What a server does, whatever fails. A server that is refused because another answers has
  touched nothing. Otherwise it binds, announces its socket, and serves, in that order and
  each only when everything before succeeded, the signal handlers before the announcement; the
  socket is unlinked at the end exactly when it got as far as to try to bind; and a server that
  ends well has emptied its registry and its pool, so that every instance and every template
  was told to stop.
\<close>

theorem server_run_effects:
  assumes "serve_run a options events = (r, done, app)"
  shows "(r = Inl (ClaimFailed AlreadyServed) \<longrightarrow> done = [] \<and> app = None)
    \<and> (\<exists>actions n. done = map Claims actions
         @ (if app = None then [] else take n [BindsSocket, PrintsSocket (so_socket options), Serves] @ [UnlinksSocket]))
    \<and> (BindsSocket \<in> set done \<longleftrightarrow> app \<noteq> None \<and> sa_bind a = None)
    \<and> (PrintsSocket (so_socket options) \<in> set done
        \<longleftrightarrow> app \<noteq> None \<and> sa_bind a = None \<and> shutdown_signal a = Inr ())
    \<and> (r = Inr () \<longrightarrow> Serves \<in> set done
        \<and> (\<exists>app'. app = Some app' \<and> ap_registry app' = [] \<and> pl_slots (ap_templates app') = []))"
proof (cases app)
  case None
  then show ?thesis
    using assms by (auto simp: serve_run_def claim_socket_def intro: exI [of _ "[RemoveSocket]"] exI [of _ "[CreateParent]"]
        split: if_splits option.splits sum.splits prod.splits)
next
  case (Some app')
  then obtain actions rest roots where on: "serve_on a (so_socket options) events (new_app options roots) = (r, rest, app')"
    and did: "done = map Claims actions @ rest @ [UnlinksSocket]"
    using assms by (auto simp: serve_run_def split: option.splits sum.splits prod.splits)
  have refused: "r \<noteq> Inl (ClaimFailed AlreadyServed)"
    using on by (auto simp: serve_on_def shutdown_signal_def Let_def split: option.splits)
  from serve_on_effects [OF on] refused Some show ?thesis by (auto simp: did)
qed

definition demo_options :: serve_options where
  "demo_options =
     \<lparr>so_socket = [RootDir, Normal ''serve.sock''], so_services = ap_services demo_app, so_cache_dir = [RootDir],
      so_template_ttl = DEFAULT_TEMPLATE_TTL, so_recipe_roots = []\<rparr>"

text \<open>A start over a stale socket, in which every call succeeds.\<close>

definition demo_answers :: serve_answers where
  "demo_answers =
     \<lparr>sa_exists = True, sa_answered = False, sa_removed = None, sa_parent_exists = Some True, sa_created = None,
      sa_fs = \<lparr>fs_canonicalize = Inr, fs_is_file = (\<lambda>_. True), fs_is_dir = (\<lambda>_. True), fs_read = (\<lambda>_. Inr []),
               fs_read_to_string = (\<lambda>_. Inr [])\<rparr>,
      sa_runtime = None, sa_bind = None, sa_interrupt = None, sa_terminate = None, sa_flush = None, sa_server = None\<rparr>"

theorem server_run_effects_witness:
  "\<exists>done app. serve_run demo_answers demo_options [AppSweep 0] = (Inr (), done, Some app)
     \<and> BindsSocket \<in> set done \<and> ap_registry app = []"
proof -
  obtain r did state where run: "serve_run demo_answers demo_options [AppSweep 0] = (r, did, state)"
    by (metis surj_pair)
  then have ok: "r = Inr ()"
    by (simp add: serve_run_def serve_on_def shutdown_signal_def demo_answers_def demo_options_def claim_socket_def
        Let_def split: prod.splits)
  from server_run_effects [OF run] run ok show ?thesis by (auto simp: demo_answers_def)
qed

end
