(* ===== verification/Host.thy ===== *)
theory Host
  imports Freeze
begin

text \<open>
  The host's control loop (\<open>src/crates/servicecache/src/host/mod.rs\<close>): the event pipe, the
  tick, the handlers of the six requests with the waits they contain, and the loop. Each
  definition takes the observations still to come and returns those it did not use; \<open>Waiting\<close>
  says that the host was still waiting when they ended.
\<close>

subsection \<open>The event pipe\<close>

datatype event = Listening | RunEnded | Probed

record events =
  ev_listening :: bool
  ev_run_ended :: bool
  ev_probed :: bool

definition event_of_byte :: "byte \<Rightarrow> host_error + event" where
  "event_of_byte b =
     (if b = 1 then Inr Listening else if b = 2 then Inr RunEnded else if b = 3 then Inr Probed
      else Inl (BadEvent b))"

fun note_events :: "byte list \<Rightarrow> events \<Rightarrow> host_error + events" where
  "note_events [] ev = Inr ev"
| "note_events (b # bs) ev =
     (case event_of_byte b of
        Inl e \<Rightarrow> Inl e
      | Inr Listening \<Rightarrow> note_events bs (ev\<lparr>ev_listening := True\<rparr>)
      | Inr RunEnded \<Rightarrow> note_events bs (ev\<lparr>ev_run_ended := True\<rparr>)
      | Inr Probed \<Rightarrow> note_events bs (ev\<lparr>ev_probed := True\<rparr>))"

text \<open>The pipe is read in blocks of 64 bytes; a bad byte leaves the later blocks in it.\<close>

function drain_pipe :: "byte list \<Rightarrow> events \<Rightarrow> byte list \<times> (host_error + events)" where
  "drain_pipe pipe ev =
     (if pipe = [] then ([], Inr ev)
      else case note_events (take 64 pipe) ev of
        Inl e \<Rightarrow> (drop 64 pipe, Inl e)
      | Inr ev' \<Rightarrow> drain_pipe (drop 64 pipe) ev')"
  by pat_completeness auto
termination
  by (relation "measure (\<lambda>(pipe, _). length pipe)") auto

declare drain_pipe.simps [simp del]

definition drain :: "host \<Rightarrow> (host_error + events) \<times> host" where
  "drain h =
     (case drain_pipe (h_pipe h) \<lparr>ev_listening = False, ev_run_ended = False, ev_probed = False\<rparr> of
        (rest, r) \<Rightarrow> (r, h\<lparr>h_pipe := rest\<rparr>))"

subsection \<open>Waiting and ticking\<close>

definition EINTR :: errno where
  "EINTR = 4"

definition wait :: "observation \<Rightarrow> host \<Rightarrow> (host_error + bool) \<times> host" where
  "wait ob h =
     (let h' = absorb ob h in
      case ob_poll ob of
        PollOk readable \<Rightarrow> (Inr readable, h')
      | PollErr e \<Rightarrow> if e = EINTR then (Inr False, h') else (Inl (PollFailed e), h'))"

fun report_children :: "fd \<Rightarrow> child_end list \<Rightarrow> host \<Rightarrow> (host_error + unit) \<times> host" where
  "report_children ch [] h = (Inr (), h)"
| "report_children ch (c # cs) h =
     (let reply = (case c of
                     ChildExited pid status \<Rightarrow> Exited RunChild status (Some pid)
                   | ChildSignaled pid signal \<Rightarrow> Exited RunChild (128 + signal) (Some pid))
      in case send_reply ch reply h of
           (Inl e, h') \<Rightarrow> (Inl e, h')
         | (Inr _, h') \<Rightarrow> report_children ch cs h')"

definition tick :: "fd \<Rightarrow> observation \<Rightarrow> host \<Rightarrow> (host_error + bool) \<times> host" where
  "tick ch ob h =
     (case drain h of
        (Inl e, h1) \<Rightarrow> (Inl e, h1)
      | (Inr _, h1) \<Rightarrow>
          if \<not> ob_signals_ok ob then (Inl SignalReadFailed, h1)
          else case (if h_phase h1 \<noteq> PhaseFrozen \<and> h_guest h1 then ob_guest ob else None) of
            Some status \<Rightarrow>
              (case send_reply ch (Exited RunGuest status None) h1 of
                 (Inl e, h2) \<Rightarrow> (Inl e, h2)
               | (Inr _, h2) \<Rightarrow> (Inr True, h2))
          | None \<Rightarrow>
              (case report_children ch (ob_children ob) h1 of
                 (Inl e, h2) \<Rightarrow> (Inl e, h2)
               | (Inr _, h2) \<Rightarrow> (Inr False, h2)))"

definition compact :: "observation \<Rightarrow> host \<Rightarrow> host" where
  "compact ob h =
     (if h_compaction h \<and> ob_compacted ob then h\<lparr>h_compaction := False\<rparr> else h)"

subsection \<open>Replies\<close>

datatype stop = Waiting | Failed host_error

definition ready_reply :: "host \<Rightarrow> (host_error + reply) \<times> host" where
  "ready_reply h =
     (case endpoint (h_networking h) of
        Inl e \<Rightarrow> (Inl (Networking e), h)
      | Inr ep \<Rightarrow> (Inr (Ready (show_addr ep)), set_host_title (Serving ep) h))"

definition forked_reply :: "nat \<Rightarrow> host \<Rightarrow> host_error + reply" where
  "forked_reply pid h =
     (case endpoint (h_networking h) of
        Inl e \<Rightarrow> Inl (Networking e)
      | Inr ep \<Rightarrow> Inr (Forked pid (show_addr ep)))"

text \<open>A request read from the channel is recorded in \<open>h_read\<close>.\<close>

definition note_read :: "request frame \<Rightarrow> host \<Rightarrow> host" where
  "note_read f h = h\<lparr>h_read := h_read h @ [fr_message f]\<rparr>"

definition refuse_while_busy ::
  "fd \<Rightarrow> string \<Rightarrow> observation \<Rightarrow> host \<Rightarrow> (host_error + bool) \<times> host" where
  "refuse_while_busy ch why ob h =
     (case ob_recv ob of
        Inl e \<Rightarrow> (Inl (Channel e), h)
      | Inr None \<Rightarrow> (Inr False, h)
      | Inr (Some f) \<Rightarrow>
          (let h1 = note_read f h in
           if fr_message f = RqStop then (Inr False, h1)
           else case send_reply ch (Error (''busy: '' @ why)) h1 of
             (Inl e, h2) \<Rightarrow> (Inl e, h2)
           | (Inr _, h2) \<Rightarrow> (Inr True, h2)))"

fun run_name :: "run \<Rightarrow> string" where
  "run_name RunPrepare = ''Prepare''"
| "run_name RunGuest = ''Guest''"
| "run_name RunInitializer = ''Initializer''"
| "run_name RunChild = ''Child''"

text \<open>
  \<open>wait_run\<close>: the status is the one \<open>exit_status\<close> reads, first right after the spawn, then
  after each wait.
\<close>

fun wait_run ::
  "fd \<Rightarrow> run \<Rightarrow> int option \<Rightarrow> observation list \<Rightarrow> host
     \<Rightarrow> (stop + int option) \<times> host \<times> observation list" where
  "wait_run ch r (Some status) obs h = (Inr (Some status), h, obs)"
| "wait_run ch r None [] h = (Inl Waiting, h, [])"
| "wait_run ch r None (ob # obs) h =
     (case wait ob h of
        (Inl e, h1) \<Rightarrow> (Inl (Failed e), h1, obs)
      | (Inr readable, h1) \<Rightarrow>
          (case tick ch ob h1 of
             (Inl e, h2) \<Rightarrow> (Inl (Failed e), h2, obs)
           | (Inr True, h2) \<Rightarrow> (Inr None, h2, obs)
           | (Inr False, h2) \<Rightarrow>
               if \<not> readable then wait_run ch r (ob_run ob) obs h2
               else case refuse_while_busy ch (run_name r @ '' is running'') ob h2 of
                 (Inl e, h3) \<Rightarrow> (Inl (Failed e), h3, obs)
               | (Inr False, h3) \<Rightarrow> (Inr None, h3, obs)
               | (Inr True, h3) \<Rightarrow> wait_run ch r (ob_run ob) obs h3))"

subsection \<open>Program names\<close>

fun guest_visible_path :: "(path \<times> path) list \<Rightarrow> path \<Rightarrow> string option" where
  "guest_visible_path [] module = None"
| "guest_visible_path ((guest, host) # mounts) module =
     (case strip_prefix module host of
        Some relative \<Rightarrow> Some (show_path (join_path guest relative))
      | None \<Rightarrow> guest_visible_path mounts module)"

definition program_name :: "manifest \<Rightarrow> path \<Rightarrow> string" where
  "program_name m module =
     (case (case mf_prepare m of
              None \<Rightarrow> None
            | Some p \<Rightarrow> guest_visible_path (pr_fs p) module) of
        Some s \<Rightarrow> s
      | None \<Rightarrow> (case file_name module of Some s \<Rightarrow> s | None \<Rightarrow> ''module''))"

subsection \<open>prepare, start and initialize\<close>

definition host_prepare ::
  "host_env \<Rightarrow> fd \<Rightarrow> observation \<Rightarrow> observation list \<Rightarrow> host
     \<Rightarrow> (stop + reply option) \<times> host \<times> observation list" where
  "host_prepare env ch ob obs h =
     (if h_phase h \<noteq> Fresh
      then (Inl (Failed (Refused ''prepare is only accepted before anything has run'')), h, obs)
      else
        let finish = (\<lambda>status h1 obs1.
              (Inr (Some (Exited RunPrepare status None)), h1\<lparr>h_phase := Prepared\<rparr>, obs1))
        in case mf_prepare (h_manifest h) of
             None \<Rightarrow> finish 0 h obs
           | Some p \<Rightarrow>
               (case pr_module p of
                  None \<Rightarrow> finish 0 h obs
                | Some module \<Rightarrow>
                    (case read_stdin (he_fs env) p of
                       Inl e \<Rightarrow> (Inl (Failed (StdinUnreadable e)), h, obs)
                     | Inr stdin \<Rightarrow>
                         (case spawn_run ob RunPrepare
                                 \<lparr>gr_module = module,
                                  gr_program_name = program_name (h_manifest h) module,
                                  gr_args = pr_args p, gr_stdin = stdin, gr_network = False\<rparr> h of
                            (Inl e, h1) \<Rightarrow> (Inl (Failed e), h1, obs)
                          | (Inr status, h1) \<Rightarrow>
                              (case wait_run ch RunPrepare status obs h1 of
                                 (Inl s, h2, obs2) \<Rightarrow> (Inl s, h2, obs2)
                               | (Inr None, h2, obs2) \<Rightarrow> (Inr None, h2, obs2)
                               | (Inr (Some st), h2, obs2) \<Rightarrow> finish st h2 obs2)))))"

text \<open>The loop of \<open>start\<close>: ready, or dead before it listened.\<close>

definition become_ready :: "host \<Rightarrow> (stop + reply option) \<times> host" where
  "become_ready h =
     (case ready_reply (h\<lparr>h_phase := Running True\<rparr>) of
        (Inl e, h') \<Rightarrow> (Inl (Failed e), h')
      | (Inr r, h') \<Rightarrow> (Inr (Some r), h'))"

definition start_probe :: "observation \<Rightarrow> host \<Rightarrow> (host_error + unit) \<times> host" where
  "start_probe ob h =
     (case endpoint (h_networking h) of
        Inl e \<Rightarrow> (Inl (Networking e), h)
      | Inr _ \<Rightarrow>
          (case ob_probe_spawn ob of
             Some e \<Rightarrow> (Inl (ProbeNotStarted e), h)
           | None \<Rightarrow> (Inr (), h\<lparr>h_probe := True\<rparr>)))"

text \<open>
  What one round decides from the drained events: \<open>Inl\<close> ends the loop, \<open>Inr\<close> goes on.
\<close>

definition heed_events ::
  "observation \<Rightarrow> events \<Rightarrow> host \<Rightarrow> ((stop + reply option) + unit) \<times> host" where
  "heed_events ob ev h =
     (let listened =
            (if \<not> ev_listening ev then (Inr (), h)
             else case gs_ready (mf_guest (h_manifest h)) of
               Some _ \<Rightarrow>
                 if h_probe h then (Inr (), h)
                 else (case start_probe ob h of
                         (Inl e, h1) \<Rightarrow> (Inl (Inl (Failed e)), h1)
                       | (Inr _, h1) \<Rightarrow> (Inr (), h1))
             | None \<Rightarrow> (case become_ready h of (r, h1) \<Rightarrow> (Inl r, h1)))
      in case listened of
           (Inl r, h1) \<Rightarrow> (Inl r, h1)
         | (Inr _, h1) \<Rightarrow>
             if \<not> ev_probed ev then (Inr (), h1)
             else case (if h_probe h1 then ob_probe ob else None) of
               Some (Inr _) \<Rightarrow> (case become_ready h1 of (r, h2) \<Rightarrow> (Inl r, h2))
             | Some (Inl summary) \<Rightarrow> (Inl (Inl (Failed (ProbeFailed summary))), h1)
             | None \<Rightarrow>
                 (Inl (Inl (Failed (ProbeFailed ''the probe ended without an outcome''))), h1))"

fun start_loop ::
  "fd \<Rightarrow> observation list \<Rightarrow> host \<Rightarrow> (stop + reply option) \<times> host \<times> observation list" where
  "start_loop ch [] h = (Inl Waiting, h, [])"
| "start_loop ch (ob # obs) h =
     (case wait ob h of
        (Inl e, h1) \<Rightarrow> (Inl (Failed e), h1, obs)
      | (Inr readable, h1) \<Rightarrow>
          (case drain h1 of
             (Inl e, h2) \<Rightarrow> (Inl (Failed e), h2, obs)
           | (Inr ev, h2) \<Rightarrow>
               (case heed_events ob ev h2 of
                  (Inl r, h3) \<Rightarrow> (r, h3, obs)
                | (Inr _, h3) \<Rightarrow>
                    (case ob_guest ob of
                       Some status \<Rightarrow> (Inr (Some (Exited RunGuest status None)), h3, obs)
                     | None \<Rightarrow>
                         if \<not> readable then start_loop ch obs h3
                         else case refuse_while_busy ch ''the guest is starting'' ob h3 of
                           (Inl e, h4) \<Rightarrow> (Inl (Failed e), h4, obs)
                         | (Inr False, h4) \<Rightarrow> (Inr None, h4, obs)
                         | (Inr True, h4) \<Rightarrow> start_loop ch obs h4))))"

definition host_start ::
  "host_env \<Rightarrow> fd \<Rightarrow> fd list \<Rightarrow> observation \<Rightarrow> observation list \<Rightarrow> host
     \<Rightarrow> (stop + reply option) \<times> host \<times> observation list" where
  "host_start env ch fds ob obs h =
     (if h_phase h \<noteq> Fresh \<and> h_phase h \<noteq> Prepared
      then (Inl (Failed (Refused ''start is only accepted once, before the guest runs'')), h, obs)
      else case fds of
        [listener] \<Rightarrow>
          (case set_listener (he_local_addr env) listener (h_networking h) of
             Inl e \<Rightarrow> (Inl (Failed (Networking e)), h, obs)
           | Inr n \<Rightarrow>
               (let h1 = h\<lparr>h_networking := n\<rparr>; g = mf_guest (h_manifest h) in
                case spawn_run ob RunGuest
                       \<lparr>gr_module = gs_module g,
                        gr_program_name = program_name (h_manifest h) (gs_module g),
                        gr_args = gs_args g, gr_stdin = [], gr_network = True\<rparr> h1 of
                  (Inl e, h2) \<Rightarrow> (Inl (Failed e), h2, obs)
                | (Inr _, h2) \<Rightarrow>
                    start_loop ch obs (h2\<lparr>h_guest := True, h_phase := Running False\<rparr>)))
      | _ \<Rightarrow>
          (Inl (Failed (Refused ''start needs exactly one descriptor, the listening socket'')),
           h, obs))"

definition initializer_args :: "sockaddr \<Rightarrow> string list \<Rightarrow> string list" where
  "initializer_args ep args =
     map (\<lambda>arg. str_replace ''{port}'' (show_port (sa_port ep))
                 (str_replace ''{host}'' (show_ip (sa_ip ep)) arg)) args"

definition host_initialize ::
  "host_env \<Rightarrow> fd \<Rightarrow> byte list \<Rightarrow> observation \<Rightarrow> observation list \<Rightarrow> host
     \<Rightarrow> (stop + reply option) \<times> host \<times> observation list" where
  "host_initialize env ch recipe ob obs h =
     (if h_phase h \<noteq> Running True
      then (Inl (Failed (Refused ''initialize is only accepted while the guest is ready'')), h, obs)
      else case mf_initializer (h_manifest h) of
        None \<Rightarrow> (Inl (Failed (Refused ''the manifest has no initializer'')), h, obs)
      | Some init \<Rightarrow>
          (case endpoint (h_networking h) of
             Inl e \<Rightarrow> (Inl (Failed (Networking e)), h, obs)
           | Inr ep \<Rightarrow>
               (case spawn_run ob RunInitializer
                       \<lparr>gr_module = in_module init,
                        gr_program_name = program_name (h_manifest h) (in_module init),
                        gr_args = initializer_args ep (in_args init), gr_stdin = recipe,
                        gr_network = True\<rparr> h of
                  (Inl e, h1) \<Rightarrow> (Inl (Failed e), h1, obs)
                | (Inr status, h1) \<Rightarrow>
                    (case wait_run ch RunInitializer status obs h1 of
                       (Inl s, h2, obs2) \<Rightarrow> (Inl s, h2, obs2)
                     | (Inr None, h2, obs2) \<Rightarrow> (Inr None, h2, obs2)
                     | (Inr (Some st), h2, obs2) \<Rightarrow>
                         (Inr (Some (Exited RunInitializer st None)),
                          (if st = 0
                           then set_host_title (Serving ep)
                                  (h2\<lparr>h_recipe := Some (he_sha256 env recipe)\<rparr>)
                           else h2), obs2)))))"

subsection \<open>freeze and fork\<close>

datatype outcome = Continue | Exit | Child fd

definition refuse :: "fd \<Rightarrow> string \<Rightarrow> host \<Rightarrow> (stop + outcome) \<times> host" where
  "refuse ch text h =
     (case send_reply ch (Error text) h of
        (Inl e, h') \<Rightarrow> (Inl (Failed e), h')
      | (Inr _, h') \<Rightarrow> (Inr Continue, h'))"

definition host_freeze :: "fd \<Rightarrow> observation \<Rightarrow> host \<Rightarrow> (stop + outcome) \<times> host" where
  "host_freeze ch ob h =
     (if h_phase h \<noteq> Running True
      then refuse ch ''freeze is only accepted while the guest is ready'' h
      else
        let h1 = set_host_title TitleFrozen (h\<lparr>h_phase := PhaseFrozen\<rparr>) in
        case freeze_guest ob h1 of
          (Inr coroutines, h2) \<Rightarrow>
            (case send_reply ch (Frozen coroutines) h2 of
               (Inl e, h3) \<Rightarrow> (Inl (Failed e), h3)
             | (Inr _, h3) \<Rightarrow> (Inr Continue, h3\<lparr>h_compaction := True\<rparr>))
        | (Inl e, h2) \<Rightarrow>
            (case send_reply ch (Error (error_text e)) h2 of
               (Inl e', h3) \<Rightarrow> (Inl (Failed e'), h3)
             | (Inr _, h3) \<Rightarrow> (Inr Exit, h3)))"

definition host_fork ::
  "host_env \<Rightarrow> fd \<Rightarrow> fd list \<Rightarrow> observation \<Rightarrow> host \<Rightarrow> (stop + outcome) \<times> host" where
  "host_fork env ch fds ob h =
     (if h_phase h \<noteq> PhaseFrozen then refuse ch ''fork is only accepted on a frozen host'' h
      else case fds of
        [control, listener] \<Rightarrow>
          (case fork_host env ob control listener h of
             (Inr (Parent pid ep), h1) \<Rightarrow>
               (case send_reply ch (Forked pid (show_addr ep)) h1 of
                  (Inl e, h2) \<Rightarrow> (Inl (Failed e), h2)
                | (Inr _, h2) \<Rightarrow> (Inr Continue, h2))
           | (Inr (ForkedChild own (Inr _)), h1) \<Rightarrow>
               (Inr (Child own), h1\<lparr>h_phase := Running True\<rparr>)
           | (Inr (ForkedChild own (Inl e)), h1) \<Rightarrow>
               (Inr Exit, snd (send_reply own (Error (error_text e)) h1))
           | (Inl e, h1) \<Rightarrow> refuse ch (error_text e) h1)
      | _ \<Rightarrow>
          refuse ch ''fork needs two descriptors: the child's control end and its listening socket'' h)"

subsection \<open>The loop\<close>

definition answer ::
  "fd \<Rightarrow> (stop + reply option) \<times> host \<times> observation list
     \<Rightarrow> (stop + outcome) \<times> host \<times> observation list" where
  "answer ch result =
     (case result of
        (Inr (Some reply), h, obs) \<Rightarrow>
          (case send_reply ch reply h of
             (Inl e, h') \<Rightarrow> (Inl (Failed e), h', obs)
           | (Inr _, h') \<Rightarrow> (Inr Continue, h', obs))
      | (Inr None, h, obs) \<Rightarrow> (Inr Exit, h, obs)
      | (Inl (Failed e), h, obs) \<Rightarrow>
          (case send_reply ch (Error (error_text e)) h of
             (Inl e', h') \<Rightarrow> (Inl (Failed e'), h', obs)
           | (Inr _, h') \<Rightarrow> (Inr Continue, h', obs))
      | (Inl Waiting, h, obs) \<Rightarrow> (Inl Waiting, h, obs))"

definition handle ::
  "host_env \<Rightarrow> fd \<Rightarrow> request frame \<Rightarrow> observation \<Rightarrow> observation list \<Rightarrow> host
     \<Rightarrow> (stop + outcome) \<times> host \<times> observation list" where
  "handle env ch f ob obs h =
     (case fr_message f of
        RqPrepare \<Rightarrow> answer ch (host_prepare env ch ob obs h)
      | RqStart \<Rightarrow> answer ch (host_start env ch (fr_fds f) ob obs h)
      | RqInitialize \<Rightarrow> answer ch (host_initialize env ch (fr_payload f) ob obs h)
      | RqFreeze \<Rightarrow> (case host_freeze ch ob h of (r, h') \<Rightarrow> (r, h', obs))
      | RqFork \<Rightarrow> (case host_fork env ch (fr_fds f) ob h of (r, h') \<Rightarrow> (r, h', obs))
      | RqStop \<Rightarrow> (Inr Exit, h, obs))"

text \<open>One round of \<open>serve\<close>, and the loop.\<close>

datatype round = Again fd host "observation list" | Ended "stop + unit" host

definition serve_round :: "host_env \<Rightarrow> fd \<Rightarrow> observation \<Rightarrow> observation list \<Rightarrow> host \<Rightarrow> round" where
  "serve_round env ch ob obs h =
     (case wait ob h of
        (Inl e, h1) \<Rightarrow> Ended (Inl (Failed e)) h1
      | (Inr readable, h1) \<Rightarrow>
          (case tick ch ob h1 of
             (Inl e, h2) \<Rightarrow> Ended (Inl (Failed e)) h2
           | (Inr True, h2) \<Rightarrow> Ended (Inr ()) h2
           | (Inr False, h2) \<Rightarrow>
               if \<not> readable then Again ch (compact ob h2) obs
               else case ob_recv ob of
                 Inl e \<Rightarrow> Ended (Inl (Failed (Channel e))) h2
               | Inr None \<Rightarrow> Ended (Inr ()) h2
               | Inr (Some f) \<Rightarrow>
                   (case handle env ch f ob obs (note_read f h2) of
                      (Inl s, h3, _) \<Rightarrow> Ended (Inl s) h3
                    | (Inr Continue, h3, obs3) \<Rightarrow> Again ch h3 obs3
                    | (Inr Exit, h3, _) \<Rightarrow> Ended (Inr ()) h3
                    | (Inr (Child own), h3, obs3) \<Rightarrow>
                        (let h4 = h3\<lparr>h_compaction := False\<rparr> in
                         case forked_reply (h_pid h4) h4 of
                           Inl e \<Rightarrow> Ended (Inl (Failed e)) h4
                         | Inr reply \<Rightarrow>
                             (case send_reply own reply h4 of
                                (Inl e, h5) \<Rightarrow> Ended (Inl (Failed e)) h5
                              | (Inr _, h5) \<Rightarrow> Again own h5 obs3)))))"


subsection \<open>What the effects leave alone\<close>

definition core ::
  "host \<Rightarrow> phase \<times> bool \<times> (run \<times> guest_run) list \<times> bool \<times> nat option \<times> manifest \<times> byte list option \<times> nat" where
  "core h = (h_phase h, h_guest h, h_runs h, h_compaction h, h_shared_memory h, h_manifest h, h_recipe h, h_pid h)"

definition child_notice :: "reply \<Rightarrow> bool" where
  "child_notice r = (case r of Exited RunChild _ _ \<Rightarrow> True | _ \<Rightarrow> False)"

text \<open>Replies that answer a request, as opposed to notices that a clone ended.\<close>

definition answers :: "host \<Rightarrow> nat" where
  "answers h = length (filter (\<lambda>(_, r). \<not> child_notice r) (h_sent h))"

text \<open>\<open>k\<close> requests read and not yet answered, unless the channel has failed.\<close>

definition outstanding :: "nat \<Rightarrow> host \<Rightarrow> bool" where
  "outstanding k h = (answers h + k = length (h_read h) \<or> h_sends_left h = Some 0)"

lemma core_apply_guest_op [simp]: "core (apply_guest_op g h) = core h"
  by (auto simp: core_def apply_guest_op_def Let_def split: guest_op.splits prod.splits sum.splits)

lemma messages_apply_guest_op [simp]:
  "h_sent (apply_guest_op g h) = h_sent h" "h_read (apply_guest_op g h) = h_read h"
  "h_sends_left (apply_guest_op g h) = h_sends_left h" "h_probe (apply_guest_op g h) = h_probe h"
  by (auto simp: apply_guest_op_def Let_def split: guest_op.splits prod.splits sum.splits)

lemma fold_guest_ops [simp]:
  "core (fold apply_guest_op gs h) = core h"
  "h_sent (fold apply_guest_op gs h) = h_sent h" "h_read (fold apply_guest_op gs h) = h_read h"
  "h_sends_left (fold apply_guest_op gs h) = h_sends_left h" "h_probe (fold apply_guest_op gs h) = h_probe h"
  by (induction gs arbitrary: h) simp_all

lemma core_update_simps [simp]:
  "core (h\<lparr>h_pipe := a\<rparr>) = core h" "core (h\<lparr>h_networking := b\<rparr>) = core h"
  "core (h\<lparr>h_read := c\<rparr>) = core h" "core (h\<lparr>h_sent := d\<rparr>) = core h"
  "core (h\<lparr>h_sends_left := e\<rparr>) = core h" "core (h\<lparr>h_title := f\<rparr>) = core h"
  "core (h\<lparr>h_probe := g\<rparr>) = core h"
  by (simp_all add: core_def)

lemma absorb_frame [simp]:
  "core (absorb ob h) = core h" "h_sent (absorb ob h) = h_sent h" "h_read (absorb ob h) = h_read h"
  "h_sends_left (absorb ob h) = h_sends_left h" "h_probe (absorb ob h) = h_probe h"
  by (simp_all add: absorb_def Let_def)

lemma wait_frame:
  assumes "wait ob h = (r, h')"
  shows "core h' = core h" "h_sent h' = h_sent h" "h_read h' = h_read h"
    "h_sends_left h' = h_sends_left h" "h_probe h' = h_probe h"
  using assms by (auto simp: wait_def Let_def split: poll_result.splits if_splits)

lemma drain_frame:
  assumes "drain h = (r, h')"
  shows "core h' = core h" "h_sent h' = h_sent h" "h_read h' = h_read h"
    "h_sends_left h' = h_sends_left h" "h_networking h' = h_networking h" "h_probe h' = h_probe h"
  using assms by (auto simp: drain_def split: prod.splits)

lemma send_reply_frame:
  assumes "send_reply ch r h = (x, h')"
  shows "core h' = core h" "h_read h' = h_read h" "h_networking h' = h_networking h"
    "h_pipe h' = h_pipe h" "h_probe h' = h_probe h"
  using assms by (auto simp: send_reply_def split: option.splits nat.splits)

lemma send_reply_cases:
  assumes "send_reply ch r h = (x, h')"
  obtains (sent) "x = Inr ()" "h_sends_left h \<noteq> Some 0" "h_sent h' = h_sent h @ [(ch, r)]"
  | (broken) e where "x = Inl e" "h_sends_left h = Some 0" "h' = h"
  using assms by (auto simp: send_reply_def split: option.splits nat.splits)

lemma outstanding_send:
  assumes "outstanding (Suc k) h" "send_reply ch r h = (Inr u, h')" "\<not> child_notice r"
  shows "answers h' + k = length (h_read h')"
  using assms(2)
proof (cases rule: send_reply_cases)
  case sent
  with assms(1,3) show ?thesis
    by (simp add: outstanding_def answers_def send_reply_frame(2) [OF assms(2)])
qed simp

lemma outstanding_updates [simp]:
  "outstanding k (h\<lparr>h_phase := a\<rparr>) = outstanding k h" "outstanding k (h\<lparr>h_networking := b\<rparr>) = outstanding k h"
  "outstanding k (h\<lparr>h_guest := c\<rparr>) = outstanding k h" "outstanding k (h\<lparr>h_title := d\<rparr>) = outstanding k h"
  "outstanding k (h\<lparr>h_probe := e\<rparr>) = outstanding k h" "outstanding k (h\<lparr>h_recipe := f\<rparr>) = outstanding k h"
  "outstanding k (h\<lparr>h_runs := g\<rparr>) = outstanding k h" "outstanding k (h\<lparr>h_compaction := i\<rparr>) = outstanding k h"
  "outstanding k (set_host_title t h) = outstanding k h"
  by (simp_all add: outstanding_def answers_def set_host_title_def Let_def)

lemma core_set_host_title [simp]: "core (set_host_title t h) = core h"
  by (simp add: set_host_title_def Let_def)


text \<open>A step that keeps the balance of requests and answers.\<close>

definition keeps :: "host \<Rightarrow> host \<Rightarrow> bool" where
  "keeps h h' = (\<forall>k. outstanding k h \<longrightarrow> outstanding k h')"

lemma keeps_refl [simp]: "keeps h h"
  by (simp add: keeps_def)

lemma keeps_trans [trans]: "keeps h h1 \<Longrightarrow> keeps h1 h2 \<Longrightarrow> keeps h h2"
  by (simp add: keeps_def)

lemma keeps_wait: "wait ob h = (r, h') \<Longrightarrow> keeps h h'"
  using wait_frame(2-4) [of ob h r h'] by (simp add: keeps_def outstanding_def answers_def)

lemma keeps_drain: "drain h = (r, h') \<Longrightarrow> keeps h h'"
  using drain_frame(2-4) [of h r h'] by (simp add: keeps_def outstanding_def answers_def)

lemma keeps_send_notice:
  assumes "send_reply ch r h = (x, h')" "child_notice r"
  shows "keeps h h'"
  using assms(1)
proof (cases rule: send_reply_cases)
  case sent
  then show ?thesis
    using assms by (auto simp: keeps_def outstanding_def answers_def send_reply_frame(2))
qed simp

lemma report_children_frame:
  "report_children ch cs h = (r, h') \<Longrightarrow> core h' = core h \<and> keeps h h' \<and> h_networking h' = h_networking h"
proof (induction ch cs h rule: report_children.induct)
  case (2 ch c cs h)
  define reply where "reply = (case c of ChildExited pid status \<Rightarrow> Exited RunChild status (Some pid)
      | ChildSignaled pid signal \<Rightarrow> Exited RunChild (128 + signal) (Some pid))"
  have notice: "child_notice reply" by (simp add: reply_def child_notice_def split: child_end.split)
  obtain x h1 where s: "send_reply ch reply h = (x, h1)" by fastforce
  have first: "core h1 = core h \<and> keeps h h1 \<and> h_networking h1 = h_networking h"
    using send_reply_frame [OF s] keeps_send_notice [OF s notice] by simp
  show ?case
  proof (cases x)
    case (Inl e)
    then show ?thesis using 2(2) s first by (simp add: reply_def [symmetric])
  next
    case (Inr u)
    then have "report_children ch cs h1 = (r, h')" using 2(2) s by (simp add: reply_def [symmetric])
    with 2(1) [OF reply_def s [symmetric] Inr] first show ?thesis by (metis keeps_trans)
  qed
qed simp

lemma tick_frame:
  assumes "tick ch ob h = (r, h')"
  shows "core h' = core h" "h_networking h' = h_networking h" "r \<noteq> Inr True \<Longrightarrow> keeps h h'"
proof -
  obtain d h1 where d: "drain h = (d, h1)" by fastforce
  note drained = drain_frame [OF d] keeps_drain [OF d]
  obtain x h2 where c: "report_children ch (ob_children ob) h1 = (x, h2)" by fastforce
  note children = report_children_frame [OF c]
  have "core h' = core h \<and> h_networking h' = h_networking h \<and> (r \<noteq> Inr True \<longrightarrow> keeps h h')"
    using assms drained children
    by (auto simp: tick_def d c send_reply_frame elim: send_reply_cases
        split: sum.splits if_splits option.splits prod.splits intro: keeps_trans)
  then show "core h' = core h" "h_networking h' = h_networking h" "r \<noteq> Inr True \<Longrightarrow> keeps h h'"
    by blast+
qed

lemma busy_not_notice [simp]: "\<not> child_notice (Error t)"
  by (simp add: child_notice_def)

lemma refuse_while_busy_frame:
  assumes "refuse_while_busy ch why ob h = (r, h')"
  shows "core h' = core h" "h_networking h' = h_networking h" "r \<noteq> Inr False \<Longrightarrow> keeps h h'"
    "h_probe h' = h_probe h" "h_pipe h' = h_pipe h"
proof -
  have "core h' = core h \<and> h_networking h' = h_networking h \<and> h_probe h' = h_probe h \<and> h_pipe h' = h_pipe h
      \<and> (r \<noteq> Inr False \<longrightarrow> keeps h h')"
  proof (cases "\<exists>f. ob_recv ob = Inr (Some f) \<and> fr_message f \<noteq> RqStop")
    case True
    then obtain f where f: "ob_recv ob = Inr (Some f)" "fr_message f \<noteq> RqStop" by blast
    obtain x h2 where s: "send_reply ch (Error (''busy: '' @ why)) (note_read f h) = (x, h2)"
      by fastforce
    have "h' = h2" using assms f s by (auto simp: refuse_while_busy_def Let_def split: sum.splits)
    with s show ?thesis
      by (cases rule: send_reply_cases)
        (use send_reply_frame [OF s] in \<open>auto simp: note_read_def keeps_def outstanding_def answers_def\<close>)
  next
    case False
    then show ?thesis
      using assms by (auto simp: refuse_while_busy_def note_read_def Let_def split: sum.splits option.splits)
  qed
  then show "core h' = core h" "h_networking h' = h_networking h" "r \<noteq> Inr False \<Longrightarrow> keeps h h'"
    "h_probe h' = h_probe h" "h_pipe h' = h_pipe h" by blast+
qed

lemma wait_run_frame:
  "wait_run ch rn status obs h = (r, h', obs') \<Longrightarrow>
     core h' = core h \<and> (r \<noteq> Inr None \<longrightarrow> keeps h h') \<and> length obs' \<le> length obs"
proof (induction obs arbitrary: status h)
  case (Cons ob obs)
  show ?case
  proof (cases status)
    case None
    obtain w h1 where w: "wait ob h = (w, h1)" by fastforce
    obtain t h2 where t: "tick ch ob h1 = (t, h2)" by fastforce
    obtain b h3 where b: "refuse_while_busy ch (run_name rn @ '' is running'') ob h2 = (b, h3)" by fastforce
    have to2: "t \<noteq> Inr True \<Longrightarrow> keeps h h2" "core h2 = core h"
      using wait_frame(1) [OF w] keeps_wait [OF w] tick_frame [OF t] by (auto intro: keeps_trans)
    have to3: "t \<noteq> Inr True \<Longrightarrow> b \<noteq> Inr False \<Longrightarrow> keeps h h3" "core h3 = core h"
      using refuse_while_busy_frame [OF b] to2 by (auto intro: keeps_trans)
    note run = Cons.prems [unfolded None, simplified, unfolded w, simplified]
    consider (werr) e where "w = Inl e" | (terr) x e where "w = Inr x" "t = Inl e"
      | (tdone) x where "w = Inr x" "t = Inr True"
      | (quiet) "w = Inr False" "t = Inr False"
      | (berr) e where "w = Inr True" "t = Inr False" "b = Inl e"
      | (bdone) "w = Inr True" "t = Inr False" "b = Inr False"
      | (go) "w = Inr True" "t = Inr False" "b = Inr True"
      by (cases w; cases t; cases b) auto
    then show ?thesis
    proof cases
      case werr
      then show ?thesis using run wait_frame(1) [OF w] keeps_wait [OF w] by auto
    next
      case quiet
      then have "wait_run ch rn (ob_run ob) obs h2 = (r, h', obs')" using run t by simp
      from Cons.IH [OF this] quiet to2 show ?thesis by (auto intro: keeps_trans)
    next
      case go
      then have "wait_run ch rn (ob_run ob) obs h3 = (r, h', obs')" using run t b by simp
      from Cons.IH [OF this] go to3 show ?thesis by (auto intro: keeps_trans)
    qed (use run t b to2 to3 in auto)
  qed (use Cons.prems in auto)
next
  case Nil
  then show ?case by (cases status) auto
qed


subsection \<open>The invariant\<close>

fun stage :: "run \<Rightarrow> nat" where
  "stage RunPrepare = 0"
| "stage RunGuest = 1"
| "stage RunInitializer = 2"
| "stage RunChild = 3"

definition runs_ok :: "phase \<Rightarrow> (run \<times> guest_run) list \<Rightarrow> bool" where
  "runs_ok p runs =
     (sorted (map (\<lambda>(r, _). stage r) runs)
      \<and> (\<forall>(r, g) \<in> set runs. gr_network g = (r \<noteq> RunPrepare) \<and> stage r \<le> 2)
      \<and> (if p = Fresh \<or> p = Prepared then \<forall>(r, g) \<in> set runs. r = RunPrepare
         else length (filter (\<lambda>(r, _). r = RunGuest) runs) = 1))"

definition host_inv :: "host \<Rightarrow> bool" where
  "host_inv h =
     ((h_compaction h \<longrightarrow> h_phase h = PhaseFrozen)
      \<and> (h_phase h = PhaseFrozen \<longrightarrow> h_shared_memory h \<noteq> None)
      \<and> h_guest h = (h_phase h \<noteq> Fresh \<and> h_phase h \<noteq> Prepared)
      \<and> runs_ok (h_phase h) (h_runs h))"

text \<open>What every handler that may wait guarantees, from \<open>h\<close> with \<open>obs\<close> still to come.\<close>

definition handler_ok ::
  "host \<Rightarrow> observation list \<Rightarrow> (stop + reply option) \<times> host \<times> observation list \<Rightarrow> bool" where
  "handler_ok h obs res =
     (case res of (r, h', obs') \<Rightarrow>
        host_inv h' \<and> (r \<noteq> Inr None \<longrightarrow> keeps h h') \<and> length obs' \<le> length obs
        \<and> (\<forall>reply. r = Inr (Some reply) \<longrightarrow> \<not> child_notice reply))"

lemma host_inv_core: "core h' = core h \<Longrightarrow> host_inv h' = host_inv h"
  by (simp add: host_inv_def core_def)

lemma host_inv_new: "host_inv (new_host m pid sends)"
  by (simp add: host_inv_def new_host_def set_host_title_def Let_def runs_ok_def)

lemma runs_ok_append:
  assumes "runs_ok p runs" "gr_network g = (r \<noteq> RunPrepare)"
    and "r = RunPrepare \<and> p = Fresh \<and> p' = Fresh
      \<or> r = RunGuest \<and> (p = Fresh \<or> p = Prepared) \<and> p' = Running False
      \<or> r = RunInitializer \<and> p = Running True \<and> p' = Running True"
  shows "runs_ok p' (runs @ [(r, g)])"
proof -
  have "\<forall>(r, g) \<in> set runs. r = RunPrepare" if "p = Fresh \<or> p = Prepared"
    using assms(1) that by (auto simp: runs_ok_def)
  with assms show ?thesis
    by (fastforce simp: runs_ok_def sorted_append filter_empty_conv)
qed

lemma keeps_updates [simp]:
  "keeps h (h'\<lparr>h_phase := a\<rparr>) = keeps h h'" "keeps h (h'\<lparr>h_networking := b\<rparr>) = keeps h h'"
  "keeps h (h'\<lparr>h_guest := c\<rparr>) = keeps h h'" "keeps h (h'\<lparr>h_probe := d\<rparr>) = keeps h h'"
  "keeps h (h'\<lparr>h_runs := e\<rparr>) = keeps h h'" "keeps h (h'\<lparr>h_recipe := f\<rparr>) = keeps h h'"
  "keeps h (h'\<lparr>h_compaction := i\<rparr>) = keeps h h'" "keeps h (set_host_title t h') = keeps h h'"
  by (simp_all add: keeps_def)

lemma keeps_source_updates [simp]:
  "keeps (h\<lparr>h_runs := e\<rparr>) h' = keeps h h'" "keeps (h\<lparr>h_networking := b\<rparr>) h' = keeps h h'"
  "keeps (h\<lparr>h_guest := c\<rparr>) h' = keeps h h'" "keeps (h\<lparr>h_phase := a\<rparr>) h' = keeps h h'"
  by (simp_all add: keeps_def)

lemma host_prepare_ok:
  assumes "host_inv h"
  shows "handler_ok h obs (host_prepare env ch ob obs h)"
proof (cases "h_phase h = Fresh")
  case fresh: True
  have finished: "host_inv (h1\<lparr>h_phase := Prepared\<rparr>)" if "host_inv h1" "h_phase h1 = Fresh" for h1
    using that by (auto simp: host_inv_def runs_ok_def)
  have spawned: "host_inv (h\<lparr>h_runs := h_runs h @ [(RunPrepare, g)]\<rparr>)" if "\<not> gr_network g" for g
    using assms fresh that runs_ok_append [of Fresh "h_runs h" g RunPrepare Fresh]
    by (simp add: host_inv_def)
  show ?thesis
  proof (cases "\<exists>p module stdin status. mf_prepare (h_manifest h) = Some p \<and> pr_module p = Some module
      \<and> read_stdin (he_fs env) p = Inr stdin \<and> ob_spawn ob = Inr status")
    case True
    then obtain p module stdin status where p: "mf_prepare (h_manifest h) = Some p"
      "pr_module p = Some module" "read_stdin (he_fs env) p = Inr stdin" "ob_spawn ob = Inr status"
      by blast
    define g where "g = \<lparr>gr_module = module, gr_program_name = program_name (h_manifest h) module,
        gr_args = pr_args p, gr_stdin = stdin, gr_network = False\<rparr>"
    define h1 where "h1 = h\<lparr>h_runs := h_runs h @ [(RunPrepare, g)]\<rparr>"
    obtain r h2 obs2 where w: "wait_run ch RunPrepare status obs h1 = (r, h2, obs2)"
      by (cases "wait_run ch RunPrepare status obs h1") auto
    have inv2: "host_inv h2" "h_phase h2 = Fresh"
      using wait_run_frame [OF w] spawned [of g] fresh host_inv_core [of h2 h1]
      by (auto simp: h1_def g_def core_def)
    have "keeps h h2" if "r \<noteq> Inr None"
      using wait_run_frame [OF w] that by (simp add: h1_def)
    with inv2 wait_run_frame [OF w] show ?thesis
      using p fresh w
      by (auto simp: host_prepare_def handler_ok_def spawn_run_def Let_def g_def [symmetric]
          h1_def [symmetric] finished child_notice_def split: sum.splits option.splits)
  next
    case False
    then show ?thesis
      using assms fresh finished [OF assms fresh]
      by (auto simp: host_prepare_def handler_ok_def spawn_run_def Let_def child_notice_def
          split: option.splits sum.splits)
  qed
qed (use assms in \<open>simp add: host_prepare_def handler_ok_def\<close>)


text \<open>
  What the rounds of \<open>start\<close> may change: the phase, from starting to ready, and the rest of
  the core not at all.
\<close>

definition starting :: "host \<Rightarrow> host \<Rightarrow> bool" where
  "starting h h' = (core (h'\<lparr>h_phase := Fresh\<rparr>) = core (h\<lparr>h_phase := Fresh\<rparr>)
     \<and> (h_phase h' = h_phase h \<or> h_phase h' = Running True) \<and> keeps h h')"

lemma starting_refl [simp]: "starting h h"
  by (simp add: starting_def)

lemma starting_trans: "starting h h1 \<Longrightarrow> starting h1 h2 \<Longrightarrow> starting h h2"
  by (auto simp: starting_def core_def intro: keeps_trans)

lemma starting_core: "core h' = core h \<Longrightarrow> keeps h h' \<Longrightarrow> starting h h'"
  by (simp add: starting_def core_def)

lemma starting_inv: "starting h h' \<Longrightarrow> host_inv h \<Longrightarrow> h_phase h = Running False \<Longrightarrow> host_inv h'"
  by (auto simp: starting_def host_inv_def core_def runs_ok_def)

lemma become_ready_starting:
  assumes "become_ready h = (r, h')"
  shows "starting h h' \<and> h_phase h' = Running True \<and> h_networking h' = h_networking h
    \<and> (\<forall>reply. r = Inr (Some reply) \<longrightarrow> (\<exists>ep. endpoint (h_networking h) = Inr ep \<and> reply = Ready (show_addr ep)))
    \<and> r \<noteq> Inr None"
  using assms
  by (auto simp: become_ready_def ready_reply_def starting_def core_def set_host_title_def Let_def
      keeps_def outstanding_def answers_def split: sum.splits)

lemma start_probe_starting:
  assumes "start_probe ob h = (r, h')"
  shows "starting h h' \<and> h_networking h' = h_networking h"
  using assms by (auto simp: start_probe_def starting_def core_def split: sum.splits option.splits)

lemma heed_events_starting:
  assumes "heed_events ob ev h = (r, h')"
  shows "starting h h' \<and> h_networking h' = h_networking h \<and> r \<noteq> Inl (Inr None)
    \<and> (\<forall>reply. r = Inl (Inr (Some reply)) \<longrightarrow>
         h_phase h' = Running True
         \<and> (\<exists>ep. endpoint (h_networking h') = Inr ep \<and> reply = Ready (show_addr ep)))"
proof -
  obtain b hb where b: "become_ready h = (b, hb)" by fastforce
  obtain p hp where p: "start_probe ob h = (p, hp)" by fastforce
  obtain b2 hb2 where b2: "become_ready hp = (b2, hb2)" by fastforce
  note facts = become_ready_starting [OF b] start_probe_starting [OF p] become_ready_starting [OF b2]
  show ?thesis
    using assms facts
    by (auto simp: heed_events_def Let_def b p b2 intro: starting_trans
        split: if_splits option.splits sum.splits prod.splits)
qed

text \<open>One round of the start loop: it ends the start, loses the manager, or goes on.\<close>

lemma start_loop_round:
  assumes "start_loop ch (ob # obs) h = (r, h', obs')"
  obtains (ended) "starting h h'" "obs' = obs" "\<forall>reply. r = Inr (Some reply) \<longrightarrow> \<not> child_notice reply"
    | (lost) h1 where "starting h h1" "core h' = core h1" "r = Inr None" "obs' = obs"
    | (again) h1 where "starting h h1" "start_loop ch obs h1 = (r, h', obs')"
proof -
  obtain w h1 where w: "wait ob h = (w, h1)" by fastforce
  obtain d h2 where d: "drain h1 = (d, h2)" by fastforce
  define ev where "ev = projr d"
  obtain e h3 where e: "heed_events ob ev h2 = (e, h3)" by fastforce
  obtain b h4 where b: "refuse_while_busy ch ''the guest is starting'' ob h3 = (b, h4)" by fastforce
  have to1: "starting h h1" using wait_frame(1) [OF w] keeps_wait [OF w] by (rule starting_core)
  moreover have "starting h1 h2" using drain_frame(1) [OF d] keeps_drain [OF d] by (rule starting_core)
  ultimately have to2: "starting h h2" by (rule starting_trans)
  then have to3: "starting h h3" using heed_events_starting [OF e] starting_trans by blast
  have to4: "b \<noteq> Inr False \<Longrightarrow> starting h h4"
    using to3 starting_core [OF refuse_while_busy_frame(1) [OF b] refuse_while_busy_frame(3) [OF b]]
      starting_trans by blast
  have core4: "core h4 = core h3" by (rule refuse_while_busy_frame(1) [OF b])
  note run = assms [simplified, unfolded w, simplified]
  consider (werr) x where "w = Inl x" | (derr) x y where "w = Inr x" "d = Inl y"
    | (eend) x y where "w = Inr x" "d = Inr ev" "e = Inl y"
    | (dead) x status where "w = Inr x" "d = Inr ev" "e = Inr ()" "ob_guest ob = Some status"
    | (quiet) "w = Inr False" "d = Inr ev" "e = Inr ()" "ob_guest ob = None"
    | (busy) "w = Inr True" "d = Inr ev" "e = Inr ()" "ob_guest ob = None"
    by (cases w; cases d; cases e; cases "ob_guest ob") (auto simp: ev_def)
  then show thesis
  proof cases
    case eend
    then have "y = r" "h3 = h'" "obs' = obs" using run d e by auto
    moreover have "\<not> child_notice reply" if "y = Inr (Some reply)" for reply
      using that heed_events_starting [OF e] eend(3) by (auto simp: child_notice_def)
    ultimately show ?thesis using to3 ended by simp
  next
    case busy
    then show ?thesis using run d e b to3 to4 core4 ended lost again by (cases b) (auto split: bool.splits)
  qed (use run d e to1 to2 to3 ended again in \<open>auto simp: child_notice_def\<close>)
qed

lemma start_loop_ok:
  "start_loop ch obs h = (r, h', obs') \<Longrightarrow>
     core (h'\<lparr>h_phase := Fresh\<rparr>) = core (h\<lparr>h_phase := Fresh\<rparr>)
     \<and> (h_phase h' = h_phase h \<or> h_phase h' = Running True)
     \<and> (r \<noteq> Inr None \<longrightarrow> keeps h h') \<and> length obs' \<le> length obs
     \<and> (\<forall>reply. r = Inr (Some reply) \<longrightarrow> \<not> child_notice reply)"
proof (induction obs arbitrary: h)
  case (Cons ob obs)
  from Cons.prems show ?case
  proof (cases rule: start_loop_round)
    case (lost h1)
    then show ?thesis by (auto simp: starting_def core_def)
  next
    case (again h1)
    from Cons.IH [OF again(2)] again(1) show ?thesis
      by (auto simp: starting_def core_def intro: keeps_trans)
  qed (simp add: starting_def)
qed auto

lemma host_start_ok:
  assumes "host_inv h"
  shows "handler_ok h obs (host_start env ch fds ob obs h)"
proof (cases "\<exists>listener n status. (h_phase h = Fresh \<or> h_phase h = Prepared) \<and> fds = [listener]
    \<and> set_listener (he_local_addr env) listener (h_networking h) = Inr n \<and> ob_spawn ob = Inr status")
  case True
  then obtain listener n status where l: "h_phase h = Fresh \<or> h_phase h = Prepared" "fds = [listener]"
    "set_listener (he_local_addr env) listener (h_networking h) = Inr n" "ob_spawn ob = Inr status"
    by blast
  define g where "g = \<lparr>gr_module = gs_module (mf_guest (h_manifest h)),
      gr_program_name = program_name (h_manifest h) (gs_module (mf_guest (h_manifest h))),
      gr_args = gs_args (mf_guest (h_manifest h)), gr_stdin = [], gr_network = True\<rparr>"
  define h1 where "h1 = h\<lparr>h_networking := n, h_runs := h_runs h @ [(RunGuest, g)], h_guest := True,
      h_phase := Running False\<rparr>"
  obtain r h2 obs2 where s: "start_loop ch obs h1 = (r, h2, obs2)" by (cases "start_loop ch obs h1") auto
  have run: "host_start env ch fds ob obs h = (r, h2, obs2)"
    using l s by (auto simp: host_start_def spawn_run_def Let_def g_def h1_def)
  have inv1: "host_inv h1"
    using assms l(1) runs_ok_append [of "h_phase h" "h_runs h" g RunGuest "Running False"]
    by (auto simp: host_inv_def h1_def g_def)
  note loop = start_loop_ok [OF s]
  have "host_inv h2"
    using loop inv1 by (auto simp: host_inv_def core_def h1_def runs_ok_def)
  with loop show ?thesis
    by (auto simp: run handler_ok_def h1_def)
next
  case False
  then show ?thesis
    using assms host_inv_core [of "h\<lparr>h_networking := _\<rparr>" h]
    by (auto simp: host_start_def handler_ok_def spawn_run_def Let_def
        split: list.splits sum.splits if_splits)
qed

lemma host_initialize_ok:
  assumes "host_inv h"
  shows "handler_ok h obs (host_initialize env ch recipe ob obs h)"
proof (cases "\<exists>init ep status. h_phase h = Running True \<and> mf_initializer (h_manifest h) = Some init
    \<and> endpoint (h_networking h) = Inr ep \<and> ob_spawn ob = Inr status")
  case True
  then obtain init ep status where i: "h_phase h = Running True" "mf_initializer (h_manifest h) = Some init"
    "endpoint (h_networking h) = Inr ep" "ob_spawn ob = Inr status"
    by blast
  define g where "g = \<lparr>gr_module = in_module init,
      gr_program_name = program_name (h_manifest h) (in_module init),
      gr_args = initializer_args ep (in_args init), gr_stdin = recipe, gr_network = True\<rparr>"
  define h1 where "h1 = h\<lparr>h_runs := h_runs h @ [(RunInitializer, g)]\<rparr>"
  obtain r h2 obs2 where w: "wait_run ch RunInitializer status obs h1 = (r, h2, obs2)"
    by (cases "wait_run ch RunInitializer status obs h1") auto
  have "host_inv h1"
    using assms i(1) runs_ok_append [of "Running True" "h_runs h" g RunInitializer "Running True"]
    by (simp add: host_inv_def h1_def g_def)
  then have inv2: "host_inv h2" using wait_run_frame [OF w] host_inv_core by blast
  then have "host_inv (set_host_title t (h2\<lparr>h_recipe := x\<rparr>))" for t x
    by (simp add: host_inv_def set_host_title_def Let_def)
  with inv2 wait_run_frame [OF w] show ?thesis
    using i w
    by (auto simp: host_initialize_def handler_ok_def spawn_run_def Let_def g_def [symmetric]
        h1_def [symmetric] child_notice_def split: sum.splits option.splits) (simp_all add: h1_def)
next
  case False
  then show ?thesis
    using assms by (auto simp: host_initialize_def handler_ok_def spawn_run_def
        split: option.splits sum.splits)
qed

end
