(* ===== verification/HostLoop.thy ===== *)
theory HostLoop
  imports Host
begin

text \<open>
  The host's control loop as a whole (\<open>Host::serve\<close> in
  \<open>src/crates/servicecache/src/host/mod.rs\<close>): the states it goes through, round by round and
  process by process (a fork continues in the child), the loop itself, which uses up at least
  one observation per round, and what holds of every host.
\<close>

subsection \<open>Handling a request\<close>

lemma answer_ok:
  assumes "handler_ok h obs res" "answer ch res = (r, h', obs')"
  shows "host_inv h'" "length obs' \<le> length obs" "\<And>own. r \<noteq> Inr (Child own)"
    "r = Inr Continue \<Longrightarrow> outstanding (Suc 0) h \<Longrightarrow> answers h' = length (h_read h')"
proof -
  obtain x h1 obs1 where res: "res = (x, h1, obs1)" by (cases res) auto
  have inv1: "host_inv h1" and keep: "x \<noteq> Inr None \<Longrightarrow> keeps h h1" and len: "length obs1 \<le> length obs"
    and reply: "\<And>reply. x = Inr (Some reply) \<Longrightarrow> \<not> child_notice reply"
    using assms(1) by (auto simp: handler_ok_def res)
  have sent: "host_inv h2" "y = Inr u \<Longrightarrow> outstanding (Suc 0) h \<Longrightarrow> answers h2 = length (h_read h2)"
    if "send_reply ch reply h1 = (y, h2)" "x \<noteq> Inr None" "\<not> child_notice reply" for reply y h2 u
  proof -
    show "host_inv h2" using send_reply_frame(1) [OF that(1)] host_inv_core inv1 by blast
    assume "y = Inr u" "outstanding (Suc 0) h"
    then show "answers h2 = length (h_read h2)"
      using outstanding_send [of 0 h1 ch reply u h2] that keep by (simp add: keeps_def)
  qed
  have "host_inv h' \<and> length obs' \<le> length obs \<and> (\<forall>own. r \<noteq> Inr (Child own))
      \<and> (r = Inr Continue \<longrightarrow> outstanding (Suc 0) h \<longrightarrow> answers h' = length (h_read h'))"
  proof (cases x)
    case (Inl st)
    then show ?thesis
      using assms(2) sent(1) [of "Error (error_text _)"] sent(2) [of "Error (error_text _)"] inv1 len
      by (cases st) (auto simp: res answer_def split: prod.splits sum.splits)
  next
    case (Inr o')
    then show ?thesis
    proof (cases o')
      case (Some reply)
      with Inr show ?thesis
        using assms(2) sent [of reply] \<open>\<And>reply. x = Inr (Some reply) \<Longrightarrow> \<not> child_notice reply\<close> inv1 len
        by (auto simp: res answer_def split: prod.splits sum.splits)
    qed (use Inr assms(2) inv1 len in \<open>auto simp: res answer_def\<close>)
  qed
  then show "host_inv h'" "length obs' \<le> length obs" "\<And>own. r \<noteq> Inr (Child own)"
    "r = Inr Continue \<Longrightarrow> outstanding (Suc 0) h \<Longrightarrow> answers h' = length (h_read h')" by blast+
qed

lemma refuse_ok:
  assumes "refuse ch text h = (r, h')"
  shows "core h' = core h" "r = Inr Continue \<Longrightarrow> outstanding (Suc 0) h \<Longrightarrow> answers h' = length (h_read h')"
    "r \<noteq> Inr Exit" "r \<noteq> Inr (Child own)"
proof -
  obtain x h1 where s: "send_reply ch (Error text) h = (x, h1)" by fastforce
  have h': "h' = h1" "r = (case x of Inl e \<Rightarrow> Inl (Failed e) | Inr _ \<Rightarrow> Inr Continue)"
    using assms s by (auto simp: refuse_def split: sum.splits)
  show "core h' = core h" using send_reply_frame(1) [OF s] h' by simp
  show "r = Inr Continue \<Longrightarrow> outstanding (Suc 0) h \<Longrightarrow> answers h' = length (h_read h')"
    using s h' outstanding_send [of 0 h ch "Error text" "()" h1] by (auto split: sum.splits)
  show "r \<noteq> Inr Exit" "r \<noteq> Inr (Child own)" using h' by (auto split: sum.splits)
qed

lemma host_freeze_ok:
  assumes "host_inv h" "host_freeze ch ob h = (r, h')"
  shows "r = Inr Continue \<Longrightarrow> host_inv h'" "r \<noteq> Inr (Child own)"
    "r = Inr Continue \<Longrightarrow> outstanding (Suc 0) h \<Longrightarrow> answers h' = length (h_read h')"
proof -
  define h1 where "h1 = set_host_title TitleFrozen (h\<lparr>h_phase := PhaseFrozen\<rparr>)"
  obtain x h2 where f: "freeze_guest ob h1 = (x, h2)" by fastforce
  note frame = freeze_guest_frame [OF f]
  have out2: "outstanding k h2 = outstanding k h" for k
    using frame by (simp add: outstanding_def answers_def h1_def set_host_title_def Let_def)
  have inv2: "host_inv (h2\<lparr>h_compaction := True\<rparr>)" if "h_phase h = Running True" "x = Inr c" for c
    using assms(1) that frame freeze_guest_ok(5) [of ob h1 c h2] f
    by (auto simp: host_inv_def h1_def set_host_title_def Let_def runs_ok_def)
  have "(r = Inr Continue \<longrightarrow> host_inv h') \<and> r \<noteq> Inr (Child own)
      \<and> (r = Inr Continue \<longrightarrow> outstanding (Suc 0) h \<longrightarrow> answers h' = length (h_read h'))"
  proof (cases "h_phase h = Running True")
    case False
    then have "refuse ch ''freeze is only accepted while the guest is ready'' h = (r, h')"
      using assms(2) by (simp add: host_freeze_def)
    from refuse_ok [OF this] host_inv_core [OF refuse_ok(1) [OF this]] assms(1) show ?thesis by simp
  next
    case True
    show ?thesis
    proof (cases x)
      case (Inl e)
      then show ?thesis
        using assms(2) True f by (auto simp: host_freeze_def h1_def Let_def split: prod.splits sum.splits)
    next
      case (Inr c)
      obtain y h3 where s: "send_reply ch (Frozen c) h2 = (y, h3)" by fastforce
      have "host_inv (h3\<lparr>h_compaction := True\<rparr>)"
        using inv2 [OF True Inr] send_reply_frame(1) [OF s] by (auto simp: host_inv_def core_def)
      moreover have "y = Inr () \<Longrightarrow> outstanding (Suc 0) h \<Longrightarrow> answers h3 = length (h_read h3)"
        using outstanding_send [of 0 h2 ch "Frozen c" "()" h3] s out2 by (simp add: child_notice_def)
      ultimately show ?thesis
        using assms(2) True f Inr s
        by (auto simp: host_freeze_def h1_def Let_def answers_def split: sum.splits)
    qed
  qed
  then show "r = Inr Continue \<Longrightarrow> host_inv h'" "r \<noteq> Inr (Child own)"
    "r = Inr Continue \<Longrightarrow> outstanding (Suc 0) h \<Longrightarrow> answers h' = length (h_read h')" by blast+
qed


lemma fork_host_frame:
  assumes "fork_host env ob control listener h = (r, h')"
  shows "core (h'\<lparr>h_pid := 0\<rparr>) = core (h\<lparr>h_pid := 0\<rparr>)" "h_sent h' = h_sent h" "h_read h' = h_read h"
    "h_sends_left h' = h_sends_left h"
    "\<And>pid ep. r = Inr (Parent pid ep) \<or> is_ok r = False \<Longrightarrow> h' = h"
proof -
  have child: "core (h'\<lparr>h_pid := 0\<rparr>) = core (h\<lparr>h_pid := 0\<rparr>) \<and> h_sent h' = h_sent h
      \<and> h_read h' = h_read h \<and> h_sends_left h' = h_sends_left h"
    if "rebuild env rb listener (h\<lparr>h_pid := pid\<rparr>) = (x, h')" for rb pid x
    using rebuild_frame [OF that] by (simp add: core_def)
  have "core (h'\<lparr>h_pid := 0\<rparr>) = core (h\<lparr>h_pid := 0\<rparr>) \<and> h_sent h' = h_sent h
      \<and> h_read h' = h_read h \<and> h_sends_left h' = h_sends_left h"
    using assms child by (auto simp: fork_host_def split: sum.splits fork_return.splits prod.splits)
  then show "core (h'\<lparr>h_pid := 0\<rparr>) = core (h\<lparr>h_pid := 0\<rparr>)" "h_sent h' = h_sent h" "h_read h' = h_read h"
    "h_sends_left h' = h_sends_left h" by auto
  show "h' = h" if "r = Inr (Parent pid ep) \<or> is_ok r = False" for pid ep
    using assms that by (auto simp: fork_host_def split: sum.splits fork_return.splits prod.splits)
qed

lemma host_inv_pid: "host_inv h' = host_inv h" if "core (h'\<lparr>h_pid := 0\<rparr>) = core (h\<lparr>h_pid := 0\<rparr>)"
  using that by (simp add: host_inv_def core_def)

text \<open>
  A fork leaves the template as it was; in the child the guest runs again, and the request is
  still to be answered, on the child's own channel.
\<close>

lemma host_fork_cases:
  assumes "host_fork env ch fds ob h = (r, h')"
  obtains (refused) t where "refuse ch t h = (r, h')"
    | (parent) pid ep x where "send_reply ch (Forked pid (show_addr ep)) h = (x, h')"
        "r = (case x of Inl e \<Rightarrow> Inl (Failed e) | Inr _ \<Rightarrow> Inr Continue)"
    | (failed) "r = Inr Exit"
    | (child) control listener c h1 u where "h_phase h = PhaseFrozen" "r = Inr (Child c)"
        "fork_host env ob control listener h = (Inr (ForkedChild c (Inr u)), h1)" "h' = h1\<lparr>h_phase := Running True\<rparr>"
proof (cases "\<exists>text. refuse ch text h = (r, h')")
  case False
  then obtain control listener where fds: "fds = [control, listener]" and frozen: "h_phase h = PhaseFrozen"
    using assms by (auto simp: host_fork_def split: if_splits list.splits)
  obtain x h1 where f: "fork_host env ob control listener h = (x, h1)" by fastforce
  consider (err) e where "x = Inl e" | (parent) pid ep where "x = Inr (Parent pid ep)"
    | (bad) c e where "x = Inr (ForkedChild c (Inl e))"
    | (good) c u where "x = Inr (ForkedChild c (Inr u))"
    by (metis forked.exhaust old.sum.exhaust)
  then show thesis
  proof cases
    case parent
    then have "h1 = h" using fork_host_frame(5) [OF f] by simp
    with parent assms f frozen show ?thesis
      by (cases "send_reply ch (Forked pid (show_addr ep)) h")
        (auto simp: host_fork_def fds split: sum.splits intro!: that(2))
  next
    case good
    with assms f frozen show ?thesis by (auto simp: host_fork_def fds intro!: that(4))
  qed (use assms f frozen fork_host_frame(5) [OF f] False that(3) in \<open>auto simp: host_fork_def fds\<close>)
qed (use that(1) in blast)

lemma host_fork_ok:
  assumes "host_inv h" "host_fork env ch fds ob h = (r, h')"
  shows "r = Inr Continue \<Longrightarrow> host_inv h'"
    "r = Inr Continue \<Longrightarrow> outstanding (Suc 0) h \<Longrightarrow> answers h' = length (h_read h')"
    "r = Inr (Child own) \<Longrightarrow> host_inv (h'\<lparr>h_compaction := False\<rparr>) \<and> h_sent h' = h_sent h
       \<and> h_read h' = h_read h \<and> h_sends_left h' = h_sends_left h"
proof -
  have "(r = Inr Continue \<longrightarrow> host_inv h' \<and> (outstanding (Suc 0) h \<longrightarrow> answers h' = length (h_read h')))
      \<and> (r = Inr (Child own) \<longrightarrow> host_inv (h'\<lparr>h_compaction := False\<rparr>) \<and> h_sent h' = h_sent h
           \<and> h_read h' = h_read h \<and> h_sends_left h' = h_sends_left h)"
    using assms(2)
  proof (cases rule: host_fork_cases)
    case (refused t)
    then show ?thesis using refuse_ok [OF refused] host_inv_core [OF refuse_ok(1) [OF refused]] assms(1) by simp
  next
    case (parent pid ep x)
    then show ?thesis
      using host_inv_core [OF send_reply_frame(1) [OF parent(1)]] assms(1)
        outstanding_send [of 0 h ch "Forked pid (show_addr ep)" "()" h']
      by (auto simp: child_notice_def split: sum.splits)
  next
    case (child control listener c h1 u)
    note frame = fork_host_frame [OF child(3)]
    have "host_inv h1" using host_inv_pid [OF frame(1)] assms(1) by simp
    then have "host_inv (h'\<lparr>h_compaction := False\<rparr>)"
      using frame(1) child(1) by (auto simp: child(4) host_inv_def core_def runs_ok_def)
    then show ?thesis using child frame by auto
  qed simp
  then show "r = Inr Continue \<Longrightarrow> host_inv h'"
    "r = Inr Continue \<Longrightarrow> outstanding (Suc 0) h \<Longrightarrow> answers h' = length (h_read h')"
    "r = Inr (Child own) \<Longrightarrow> host_inv (h'\<lparr>h_compaction := False\<rparr>) \<and> h_sent h' = h_sent h
       \<and> h_read h' = h_read h \<and> h_sends_left h' = h_sends_left h" by blast+
qed

lemma handle_ok:
  assumes "host_inv h" "handle env ch f ob obs h = (r, h', obs')"
  shows "r = Inr Continue \<Longrightarrow> host_inv h'" "length obs' \<le> length obs"
    "r = Inr Continue \<Longrightarrow> outstanding (Suc 0) h \<Longrightarrow> answers h' = length (h_read h')"
    "r = Inr (Child own) \<Longrightarrow> host_inv (h'\<lparr>h_compaction := False\<rparr>) \<and> h_sent h' = h_sent h
       \<and> h_read h' = h_read h \<and> h_sends_left h' = h_sends_left h"
proof -
  note handlers = answer_ok [OF host_prepare_ok [OF assms(1)]] answer_ok [OF host_start_ok [OF assms(1)]]
    answer_ok [OF host_initialize_ok [OF assms(1)]]
  obtain a ha where fr: "host_freeze ch ob h = (a, ha)" by fastforce
  obtain b hb where fo: "host_fork env ch (fr_fds f) ob h = (b, hb)" by fastforce
  note freeze = host_freeze_ok [OF assms(1) fr] and fork = host_fork_ok [OF assms(1) fo]
  have "(r = Inr Continue \<longrightarrow> host_inv h') \<and> length obs' \<le> length obs
      \<and> (r = Inr Continue \<longrightarrow> outstanding (Suc 0) h \<longrightarrow> answers h' = length (h_read h'))
      \<and> (r = Inr (Child own) \<longrightarrow> host_inv (h'\<lparr>h_compaction := False\<rparr>) \<and> h_sent h' = h_sent h
           \<and> h_read h' = h_read h \<and> h_sends_left h' = h_sends_left h)"
  proof (cases "fr_message f")
    case RqFreeze
    then show ?thesis using assms(2) freeze fr by (auto simp: handle_def)
  next
    case RqFork
    then show ?thesis using assms(2) fork fo by (auto simp: handle_def)
  next
    case RqStop
    then show ?thesis using assms(2) by (auto simp: handle_def)
  qed (use assms(2) handlers in \<open>auto simp: handle_def\<close>)
  then show "r = Inr Continue \<Longrightarrow> host_inv h'" "length obs' \<le> length obs"
    "r = Inr Continue \<Longrightarrow> outstanding (Suc 0) h \<Longrightarrow> answers h' = length (h_read h')"
    "r = Inr (Child own) \<Longrightarrow> host_inv (h'\<lparr>h_compaction := False\<rparr>) \<and> h_sent h' = h_sent h
       \<and> h_read h' = h_read h \<and> h_sends_left h' = h_sends_left h" by blast+
qed


subsection \<open>Rounds\<close>

lemma report_children_answers:
  "report_children ch cs h = (r, h') \<Longrightarrow> answers h' = answers h \<and> h_read h' = h_read h"
proof (induction cs arbitrary: h)
  case (Cons c cs)
  define reply where "reply = (case c of ChildExited pid status \<Rightarrow> Exited RunChild status (Some pid)
      | ChildSignaled pid signal \<Rightarrow> Exited RunChild (128 + signal) (Some pid))"
  have notice: "child_notice reply" by (simp add: reply_def child_notice_def split: child_end.split)
  obtain x h1 where s: "send_reply ch reply h = (x, h1)" by fastforce
  have first: "answers h1 = answers h \<and> h_read h1 = h_read h"
    using s by (cases rule: send_reply_cases) (use notice send_reply_frame(2) [OF s] in \<open>auto simp: answers_def\<close>)
  show ?case
    using Cons.prems Cons.IH [of h1] first s
    by (cases x) (simp_all add: reply_def [symmetric])
qed simp

lemma tick_answers:
  assumes "tick ch ob h = (Inr False, h')"
  shows "answers h' = answers h" "h_read h' = h_read h"
proof -
  obtain d h1 where d: "drain h = (d, h1)" by fastforce
  have "report_children ch (ob_children ob) h1 = (Inr (), h')"
    using assms by (auto simp: tick_def d split: sum.splits if_splits option.splits prod.splits)
  from report_children_answers [OF this] drain_frame [OF d]
  show "answers h' = answers h" "h_read h' = h_read h" by (simp_all add: answers_def)
qed

text \<open>A round that goes on was idle, was answered in this process, or went on in the child it forked.\<close>

lemma serve_round_cases:
  assumes "host_inv h" "answers h = length (h_read h)"
    and "serve_round env ch ob obs h = Again ch' h' obs'"
  obtains h2 where "host_inv h2" "answers h2 = length (h_read h2)" "h' = compact ob h2"
    | h2 f where "host_inv h2" "outstanding (Suc 0) h2" "handle env ch f ob obs h2 = (Inr Continue, h', obs')"
    | h2 f own h3 reply u where "host_inv h2" "outstanding (Suc 0) h2"
        "handle env ch f ob obs h2 = (Inr (Child own), h3, obs')"
        "forked_reply (h_pid h3) (h3\<lparr>h_compaction := False\<rparr>) = Inr reply"
        "send_reply own reply (h3\<lparr>h_compaction := False\<rparr>) = (Inr u, h')"
proof -
  obtain w h1 where w: "wait ob h = (w, h1)" by fastforce
  obtain t h2 where t: "tick ch ob h1 = (t, h2)" by fastforce
  obtain readable where go: "w = Inr readable" "t = Inr False"
    using assms(3) by (auto simp: serve_round_def w t split: sum.splits bool.splits)
  have inv2: "host_inv h2"
    using host_inv_core [OF wait_frame(1) [OF w]] host_inv_core [OF tick_frame(1) [OF t]] assms(1) by simp
  have bal2: "answers h2 = length (h_read h2)"
    using assms(2) wait_frame [OF w] tick_answers [of ch ob h1 h2] t go by (simp add: answers_def)
  show thesis
  proof (cases readable)
    case False
    with go assms(3) have "h' = compact ob h2" by (auto simp: serve_round_def w t)
    with inv2 bal2 show ?thesis by (rule that(1))
  next
    case True
    then obtain f where f: "ob_recv ob = Inr (Some f)"
      using assms(3) go by (auto simp: serve_round_def w t split: sum.splits option.splits)
    obtain r h3 obs3 where h: "handle env ch f ob obs (note_read f h2) = (r, h3, obs3)"
      by (cases "handle env ch f ob obs (note_read f h2)") auto
    have inv: "host_inv (note_read f h2)" using inv2 by (simp add: note_read_def host_inv_def)
    have out: "outstanding (Suc 0) (note_read f h2)"
      using bal2 by (simp add: note_read_def outstanding_def answers_def)
    show ?thesis
      using assms(3) True f h go that(2,3) [OF inv out]
      by (auto simp: serve_round_def w t Let_def split: sum.splits outcome.splits prod.splits)
  qed
qed

lemma serve_round_ok:
  assumes "host_inv h" "answers h = length (h_read h)"
    and "serve_round env ch ob obs h = Again ch' h' obs'"
  shows "host_inv h' \<and> answers h' = length (h_read h')"
  using assms
proof (cases rule: serve_round_cases)
  case (1 h2)
  then show ?thesis by (auto simp: compact_def host_inv_def answers_def)
next
  case (2 h2 f)
  then show ?thesis using handle_ok(1,3) [OF 2(1,3)] by simp
next
  case (3 h2 f own h3 reply u)
  have "\<not> child_notice reply"
    using 3(4) by (auto simp: forked_reply_def child_notice_def split: sum.splits)
  moreover have "outstanding (Suc 0) (h3\<lparr>h_compaction := False\<rparr>)"
    using handle_ok(4) [OF 3(1,3)] 3(2) by (simp add: outstanding_def answers_def)
  ultimately have "answers h' = length (h_read h')" using outstanding_send [OF _ 3(5), of 0] by simp
  then show ?thesis
    using host_inv_core [OF send_reply_frame(1) [OF 3(5)]] handle_ok(4) [OF 3(1,3)] by simp
qed

lemma handle_length:
  assumes "handle env ch f ob obs h = (r, h', obs')"
  shows "length obs' \<le> length obs"
proof -
  have wait: "length obs2 \<le> length obs" if "wait_run ch rn st obs h1 = (x, h2, obs2)" for rn st h1 x h2 obs2
    using wait_run_frame [OF that] by simp
  have start: "length (snd (snd (start_loop ch obs h1))) \<le> length obs" for h1
    using start_loop_ok [of ch obs h1] by (cases "start_loop ch obs h1") auto
  have "length (snd (snd (host_prepare env ch ob obs h))) \<le> length obs"
    by (auto simp: host_prepare_def Let_def split: option.split sum.split prod.split dest: wait)
  moreover have "length (snd (snd (host_initialize env ch x ob obs h))) \<le> length obs" for x
    by (auto simp: host_initialize_def Let_def split: option.split sum.split prod.split dest: wait)
  moreover have "length (snd (snd (host_start env ch x ob obs h))) \<le> length obs" for x
    by (auto simp: host_start_def Let_def start split: list.split sum.split prod.split)
  moreover have "snd (snd (answer ch x)) = snd (snd x)" for x :: "(stop + reply option) \<times> host \<times> observation list"
    by (auto simp: answer_def split: prod.split sum.split option.split stop.split)
  ultimately have "length (snd (snd (handle env ch f ob obs h))) \<le> length obs"
    by (simp add: handle_def split: request.split prod.split)
  then show ?thesis using assms by simp
qed


lemma serve_round_length:
  "serve_round env ch ob obs h = Again ch' h' obs' \<Longrightarrow> length obs' \<le> length obs"
  by (auto simp: serve_round_def Let_def split: prod.splits sum.splits bool.splits if_splits option.splits outcome.splits
      dest: handle_length)

function (sequential) serve ::
  "host_env \<Rightarrow> fd \<Rightarrow> observation list \<Rightarrow> host \<Rightarrow> (stop + unit) \<times> host" where
  "serve env ch [] h = (Inl Waiting, h)"
| "serve env ch (ob # obs) h =
     (case serve_round env ch ob obs h of
        Ended r h' \<Rightarrow> (r, h')
      | Again ch' h' obs' \<Rightarrow> serve env ch' obs' h')"
  by pat_completeness auto

termination
  by (relation "measure (\<lambda>(_, _, obs, _). length obs)")
    (auto dest: serve_round_length sym)

text \<open>
  Every host process there can be: one the manager spawned, after any number of rounds,
  and the clones of such a process.
\<close>

inductive hosts :: "host_env \<Rightarrow> fd \<Rightarrow> host \<Rightarrow> bool" for env where
  spawned: "hosts env ch (new_host m pid sends)"
| round: "hosts env ch h \<Longrightarrow> serve_round env ch ob obs h = Again ch' h' obs' \<Longrightarrow> hosts env ch' h'"

lemma hosts_ok: "hosts env ch h \<Longrightarrow> host_inv h \<and> answers h = length (h_read h)"
proof (induction rule: hosts.induct)
  case (spawned ch m pid sends)
  then show ?case
    using host_inv_new by (simp add: new_host_def set_host_title_def answers_def Let_def)
qed (auto dest: serve_round_ok)


subsection \<open>Ready\<close>

text \<open>A listening event in the pipe comes from a byte that announces one.\<close>

lemma note_events_listening:
  "note_events bs ev = Inr ev' \<Longrightarrow> ev_listening ev' \<Longrightarrow> ev_listening ev \<or> 1 \<in> set bs"
  by (induction bs ev rule: note_events.induct)
    (auto simp: event_of_byte_def split: sum.splits event.splits if_splits)

lemma drain_pipe_facts:
  "drain_pipe pipe ev = (rest, r) \<Longrightarrow> set rest \<subseteq> set pipe
     \<and> (\<forall>ev'. r = Inr ev' \<longrightarrow> ev_listening ev' \<longrightarrow> ev_listening ev \<or> 1 \<in> set pipe)"
proof (induction pipe ev rule: drain_pipe.induct)
  case (1 pipe ev)
  show ?case
  proof (cases "pipe = []")
    case False
    show ?thesis
    proof (cases "note_events (take 64 pipe) ev")
      case (Inl e)
      with 1(2) False show ?thesis
        by (subst (asm) drain_pipe.simps) (auto dest: in_set_dropD)
    next
      case (Inr ev1)
      then have "drain_pipe (drop 64 pipe) ev1 = (rest, r)"
        using 1(2) False by (subst (asm) drain_pipe.simps) auto
      from 1(1) [OF False Inr this] note_events_listening [OF Inr] show ?thesis
        by (auto dest: in_set_dropD in_set_takeD)
    qed
  qed (use 1(2) in \<open>auto simp: drain_pipe.simps\<close>)
qed

lemma drain_facts:
  assumes "drain h = (r, h')"
  shows "set (h_pipe h') \<subseteq> set (h_pipe h)"
    "r = Inr ev \<Longrightarrow> ev_listening ev \<Longrightarrow> 1 \<in> set (h_pipe h)"
  using assms
    drain_pipe_facts [of "h_pipe h" "\<lparr>ev_listening = False, ev_run_ended = False, ev_probed = False\<rparr>"]
  by (auto simp: drain_def split: prod.splits)

definition announces_listen :: "observation \<Rightarrow> bool" where
  "announces_listen ob = (1 \<in> set (ob_events ob) \<or> (\<exists>s. GuestListen s \<in> set (ob_guest_ops ob)))"

lemma pipe_fold_guest_ops:
  "1 \<in> set (h_pipe (fold apply_guest_op gs h)) \<Longrightarrow> 1 \<in> set (h_pipe h) \<or> (\<exists>s. GuestListen s \<in> set gs)"
proof (induction gs arbitrary: h)
  case (Cons g gs)
  from Cons.prems have "1 \<in> set (h_pipe (fold apply_guest_op gs (apply_guest_op g h)))" by simp
  from Cons.IH [OF this] show ?case
    by (cases g) (auto simp: apply_guest_op_def Let_def split: prod.splits sum.splits)
qed simp

lemma wait_pipe:
  assumes "wait ob h = (r, h')" "1 \<in> set (h_pipe h')"
  shows "1 \<in> set (h_pipe h) \<or> announces_listen ob"
  using assms pipe_fold_guest_ops [of "ob_guest_ops ob" h]
  by (auto simp: wait_def absorb_def announces_listen_def Let_def split: poll_result.splits if_splits)

lemma heed_events_ready:
  assumes "heed_events ob ev h = (Inl (Inr (Some (Ready text))), h')"
    and "h_probe h \<longrightarrow> gs_ready (mf_guest (h_manifest h)) \<noteq> None"
  shows "(if gs_ready (mf_guest (h_manifest h)) = None then ev_listening ev
          else ob_probe ob = Some (Inr ()))"
  using assms
  by (auto simp: heed_events_def start_probe_def become_ready_def ready_reply_def Let_def
      split: if_splits option.splits sum.splits prod.splits)

lemma heed_events_pipe:
  assumes "heed_events ob ev h = (r, h')"
  shows "h_pipe h' = h_pipe h" "h_manifest h' = h_manifest h"
    "h_probe h \<longrightarrow> gs_ready (mf_guest (h_manifest h)) \<noteq> None
       \<Longrightarrow> h_probe h' \<longrightarrow> gs_ready (mf_guest (h_manifest h')) \<noteq> None"
  using assms
  by (auto simp: heed_events_def start_probe_def become_ready_def ready_reply_def set_host_title_def Let_def
      split: if_splits option.splits sum.splits prod.splits)

lemma start_loop_ready:
  assumes "start_loop ch obs h = (Inr (Some (Ready t)), h', obs')"
    and "h_probe h \<longrightarrow> gs_ready (mf_guest (h_manifest h)) \<noteq> None"
  shows "h_phase h' = Running True \<and> (\<exists>ep. endpoint (h_networking h') = Inr ep \<and> t = show_addr ep)
    \<and> (if gs_ready (mf_guest (h_manifest h)) = None
       then 1 \<in> set (h_pipe h) \<or> (\<exists>ob \<in> set obs. announces_listen ob)
       else \<exists>ob \<in> set obs. ob_probe ob = Some (Inr ()))"
  using assms
proof (induction obs arbitrary: h)
  case (Cons ob obs)
  obtain w h1 where w: "wait ob h = (w, h1)" by fastforce
  obtain d h2 where d: "drain h1 = (d, h2)" by fastforce
  define ev where "ev = projr d"
  obtain e h3 where e: "heed_events ob ev h2 = (e, h3)" by fastforce
  obtain b h4 where b: "refuse_while_busy ch ''the guest is starting'' ob h3 = (b, h4)" by fastforce
  have same: "h_probe h2 = h_probe h" "h_manifest h2 = h_manifest h" "h_manifest h4 = h_manifest h3"
    "h_probe h4 = h_probe h3" "h_pipe h4 = h_pipe h3"
    using wait_frame(1,5) [OF w] drain_frame(1,6) [OF d] refuse_while_busy_frame(1,4,5) [OF b]
    by (simp_all add: core_def)
  have pipe: "1 \<in> set (h_pipe h2) \<Longrightarrow> 1 \<in> set (h_pipe h) \<or> announces_listen ob"
    "d = Inr ev \<Longrightarrow> ev_listening ev \<Longrightarrow> 1 \<in> set (h_pipe h) \<or> announces_listen ob"
    using wait_pipe [OF w] drain_facts [OF d] by blast+
  note run = Cons.prems(1) [simplified, unfolded w, simplified]
  consider (eend) x where "w = Inr x" "d = Inr ev" "e = Inl (Inr (Some (Ready t)))" "h' = h3"
    | (quiet) "d = Inr ev" "start_loop ch obs h3 = (Inr (Some (Ready t)), h', obs')"
    | (busy) "d = Inr ev" "start_loop ch obs h4 = (Inr (Some (Ready t)), h', obs')"
    using run d e b
    by (cases w; cases d) (auto simp: ev_def split: sum.splits option.splits if_splits bool.splits)
  then show ?case
  proof cases
    case eend
    then show ?thesis
      using heed_events_starting [OF e] heed_events_ready [of ob ev h2 t h3] e Cons.prems(2) same pipe(2)
      by (auto split: if_splits)
  next
    case quiet
    from Cons.IH [OF quiet(2)] heed_events_pipe [OF e] Cons.prems(2) same pipe(1)
    show ?thesis by (auto split: if_splits)
  next
    case busy
    from Cons.IH [OF busy(2)] heed_events_pipe [OF e] Cons.prems(2) same pipe(1)
    show ?thesis by (auto split: if_splits)
  qed
qed simp


subsection \<open>An example process\<close>

definition demo_manifest :: manifest where
  "demo_manifest =
     \<lparr>mf_service = \<lparr>sv_name = ''redis'', sv_version = ''7'', sv_extensions = []\<rparr>,
      mf_prepare = None,
      mf_guest = \<lparr>gs_module = demo_directory @ [Normal ''redis.wasm''], gs_args = [],
                  gs_listen_port = 70, gs_ready = None\<rparr>,
      mf_initializer = None,
      mf_directory = demo_directory\<rparr>"

definition demo_env :: host_env where
  "demo_env = \<lparr>he_local_addr = (\<lambda>_. Inr demo_addr), he_fs = demo_fs, he_sha256 = (\<lambda>bs. bs)\<rparr>"

definition demo_ob :: observation where
  "demo_ob =
     \<lparr>ob_poll = PollOk False, ob_recv = Inr None, ob_events = [], ob_guest_ops = [],
      ob_signals_ok = True, ob_guest = None, ob_run = None, ob_children = [],
      ob_spawn = Inr None, ob_probe_spawn = None, ob_probe = None, ob_compacted = False,
      ob_in_flight = 0, ob_drain = Inr 2, ob_threads = (\<lambda>_. 1), ob_dismantle_polls = 0,
      ob_shutdown = (\<lambda>_ _. None), ob_snapshot = Inr 1, ob_fork = ForkParent 8\<rparr>"

definition demo_request :: "request \<Rightarrow> fd list \<Rightarrow> observation" where
  "demo_request q fds = demo_ob
     \<lparr>ob_poll := PollOk True,
      ob_recv := Inr (Some \<lparr>fr_message = q, fr_payload = [], fr_fds = fds\<rparr>)\<rparr>"

definition demo_listens :: observation where
  "demo_listens = demo_ob
     \<lparr>ob_guest_ops := [GuestBind None demo_addr, GuestListen (PassedBound True), GuestAccept 9 demo_addr]\<rparr>"

definition round_host :: "round \<Rightarrow> host" where
  "round_host r = (case r of Again _ h _ \<Rightarrow> h | Ended _ h \<Rightarrow> h)"

definition demo_serving :: host where
  "demo_serving = round_host (serve_round demo_env 3 (demo_request RqStart [5]) [demo_listens]
     (new_host demo_manifest 7 None))"

definition demo_frozen :: host where
  "demo_frozen = round_host (serve_round demo_env 3 (demo_request RqFreeze []) [] demo_serving)"

lemma again_round_host:
  "(case r of Again c h [] \<Rightarrow> c = ch \<and> P h | _ \<Rightarrow> False) \<Longrightarrow> r = Again ch (round_host r) [] \<and> P (round_host r)"
  by (auto simp: round_host_def split: round.splits list.splits)

lemma demo_serving_run:
  "serve_round demo_env 3 (demo_request RqStart [5]) [demo_listens] (new_host demo_manifest 7 None)
     = Again 3 demo_serving []
   \<and> (h_phase demo_serving = Running True \<and> h_sends_left demo_serving = None
      \<and> h_sent demo_serving = [(3, Ready ''127.0.0.1:70'')] \<and> h_read demo_serving = [RqStart])"
  unfolding demo_serving_def by (rule again_round_host) code_simp

lemma demo_frozen_run:
  "serve_round demo_env 3 (demo_request RqFreeze []) [] demo_serving = Again 3 demo_frozen []
   \<and> (h_phase demo_frozen = PhaseFrozen \<and> h_sends_left demo_frozen = None
      \<and> nw_adopted (h_networking demo_frozen) \<noteq> None \<and> h_read demo_frozen = [RqStart, RqFreeze]
      \<and> h_shutdowns demo_frozen = [(5, ShutRead), (9, ShutBoth)])"
  unfolding demo_frozen_def by (rule again_round_host) code_simp

lemma demo_serving_facts:
  "h_phase demo_serving = Running True" "h_sends_left demo_serving = None"
  "h_sent demo_serving = [(3, Ready ''127.0.0.1:70'')]" "h_read demo_serving = [RqStart]"
  using demo_serving_run by simp_all

lemma demo_frozen_facts:
  "h_phase demo_frozen = PhaseFrozen" "h_sends_left demo_frozen = None"
  "nw_adopted (h_networking demo_frozen) \<noteq> None" "h_read demo_frozen = [RqStart, RqFreeze]"
  "h_shutdowns demo_frozen = [(5, ShutRead), (9, ShutBoth)]"
  using demo_frozen_run by simp_all

lemma demo_started:
  obtains h' where "host_start demo_env 3 [5] demo_ob [demo_listens] (new_host demo_manifest 7 None)
      = (Inr (Some (Ready ''127.0.0.1:70'')), h', [])" "endpoint (h_networking h') = Inr demo_addr"
proof -
  have "case host_start demo_env 3 [5] demo_ob [demo_listens] (new_host demo_manifest 7 None) of
      (r, h', obs) \<Rightarrow> r = Inr (Some (Ready ''127.0.0.1:70'')) \<and> obs = [] \<and> endpoint (h_networking h') = Inr demo_addr"
    by code_simp
  then show thesis using that by (auto split: prod.splits)
qed

lemma demo_hosts: "hosts demo_env 3 demo_serving" "hosts demo_env 3 demo_frozen"
  using hosts.round [OF spawned demo_serving_run [THEN conjunct1]] hosts.round [OF _ demo_frozen_run [THEN conjunct1]]
  by blast+


subsection \<open>Properties\<close>

text \<open>
  C1: Every request a host reads is answered exactly once. In every host process, spawned or
  forked, whatever it observes, as long as its loop goes on the number of replies it has sent,
  not counting the notices that a clone ended, is the number of requests it has read: also
  when a request is refused, arrives while another is being handled, fails, or is a fork that
  the child answers on its own channel.\<close>

theorem every_request_answered_once:
  assumes "hosts env ch h"
  shows "length (filter (\<lambda>(_, r). \<not> child_notice r) (h_sent h)) = length (h_read h)"
  using hosts_ok [OF assms] by (simp add: answers_def)

theorem every_request_answered_once_witness:
  "hosts demo_env 3 demo_frozen
   \<and> length (filter (\<lambda>(_, r). \<not> child_notice r) (h_sent demo_frozen)) = length [RqStart, RqFreeze]"
  using demo_hosts(2) every_request_answered_once [OF demo_hosts(2)] demo_frozen_facts(4) by simp

text \<open>
  C16: The runs of a host are in the order prepare, guest, initializer: no prepare step after
  the guest has started and no initializer before it; the guest is started exactly once in a
  process that has left the first two phases and never before; the prepare step runs without
  network and every other run with it.\<close>

theorem runs_in_order:
  assumes "hosts env ch h"
  shows "sorted (map (\<lambda>(r, _). stage r) (h_runs h))
    \<and> length (filter (\<lambda>(r, _). r = RunGuest) (h_runs h))
        = (if h_phase h = Fresh \<or> h_phase h = Prepared then 0 else 1)
    \<and> (\<forall>(r, g) \<in> set (h_runs h). gr_network g = (r \<noteq> RunPrepare))"
proof -
  have ok: "runs_ok (h_phase h) (h_runs h)" using hosts_ok [OF assms] by (simp add: host_inv_def)
  then have "filter (\<lambda>(r, _). r = RunGuest) (h_runs h) = []" if "h_phase h = Fresh \<or> h_phase h = Prepared"
    using that by (auto simp: runs_ok_def filter_empty_conv)
  with ok show ?thesis by (auto simp: runs_ok_def)
qed

theorem runs_in_order_witness:
  "hosts demo_env 3 demo_frozen
   \<and> length (filter (\<lambda>(r, _). r = RunGuest) (h_runs demo_frozen)) = 1"
  using demo_hosts(2) runs_in_order [OF demo_hosts(2)] demo_frozen_facts(1) by simp

text \<open>
  C3: A frozen host accepts only fork and stop. Any other request gets one error reply on the
  channel it came on, and nothing else of the host changes: the phase, the runs, the
  snapshot, the networking and the scan are as before.\<close>

theorem frozen_accepts_only_fork_and_stop:
  assumes "h_phase h = PhaseFrozen" "fr_message f \<noteq> RqFork" "fr_message f \<noteq> RqStop"
    and "h_sends_left h \<noteq> Some 0"
  shows "\<exists>t h'. handle env ch f ob obs h = (Inr Continue, h', obs)
    \<and> h_sent h' = h_sent h @ [(ch, Error t)] \<and> core h' = core h
    \<and> h_networking h' = h_networking h"
proof -
  define t where "t = (case fr_message f of
      RqPrepare \<Rightarrow> ''prepare is only accepted before anything has run''
    | RqStart \<Rightarrow> ''start is only accepted once, before the guest runs''
    | RqInitialize \<Rightarrow> ''initialize is only accepted while the guest is ready''
    | _ \<Rightarrow> ''freeze is only accepted while the guest is ready'')"
  obtain x h' where s: "send_reply ch (Error t) h = (x, h')" by fastforce
  then have sent: "x = Inr ()" "h_sent h' = h_sent h @ [(ch, Error t)]"
    using assms(4) by (auto elim: send_reply_cases)
  have "handle env ch f ob obs h = (Inr Continue, h', obs)"
    using assms(1-3) s sent(1)
    by (cases "fr_message f")
      (simp_all add: handle_def host_prepare_def host_start_def host_initialize_def host_freeze_def
        answer_def refuse_def error_text_def t_def)
  with sent send_reply_frame [OF s] show ?thesis by blast
qed

theorem frozen_accepts_only_fork_and_stop_witness:
  "h_phase demo_frozen = PhaseFrozen
   \<and> (\<exists>t h'. handle demo_env 3 \<lparr>fr_message = RqStart, fr_payload = [], fr_fds = [6]\<rparr> demo_ob [] demo_frozen
         = (Inr Continue, h', []) \<and> h_sent h' = h_sent demo_frozen @ [(3, Error t)])"
  using frozen_accepts_only_fork_and_stop [of demo_frozen "\<lparr>fr_message = RqStart, fr_payload = [], fr_fds = [6]\<rparr>"
      demo_env 3 demo_ob "[]"] demo_frozen_facts(1,2)
  by auto

text \<open>
  C4: A successful freeze leaves a process that can be forked: no host-side task was in
  flight, a reading of the thread count before the deadline was one, the listener and every
  tracked connection were shut down, the shared memory was snapshotted, and the reply carries
  the coroutine count of the drain. A freeze that fails for any of these reasons is answered
  with an error and ends the process.\<close>

theorem freeze_quiescent_or_over:
  assumes "h_phase h = Running True" "host_freeze ch ob h = (Inr r, h')"
  shows "(r = Continue \<and> h_phase h' = PhaseFrozen \<and> h_shared_memory h' \<noteq> None
      \<and> (\<exists>coroutines. ob_drain ob = Inr coroutines \<and> h_sent h' = h_sent h @ [(ch, Frozen coroutines)])
      \<and> ob_in_flight ob = 0
      \<and> (\<exists>i \<le> ob_dismantle_polls ob. ob_threads ob i = 1)
      \<and> h_shutdowns h' = h_shutdowns h
          @ (case nw_adopted (h_networking h) of None \<Rightarrow> [] | Some l \<Rightarrow> [(ls_fd l, ShutRead)])
          @ map (\<lambda>fd. (fd, ShutBoth)) (nw_connections (h_networking h)))
    \<or> (r = Exit \<and> (\<exists>e. h_sent h' = h_sent h @ [(ch, Error (error_text e))]))"
proof -
  define h1 where "h1 = set_host_title TitleFrozen (h\<lparr>h_phase := PhaseFrozen\<rparr>)"
  obtain x h2 where f: "freeze_guest ob h1 = (x, h2)" by fastforce
  have h1: "h_sent h1 = h_sent h" "h_networking h1 = h_networking h" "h_shutdowns h1 = h_shutdowns h"
    "h_phase h1 = PhaseFrozen"
    by (simp_all add: h1_def set_host_title_def Let_def)
  note frame = freeze_guest_frame [OF f]
  show ?thesis
  proof (cases x)
    case (Inl e)
    obtain y h3 where s: "send_reply ch (Error (error_text e)) h2 = (y, h3)" by fastforce
    then show ?thesis
      by (cases rule: send_reply_cases)
        (use assms f Inl s frame h1 in \<open>auto simp: host_freeze_def h1_def Let_def\<close>)
  next
    case (Inr c)
    obtain y h3 where s: "send_reply ch (Frozen c) h2 = (y, h3)" by fastforce
    have y: "y = Inr ()" "h_sent h3 = h_sent h2 @ [(ch, Frozen c)]"
      using s by (cases rule: send_reply_cases; use assms f Inr s in \<open>auto simp: host_freeze_def h1_def Let_def\<close>)+
    have h': "r = Continue" "h' = h3\<lparr>h_compaction := True\<rparr>"
      using assms f Inr s y by (auto simp: host_freeze_def h1_def Let_def)
    note ok = freeze_guest_ok [OF f [unfolded Inr]]
    have "\<exists>i \<le> ob_dismantle_polls ob. ob_threads ob i = 1"
      using ok(3) by (auto simp: dismantle_Inr)
    moreover have "h_shutdowns h2 = h_shutdowns h
        @ (case nw_adopted (h_networking h) of None \<Rightarrow> [] | Some l \<Rightarrow> [(ls_fd l, ShutRead)])
        @ map (\<lambda>fd. (fd, ShutBoth)) (nw_connections (h_networking h))"
      using f Inr h1 ok(1,2,3)
      by (auto simp: freeze_guest_def Let_def shut_down_sockets_def split: sum.splits prod.splits
          dest!: shut_down_all_done)
    moreover have "h_phase h3 = h_phase h2" "h_shared_memory h3 = h_shared_memory h2"
      "h_shutdowns h3 = h_shutdowns h2"
      using send_reply_frame(1) [OF s] s by (auto simp: core_def send_reply_def split: option.splits nat.splits)
    ultimately show ?thesis using h' y ok frame h1 by simp
  qed
qed

theorem freeze_quiescent_or_over_witness:
  "h_phase demo_serving = Running True
   \<and> (\<exists>h'. host_freeze 3 demo_ob demo_serving = (Inr Continue, h') \<and> h_shared_memory h' \<noteq> None)"
proof -
  have "fst (host_freeze 3 demo_ob demo_serving) = Inr Continue" by code_simp
  then obtain h' where run: "host_freeze 3 demo_ob demo_serving = (Inr Continue, h')"
    by (cases "host_freeze 3 demo_ob demo_serving") auto
  show ?thesis
    using freeze_quiescent_or_over [OF demo_serving_facts(1) run] run demo_serving_facts(1) by auto
qed


lemma host_start_ready:
  assumes "host_start env ch fds ob obs h = (Inr (Some (Ready t)), h', obs')" "\<not> h_probe h"
  shows "h_phase h' = Running True"
    and "\<exists>ep. endpoint (h_networking h') = Inr ep \<and> t = show_addr ep \<and> parse_addr t = Some ep"
    and "if gs_ready (mf_guest (h_manifest h)) = None
       then 1 \<in> set (h_pipe h) \<or> (\<exists>ob' \<in> set obs. announces_listen ob')
       else \<exists>ob' \<in> set obs. ob_probe ob' = Some (Inr ())"
proof -
  obtain h1 where loop: "start_loop ch obs h1 = (Inr (Some (Ready t)), h', obs')"
    and h1: "\<not> h_probe h1" "h_manifest h1 = h_manifest h" "h_pipe h1 = h_pipe h"
    using assms
    by (auto simp: host_start_def spawn_run_def Let_def split: if_splits list.splits sum.splits)
  from start_loop_ready [OF loop] h1 show "h_phase h' = Running True"
    "\<exists>ep. endpoint (h_networking h') = Inr ep \<and> t = show_addr ep \<and> parse_addr t = Some ep"
    "if gs_ready (mf_guest (h_manifest h)) = None
       then 1 \<in> set (h_pipe h) \<or> (\<exists>ob' \<in> set obs. announces_listen ob')
       else \<exists>ob' \<in> set obs. ob_probe ob' = Some (Inr ())" by auto
qed

text \<open>
  C5: A start answered with ready is the truth. The phase is ready, the endpoint in the reply
  is the address of the socket the guest serves on, and readiness was seen: where the manifest
  has a probe, its outcome was success; where it has none, the guest's listen was announced
  in the event pipe.\<close>

theorem ready_means_serving:
  assumes "host_start env ch fds ob obs h = (Inr (Some (Ready t)), h', obs')"
    and "\<not> h_probe h"
  shows "h_phase h' = Running True
    \<and> (\<exists>ep. endpoint (h_networking h') = Inr ep \<and> t = show_addr ep \<and> parse_addr t = Some ep)
    \<and> (if gs_ready (mf_guest (h_manifest h)) = None
       then 1 \<in> set (h_pipe h) \<or> (\<exists>ob' \<in> set obs. announces_listen ob')
       else \<exists>ob' \<in> set obs. ob_probe ob' = Some (Inr ()))"
  using host_start_ready [OF assms] by blast

theorem ready_means_serving_witness:
  "\<exists>h'. host_start demo_env 3 [5] demo_ob [demo_listens] (new_host demo_manifest 7 None)
         = (Inr (Some (Ready ''127.0.0.1:70'')), h', [])
     \<and> (\<exists>ep. endpoint (h_networking h') = Inr ep \<and> parse_addr ''127.0.0.1:70'' = Some ep)"
proof -
  obtain h' where run: "host_start demo_env 3 [5] demo_ob [demo_listens] (new_host demo_manifest 7 None)
      = (Inr (Some (Ready ''127.0.0.1:70'')), h', [])"
    by (rule demo_started)
  have "\<not> h_probe (new_host demo_manifest 7 None)"
    by (simp add: new_host_def set_host_title_def Let_def)
  from ready_means_serving [OF run this] run show ?thesis by blast
qed

definition rebuilt :: rebuild_result where
  "rebuilt = \<lparr>rb_profiler = None, rb_pdeathsig = None, rb_reshare = None, rb_tokio = None,
     rb_replace = None, rb_selector = None, rb_resurrect = None\<rparr>"

lemma host_fork_both:
  assumes "hosts env ch h" "h_phase h = PhaseFrozen" "nw_adopted (h_networking h) \<noteq> None"
    and "h_sends_left h = None" "he_local_addr env listener = Inr addr"
  shows "host_fork env ch [control, listener] (ob\<lparr>ob_fork := ForkParent pid\<rparr>) h
           = (Inr Continue, h\<lparr>h_sent := h_sent h @ [(ch, Forked pid (show_addr addr))]\<rparr>)"
    and "\<exists>h'. host_fork env ch [control, listener] (ob\<lparr>ob_fork := ForkChild pid rebuilt\<rparr>) h
              = (Inr (Child control), h')
          \<and> h_phase h' = Running True \<and> h_pid h' = pid
          \<and> endpoint (h_networking h') = Inr addr
          \<and> nw_connections (h_networking h') = nw_connections (h_networking h)
          \<and> h_generation h' = Suc (h_generation h)
          \<and> forked_reply (h_pid h') h' = Inr (Forked pid (show_addr addr))"
proof -
  have "h_shared_memory h \<noteq> None" using hosts_ok [OF assms(1)] assms(2) by (simp add: host_inv_def)
  with assms(2-5) show "host_fork env ch [control, listener] (ob\<lparr>ob_fork := ForkParent pid\<rparr>) h
           = (Inr Continue, h\<lparr>h_sent := h_sent h @ [(ch, Forked pid (show_addr addr))]\<rparr>)"
    "\<exists>h'. host_fork env ch [control, listener] (ob\<lparr>ob_fork := ForkChild pid rebuilt\<rparr>) h
              = (Inr (Child control), h')
          \<and> h_phase h' = Running True \<and> h_pid h' = pid
          \<and> endpoint (h_networking h') = Inr addr
          \<and> nw_connections (h_networking h') = nw_connections (h_networking h)
          \<and> h_generation h' = Suc (h_generation h)
          \<and> forked_reply (h_pid h') h' = Inr (Forked pid (show_addr addr))"
    by (auto simp: host_fork_def fork_host_def send_reply_def rebuild_def rebuilt_def Let_def replace_listener_def
        set_host_title_def endpoint_def forked_reply_def split: option.splits)
qed

text \<open>
  C2: A fork splits one frozen host into two that agree. The template answers with the
  child's process id and the address of the socket it was given, and is otherwise unchanged.
  The child, where the rebuild succeeds, is running and ready on that same socket with the
  streams the template tracked, in a new timer generation, and its own reply names the same
  process id and address; and a fork of a host that froze never fails for want of a
  shared-memory snapshot.\<close>

theorem fork_parent_and_child_agree:
  assumes "hosts env ch h" "h_phase h = PhaseFrozen" "nw_adopted (h_networking h) \<noteq> None"
    and "h_sends_left h = None" "he_local_addr env listener = Inr addr"
  shows "host_fork env ch [control, listener] (ob\<lparr>ob_fork := ForkParent pid\<rparr>) h
           = (Inr Continue, h\<lparr>h_sent := h_sent h @ [(ch, Forked pid (show_addr addr))]\<rparr>)
    \<and> (\<exists>h'. host_fork env ch [control, listener] (ob\<lparr>ob_fork := ForkChild pid rebuilt\<rparr>) h
              = (Inr (Child control), h')
          \<and> h_phase h' = Running True \<and> h_pid h' = pid
          \<and> endpoint (h_networking h') = Inr addr
          \<and> nw_connections (h_networking h') = nw_connections (h_networking h)
          \<and> h_generation h' = Suc (h_generation h)
          \<and> forked_reply (h_pid h') h' = Inr (Forked pid (show_addr addr)))"
  using host_fork_both [OF assms, of control pid ob] by blast

theorem fork_parent_and_child_agree_witness:
  "host_fork demo_env 3 [4, 6] (demo_ob\<lparr>ob_fork := ForkParent 8\<rparr>) demo_frozen
     = (Inr Continue, demo_frozen\<lparr>h_sent := h_sent demo_frozen @ [(3, Forked 8 (show_addr demo_addr))]\<rparr>)"
proof -
  have "he_local_addr demo_env 6 = Inr demo_addr" by (simp add: demo_env_def)
  from fork_parent_and_child_agree [OF demo_hosts(2) demo_frozen_facts(1,3,2) this]
  show ?thesis by blast
qed

end
