(* ===== verification/Runtime.thy ===== *)
theory Runtime
  imports Cache
begin

text \<open>
  The embedded runtime (\<open>src/crates/servicecache/src/runtime.rs\<close>): the read-only wrapper around
  a host directory, the mounts of a guest, loading a module through the cache or without one,
  and one run of a module with captured output. The file system of the host, the mount table
  and Wasmer are arguments: a function from calls to answers, or the answer of each step.
\<close>

subsection \<open>The read-only file system\<close>

datatype fs_error = FsPermissionDenied | FsOther string

record open_options =
  oo_read :: bool
  oo_write :: bool
  oo_create_new :: bool
  oo_create :: bool
  oo_append :: bool
  oo_truncate :: bool

text \<open>The calls of \<open>FileSystem\<close> and \<open>FileOpener\<close>.\<close>

datatype fs_call =
    Readlink path
  | ReadDir path
  | CreateDir path
  | CreateSymlink path path
  | HardLink path path
  | RemoveDir path
  | Rename path path
  | Metadata path
  | SymlinkMetadata path
  | RemoveFile path
  | OpenFile path open_options

text \<open>A file system answers a call with a value or an error and may change the disk.\<close>

type_synonym ('s, 'a) file_system = "fs_call \<Rightarrow> 's \<Rightarrow> (fs_error + 'a) \<times> 's"

definition open_read_only :: "('s, 'a) file_system \<Rightarrow> path \<Rightarrow> open_options \<Rightarrow> 's \<Rightarrow> (fs_error + 'a) \<times> 's" where
  "open_read_only inner p c s =
     (if oo_write c \<or> oo_create c \<or> oo_create_new c \<or> oo_append c \<or> oo_truncate c
      then (Inl FsPermissionDenied, s)
      else inner (OpenFile p c) s)"

fun read_only :: "('s, 'a) file_system \<Rightarrow> ('s, 'a) file_system" where
  "read_only inner (Readlink p) s = inner (Readlink p) s"
| "read_only inner (ReadDir p) s = inner (ReadDir p) s"
| "read_only inner (CreateDir p) s = (Inl FsPermissionDenied, s)"
| "read_only inner (CreateSymlink p q) s = (Inl FsPermissionDenied, s)"
| "read_only inner (HardLink p q) s = (Inl FsPermissionDenied, s)"
| "read_only inner (RemoveDir p) s = (Inl FsPermissionDenied, s)"
| "read_only inner (Rename p q) s = (Inl FsPermissionDenied, s)"
| "read_only inner (Metadata p) s = inner (Metadata p) s"
| "read_only inner (SymlinkMetadata p) s = inner (SymlinkMetadata p) s"
| "read_only inner (RemoveFile p) s = (Inl FsPermissionDenied, s)"
| "read_only inner (OpenFile p c) s = open_read_only inner p c s"

subsection \<open>Mounts\<close>

record read_only_mount =
  rom_guest :: path
  rom_host :: path

datatype runtime_error =
    NoTaskRuntime string
  | ModuleNotLoaded cache_error
  | ModuleNotCompiled path
  | HostMountNotOpened path io_error
  | NotMounted path path string
  | StdinNotBuffered string
  | NoPreopen string
  | NotInstantiated string
  | NoStartExport string
  | ExecutionFailed string
  | StdoutUnreadable string
  | StderrUnreadable string

text \<open>
  \<open>read_only_mounts\<close>: each mount is opened and mounted in turn on a root in memory; \<open>host\<close>
  opens a directory of the host, \<open>mount\<close> is the mount table.
\<close>

fun mount_all ::
  "(path \<Rightarrow> io_error + ('s, 'a) file_system) \<Rightarrow> (path \<Rightarrow> ('s, 'a) file_system \<Rightarrow> 'm \<Rightarrow> string + 'm)
     \<Rightarrow> read_only_mount list \<Rightarrow> 'm \<Rightarrow> runtime_error + 'm" where
  "mount_all host mount [] filesystem = Inr filesystem"
| "mount_all host mount (m # mounts) filesystem =
     (case host (rom_host m) of
        Inl e \<Rightarrow> Inl (HostMountNotOpened (rom_host m) e)
      | Inr inner \<Rightarrow>
          (case mount (rom_guest m) (read_only inner) filesystem of
             Inl e \<Rightarrow> Inl (NotMounted (rom_host m) (rom_guest m) e)
           | Inr filesystem' \<Rightarrow> mount_all host mount mounts filesystem'))"

definition read_only_mounts ::
  "(path \<Rightarrow> io_error + ('s, 'a) file_system) \<Rightarrow> (path \<Rightarrow> ('s, 'a) file_system \<Rightarrow> 'm \<Rightarrow> string + 'm)
     \<Rightarrow> 'm \<Rightarrow> read_only_mount list \<Rightarrow> runtime_error + 'm" where
  "read_only_mounts host mount root mounts = mount_all host mount mounts root"

subsection \<open>Modules\<close>

text \<open>What a load finds: the module's file, the cache directory before and under the lock, and failures.\<close>

record cache_io =
  io_pid :: nat
  io_lock :: "io_error option"
  io_written :: "(string \<times> byte list) option"
  io_renamed :: "io_error option"
  io_read :: "path \<Rightarrow> io_error + byte list"
  io_files :: cache_files
  io_locked :: cache_files

definition load_at :: "'m compiler \<Rightarrow> path \<Rightarrow> cache_io \<Rightarrow> path \<Rightarrow> (cache_error + 'm) \<times> cache_files" where
  "load_at cc dir io p =
     load_module cc dir (io_pid io) (io_lock io) (io_written io) (io_renamed io) (io_read io p) (io_files io) (io_locked io)"

record 'm runtime =
  rt_engine :: "'m compiler"
  rt_cache :: "path option"

definition runtime_module :: "'m runtime \<Rightarrow> cache_io \<Rightarrow> path \<Rightarrow> runtime_error + 'm" where
  "runtime_module rt io p =
     (case rt_cache rt of
        Some dir \<Rightarrow> (case fst (load_at (rt_engine rt) dir io p) of Inl e \<Rightarrow> Inl (ModuleNotLoaded e) | Inr m \<Rightarrow> Inr m)
      | None \<Rightarrow>
          (case io_read io p of
             Inl _ \<Rightarrow> Inl (ModuleNotCompiled p)
           | Inr bytes \<Rightarrow>
               (case cc_compile (rt_engine rt) bytes of Inl _ \<Rightarrow> Inl (ModuleNotCompiled p) | Inr m \<Rightarrow> Inr m)))"

text \<open>\<open>Runtime::load\<close> adds the module's path to the error.\<close>

definition runtime_load :: "'m runtime \<Rightarrow> cache_io \<Rightarrow> path \<Rightarrow> (path \<times> runtime_error) + unit" where
  "runtime_load rt io p = (case runtime_module rt io p of Inl e \<Rightarrow> Inl (p, e) | Inr _ \<Rightarrow> Inr ())"

subsection \<open>One run\<close>

record run_request =
  rr_module :: path
  rr_args :: "string list"
  rr_stdin :: "byte list"
  rr_mounts :: "read_only_mount list"

record run_output =
  ro_status :: int
  ro_stdout :: "byte list"
  ro_stderr :: "byte list"

datatype call_end = Returned | GuestExit int | Trapped string

text \<open>What each step answers, \<open>None\<close> for success; the pipes give what the guest wrote.\<close>

record run_answers =
  ra_tokio :: "string option"
  ra_stdin :: "string option"
  ra_preopen_root :: "string option"
  ra_preopen_dir :: "string option"
  ra_instantiate :: "string option"
  ra_start :: "string option"
  ra_call :: call_end
  ra_stdout :: "string + byte list"
  ra_stderr :: "string + byte list"

text \<open>The environment a run is given; the network is one that supports nothing.\<close>

record run_config =
  rc_program :: string
  rc_args :: "string list"
  rc_stdin :: "byte list"
  rc_network :: bool
  rc_http :: bool
  rc_preopens :: "string list"

definition run_config_of :: "run_request \<Rightarrow> run_config" where
  "run_config_of rq =
     \<lparr>rc_program = (case file_name (rr_module rq) of Some name \<Rightarrow> name | None \<Rightarrow> ''module''),
      rc_args = rr_args rq, rc_stdin = rr_stdin rq, rc_network = False, rc_http = False, rc_preopens = [''/'', ''/'']\<rparr>"

definition guest_status :: "call_end \<Rightarrow> runtime_error + int" where
  "guest_status c = (case c of Returned \<Rightarrow> Inr 0 | GuestExit code \<Rightarrow> Inr code | Trapped e \<Rightarrow> Inl (ExecutionFailed e))"

definition step_ok :: "string option \<Rightarrow> (string \<Rightarrow> runtime_error) \<Rightarrow> runtime_error + unit" where
  "step_ok failure e = (case failure of None \<Rightarrow> Inr () | Some text \<Rightarrow> Inl (e text))"

definition collect_output :: "run_answers \<Rightarrow> int \<Rightarrow> runtime_error + run_output" where
  "collect_output ra status =
     (case ra_stdout ra of
        Inl e \<Rightarrow> Inl (StdoutUnreadable e)
      | Inr out \<Rightarrow>
          (case ra_stderr ra of
             Inl e \<Rightarrow> Inl (StderrUnreadable e)
           | Inr err \<Rightarrow> Inr \<lparr>ro_status = status, ro_stdout = out, ro_stderr = err\<rparr>))"

definition run_module ::
  "'m runtime \<Rightarrow> cache_io \<Rightarrow> (read_only_mount list \<Rightarrow> runtime_error + 'fs) \<Rightarrow> run_answers \<Rightarrow> run_request
     \<Rightarrow> runtime_error + run_output" where
  "run_module rt io mounts ra rq =
     and_then (step_ok (ra_tokio ra) NoTaskRuntime) (\<lambda>_.
     and_then (runtime_module rt io (rr_module rq)) (\<lambda>_.
     and_then (mounts (rr_mounts rq)) (\<lambda>_.
     and_then (step_ok (ra_stdin ra) StdinNotBuffered) (\<lambda>_.
     and_then (step_ok (ra_preopen_root ra) NoPreopen) (\<lambda>_.
     and_then (step_ok (ra_preopen_dir ra) NoPreopen) (\<lambda>_.
     and_then (step_ok (ra_instantiate ra) NotInstantiated) (\<lambda>_.
     and_then (step_ok (ra_start ra) NoStartExport) (\<lambda>_.
     and_then (guest_status (ra_call ra)) (collect_output ra)))))))))"

subsection \<open>Lemmas\<close>

text \<open>The calls a read-only mount passes on.\<close>

fun only_reads :: "fs_call \<Rightarrow> bool" where
  "only_reads (Readlink p) = True"
| "only_reads (ReadDir p) = True"
| "only_reads (Metadata p) = True"
| "only_reads (SymlinkMetadata p) = True"
| "only_reads (OpenFile p c) =
     (\<not> (oo_write c \<or> oo_create c \<or> oo_create_new c \<or> oo_append c \<or> oo_truncate c))"
| "only_reads _ = False"

lemma read_only_reads:
  "read_only inner call s = (if only_reads call then inner call s else (Inl FsPermissionDenied, s))"
  by (cases call) (auto simp: open_read_only_def)

text \<open>Wrapping twice is wrapping once.\<close>

lemma read_only_idem: "read_only (read_only inner) = read_only inner"
  by (simp add: fun_eq_iff read_only_reads)

text \<open>What the guest's file system is made of: its mounts in order, each wrapped.\<close>

lemma mount_all_append:
  "mount_all host mount (ms @ ms') fs = and_then (mount_all host mount ms fs) (mount_all host mount ms')"
  by (induction ms arbitrary: fs) (auto simp: and_then_def split: sum.splits)

lemma mount_all_log:
  assumes "mount_all host (\<lambda>g inner log. Inr (log @ [(g, inner)])) mounts log = Inr log'"
  shows "\<exists>inners. map (\<lambda>m. host (rom_host m)) mounts = map Inr inners
    \<and> log' = log @ zip (map rom_guest mounts) (map read_only inners)"
  using assms
proof (induction mounts arbitrary: log)
  case (Cons m mounts)
  then obtain inner where inner: "host (rom_host m) = Inr inner"
    "mount_all host (\<lambda>g inner log. Inr (log @ [(g, inner)])) mounts (log @ [(rom_guest m, read_only inner)]) = Inr log'"
    by (auto split: sum.splits)
  from Cons.IH [OF inner(2)] inner(1) show ?case
    by (auto intro: exI [of _ "inner # _"])
qed simp

text \<open>
  A run gives an output exactly when every step did; a guest that exits with a status of its
  own is an output, not an error.
\<close>

lemma run_module_Inr:
  "run_module rt io mounts ra rq = Inr out \<longleftrightarrow>
     ra_tokio ra = None \<and> (\<exists>m. runtime_module rt io (rr_module rq) = Inr m) \<and> (\<exists>fs. mounts (rr_mounts rq) = Inr fs)
     \<and> ra_stdin ra = None \<and> ra_preopen_root ra = None \<and> ra_preopen_dir ra = None \<and> ra_instantiate ra = None
     \<and> ra_start ra = None \<and> (\<exists>status. guest_status (ra_call ra) = Inr status \<and> collect_output ra status = Inr out)"
  by (auto simp: run_module_def and_then_def step_ok_def split: option.splits sum.splits)

subsection \<open>Properties\<close>

text \<open>
  What is relied on of the host's file system: looking at a name, a directory or a link, and
  opening a file with no intention to write, leave the disk as it is.
\<close>

definition reads_leave :: "('s, 'a) file_system \<Rightarrow> bool" where
  "reads_leave inner = (\<forall>call s. only_reads call \<longrightarrow> snd (inner call s) = s)"

fun fs_calls :: "('s, 'a) file_system \<Rightarrow> fs_call list \<Rightarrow> 's \<Rightarrow> (fs_error + 'a) list \<times> 's" where
  "fs_calls fs [] s = ([], s)"
| "fs_calls fs (call # calls) s =
     (case fs call s of (a, s') \<Rightarrow> (case fs_calls fs calls s' of (as, s'') \<Rightarrow> (a # as, s'')))"


text \<open>A disk that is a list of names: creating and removing change it, opening looks it up.\<close>

fun demo_disk :: "(path list, unit) file_system" where
  "demo_disk (CreateDir p) s = (Inr (), p # s)"
| "demo_disk (RemoveFile p) s = (Inr (), remove1 p s)"
| "demo_disk (OpenFile p c) s =
     (if p \<in> set s then (Inr (), if oo_truncate c then remove1 p s else s)
      else if oo_create c then (Inr (), p # s) else (Inl (FsOther ''not found''), s))"
| "demo_disk _ s = (Inr (), s)"

definition demo_open :: open_options where
  "demo_open = \<lparr>oo_read = True, oo_write = False, oo_create_new = False, oo_create = False, oo_append = False,
     oo_truncate = False\<rparr>"


end
