(* ===== verification/Guest.thy ===== *)
theory Guest
  imports Runtime HostState Stores
begin

text \<open>
  Guests on the host's runtime (\<open>src/crates/servicecache/src/host/guest.rs\<close>): the engine's
  profile, the modules a host keeps once loaded, what a run is started with, and how the end
  of a run reads as a status. Compiling is the compiler of the theory Cache; building the
  environment and starting the module are Wasmer's, and what they answer is an argument.
\<close>

subsection \<open>Engine and compiler\<close>

datatype profile_mode = ProfileOff | ProfilePerfMap | ProfileJitDump

text \<open>Whether the variables \<open>SERVICECACHE_JITDUMP\<close> and \<open>SERVICECACHE_PERFMAP\<close> are set decides.\<close>

definition engine_mode :: "bool \<Rightarrow> bool \<Rightarrow> profile_mode" where
  "engine_mode jitdump perfmap =
     (if jitdump then ProfileJitDump else if perfmap then ProfilePerfMap else ProfileOff)"

text \<open>Compiling needs a pool of its own, which may not come up.\<close>

definition compile_module :: "string option \<Rightarrow> (byte list \<Rightarrow> string + 'm) \<Rightarrow> byte list \<Rightarrow> string + 'm" where
  "compile_module pool from_binary bytes = (case pool of Some e \<Rightarrow> Inl e | None \<Rightarrow> from_binary bytes)"

subsection \<open>The runtime of a host\<close>

record ('m, 'fs) guest_runtime =
  gt_compiler :: "'m compiler"
  gt_fs :: 'fs
  gt_cache :: path
  gt_modules :: "(path, 'm) hash_map"
  gt_extensions :: "string list"

definition new_guest_runtime ::
  "'m compiler \<Rightarrow> (read_only_mount list \<Rightarrow> runtime_error + 'fs) \<Rightarrow> read_only_mount list \<Rightarrow> path \<Rightarrow> string list
     \<Rightarrow> runtime_error + ('m, 'fs) guest_runtime" where
  "new_guest_runtime cc mount mounts cache extensions =
     (case mount mounts of
        Inl e \<Rightarrow> Inl e
      | Inr filesystem \<Rightarrow>
          Inr \<lparr>gt_compiler = cc, gt_fs = filesystem, gt_cache = cache, gt_modules = [],
               gt_extensions = sort (remdups extensions)\<rparr>)"

text \<open>The mounts a host makes of its manifest.\<close>

definition manifest_mounts :: "manifest \<Rightarrow> read_only_mount list" where
  "manifest_mounts m =
     (case mf_prepare m of
        None \<Rightarrow> []
      | Some p \<Rightarrow> map (\<lambda>(guest, host). \<lparr>rom_guest = guest, rom_host = host\<rparr>) (pr_fs p))"

text \<open>\<open>GuestRuntime::module\<close>: once per path, and a failure is not kept.\<close>

definition guest_module ::
  "cache_io \<Rightarrow> path \<Rightarrow> ('m, 'fs) guest_runtime \<Rightarrow> (cache_error + 'm) \<times> ('m, 'fs) guest_runtime" where
  "guest_module io p gt =
     (case map_of (gt_modules gt) p of
        Some m \<Rightarrow> (Inr m, gt)
      | None \<Rightarrow>
          (case fst (load_at (gt_compiler gt) (gt_cache gt) io p) of
             Inl e \<Rightarrow> (Inl e, gt)
           | Inr m \<Rightarrow> (Inr m, gt\<lparr>gt_modules := hm_insert p m (gt_modules gt)\<rparr>)))"

subsection \<open>Starting a run\<close>

text \<open>
  The environment of a run: \<open>gc_network\<close> is the host's networking or one that supports
  nothing, both output streams are the host's standard error, and only the extensions the
  manifest declares exist.
\<close>

record 'fs guest_config =
  gc_program :: string
  gc_args :: "string list"
  gc_stdin :: "byte list"
  gc_fs :: 'fs
  gc_network :: bool
  gc_http :: bool
  gc_asynchronous_threading :: bool
  gc_extensions :: "string list option"
  gc_preopens :: "string list"

definition guest_config_of :: "guest_run \<Rightarrow> ('m, 'fs) guest_runtime \<Rightarrow> 'fs guest_config" where
  "guest_config_of run gt =
     \<lparr>gc_program = gr_program_name run, gc_args = gr_args run, gc_stdin = gr_stdin run, gc_fs = gt_fs gt,
      gc_network = gr_network run, gc_http = False, gc_asynchronous_threading = False,
      gc_extensions = Some (gt_extensions gt), gc_preopens = [''/'', ''/'']\<rparr>"

datatype spawn_error =
    SpawnModule cache_error
  | SpawnStdin string
  | SpawnPreopen string
  | SpawnBuild string string
  | SpawnStart string string

text \<open>
  \<open>GuestRuntime::spawn\<close>: the module, then the pipe, the two pre-opened directories, the
  environment, and the start, each of which may fail.
\<close>

record spawn_answers =
  sa_stdin :: "string option"
  sa_preopen_root :: "string option"
  sa_preopen_dir :: "string option"
  sa_build :: "string option"
  sa_start :: "string option"

definition spawn_guest ::
  "cache_io \<Rightarrow> spawn_answers \<Rightarrow> guest_run \<Rightarrow> ('m, 'fs) guest_runtime
     \<Rightarrow> (spawn_error + 'm \<times> 'fs guest_config) \<times> ('m, 'fs) guest_runtime" where
  "spawn_guest io sa run gt =
     (case guest_module io (gr_module run) gt of
        (Inl e, gt') \<Rightarrow> (Inl (SpawnModule e), gt')
      | (Inr m, gt') \<Rightarrow>
          (case sa_stdin sa of Some e \<Rightarrow> (Inl (SpawnStdin e), gt') | None \<Rightarrow>
           case sa_preopen_root sa of Some e \<Rightarrow> (Inl (SpawnPreopen e), gt') | None \<Rightarrow>
           case sa_preopen_dir sa of Some e \<Rightarrow> (Inl (SpawnPreopen e), gt') | None \<Rightarrow>
           case sa_build sa of Some e \<Rightarrow> (Inl (SpawnBuild (gr_program_name run) e), gt') | None \<Rightarrow>
           case sa_start sa of Some e \<Rightarrow> (Inl (SpawnStart (gr_program_name run) e), gt') | None \<Rightarrow>
           (Inr (m, guest_config_of run gt'), gt')))"

subsection \<open>The end of a run\<close>

text \<open>What the runtime says of a task; an error may carry an exit code.\<close>

datatype task_status = TaskPending | TaskRunning | TaskFinished int | TaskErred "int option"

definition exit_status :: "task_status \<Rightarrow> int option" where
  "exit_status status =
     (case status of
        TaskFinished code \<Rightarrow> Some code
      | TaskErred code \<Rightarrow> Some (case code of Some c \<Rightarrow> c | None \<Rightarrow> 128)
      | _ \<Rightarrow> None)"

subsection \<open>Lemmas\<close>

lemma exit_status_ended: "exit_status status \<noteq> None \<longleftrightarrow> status \<noteq> TaskPending \<and> status \<noteq> TaskRunning"
  by (cases status) (auto simp: exit_status_def)

text \<open>The runs of one host share a file system: what the prepare step wrote, the guest finds.\<close>

lemma spawn_guest_shares:
  assumes "spawn_guest io sa run gt = (r, gt')"
  shows "gt_fs gt' = gt_fs gt" "gt_extensions gt' = gt_extensions gt" "gt_cache gt' = gt_cache gt"
    "gt_compiler gt' = gt_compiler gt"
    "r = Inr (m, c) \<Longrightarrow> gc_fs c = gt_fs gt \<and> gc_network c = gr_network run \<and> gc_stdin c = gr_stdin run
       \<and> gc_extensions c = Some (gt_extensions gt)"
  using assms
  by (auto simp: spawn_guest_def guest_module_def guest_config_of_def split: option.splits sum.splits prod.splits)

text \<open>
  Loading with no memory of earlier loads: the file's bytes, compiled. With the cache in a
  state that processes sharing it can reach and no call failing, that is what a load gives.
\<close>

definition module_at :: "'m compiler \<Rightarrow> (path \<Rightarrow> io_error + byte list) \<Rightarrow> path \<Rightarrow> cache_error + 'm" where
  "module_at cc read p =
     (case read p of
        Inl e \<Rightarrow> Inl (ModuleUnreadable e)
      | Inr bytes \<Rightarrow> (case cc_compile cc bytes of Inl e \<Rightarrow> Inl (CompileFailed e) | Inr m \<Rightarrow> Inr m))"

definition io_ok :: "'m compiler \<Rightarrow> path \<Rightarrow> (path \<Rightarrow> io_error + byte list) \<Rightarrow> cache_io \<Rightarrow> bool" where
  "io_ok cc dir read io =
     (io_read io = read \<and> io_lock io = None \<and> io_written io = None \<and> io_renamed io = None
      \<and> (\<exists>w. caches cc dir w \<and> io_files io = cw_files w) \<and> (\<exists>w. caches cc dir w \<and> io_locked io = cw_files w))"

lemma load_entry_reachable:
  assumes "codec_ok cc" "caches cc dir w" "load_entry cc (cache_entry cc dir (cc_hash cc bytes)) (cw_files w) = Some m"
  shows "cc_compile cc bytes = Inr m"
  by (rule load_entry_sound [OF assms(1) caches_inv [OF assms(1,2)] assms(3)])

lemma load_at_module:
  assumes "codec_ok cc" "io_ok cc dir read io"
  shows "fst (load_at cc dir io p) = module_at cc read p"
proof -
  obtain w w' where w: "caches cc dir w" "io_files io = cw_files w" "caches cc dir w'" "io_locked io = cw_files w'"
    using assms(2) by (auto simp: io_ok_def)
  show ?thesis
    using assms(2) load_entry_reachable [OF assms(1) w(1)] load_entry_reachable [OF assms(1) w(3)]
    by (auto simp: io_ok_def load_at_def load_module_def load_bytes_def module_at_def store_entry_def w(2,4) Let_def
        split: sum.splits option.splits)
qed

text \<open>Every module kept is the one a load of its path gives.\<close>

definition modules_ok :: "(path \<Rightarrow> io_error + byte list) \<Rightarrow> ('m, 'fs) guest_runtime \<Rightarrow> bool" where
  "modules_ok read gt =
     (hm_wf (gt_modules gt) \<and> (\<forall>p m. map_of (gt_modules gt) p = Some m \<longrightarrow> module_at (gt_compiler gt) read p = Inr m))"

lemma guest_module_ok:
  assumes "codec_ok (gt_compiler gt)" "io_ok (gt_compiler gt) (gt_cache gt) read io" "modules_ok read gt"
    and "guest_module io p gt = (r, gt')"
  shows "r = module_at (gt_compiler gt) read p" "modules_ok read gt'"
    "gt_compiler gt' = gt_compiler gt" "gt_cache gt' = gt_cache gt"
  using assms(3,4) load_at_module [OF assms(1,2), of p]
  by (auto simp: guest_module_def modules_ok_def hm_wf_insert hash.lookup_insert split: option.splits sum.splits if_splits)

subsection \<open>Properties\<close>

fun guest_modules ::
  "(cache_io \<times> path) list \<Rightarrow> ('m, 'fs) guest_runtime \<Rightarrow> (cache_error + 'm) list \<times> ('m, 'fs) guest_runtime" where
  "guest_modules [] gt = ([], gt)"
| "guest_modules ((io, p) # loads) gt =
     (case guest_module io p gt of (r, gt') \<Rightarrow> (case guest_modules loads gt' of (rs, gt'') \<Rightarrow> (r # rs, gt'')))"

lemma guest_modules_ok:
  assumes "codec_ok (gt_compiler gt)" "\<forall>(io, p) \<in> set loads. io_ok (gt_compiler gt) (gt_cache gt) read io"
    and "modules_ok read gt"
  shows "fst (guest_modules loads gt) = map (module_at (gt_compiler gt) read \<circ> snd) loads
    \<and> modules_ok read (snd (guest_modules loads gt))"
  using assms
proof (induction loads arbitrary: gt)
  case (Cons l loads)
  obtain io p where l: "l = (io, p)" by (cases l)
  obtain r gt' where r: "guest_module io p gt = (r, gt')" by fastforce
  have "io_ok (gt_compiler gt) (gt_cache gt) read io" using Cons.prems(2) by (simp add: l)
  note ok = guest_module_ok [OF Cons.prems(1) this Cons.prems(3) r]
  from Cons.IH [of gt'] ok Cons.prems show ?case by (auto simp: l r case_prod_beta)
qed simp

lemma guest_modules_compiler: "guest_modules loads gt = (rs, gt') \<Longrightarrow> gt_compiler gt' = gt_compiler gt"
  by (induction loads arbitrary: gt rs)
    (auto simp: guest_module_def split: prod.splits option.splits sum.splits)


definition demo_io :: cache_io where
  "demo_io = \<lparr>io_pid = 1, io_lock = None, io_written = None, io_renamed = None,
     io_read = (\<lambda>p. if p = [Normal ''a''] then Inr [1] else Inl NotFound), io_files = cw_files demo_shared,
     io_locked = cw_files demo_shared\<rparr>"


end
