(* ===== verification/Tasks.thy ===== *)
theory Tasks
  imports Freeze Machines
begin

text \<open>
  The host's task manager (\<open>src/crates/servicecache/src/host/tasks.rs\<close>): the tokio runtime it
  points at, replaced in every forked child, the fork generation, the count of shared tasks in
  flight, and the sleeps that arm their timer again when the generation has changed. A runtime
  is a number; what a timer of tokio answers to a poll is an argument. The steps of one line
  of processes, a template and the child of a child, interleave guest threads, host tasks, a
  freeze and forks.
\<close>

subsection \<open>The task manager\<close>

definition TASK_STACK_SIZE :: nat where
  "TASK_STACK_SIZE = 8 * 2 ^ 20"

definition MAX_THREAD_PARALLELISM :: nat where
  "MAX_THREAD_PARALLELISM = 4"

definition DRIVER_STACK_SIZE :: nat where
  "DRIVER_STACK_SIZE = 2 ^ 20"

type_synonym runtime_id = nat

text \<open>\<open>Shared\<close>; the counters are a \<open>u64\<close> and a \<open>usize\<close>.\<close>

record task_manager =
  tk_handle :: runtime_id
  tk_generation :: "64 word"
  tk_in_flight :: "64 word"

definition new_task_manager :: "runtime_id \<Rightarrow> task_manager" where
  "new_task_manager handle = \<lparr>tk_handle = handle, tk_generation = 0, tk_in_flight = 0\<rparr>"

definition replace_runtime :: "runtime_id \<Rightarrow> task_manager \<Rightarrow> task_manager" where
  "replace_runtime handle tk = tk\<lparr>tk_handle := handle, tk_generation := tk_generation tk + 1\<rparr>"

definition shared_tasks_in_flight :: "task_manager \<Rightarrow> nat" where
  "shared_tasks_in_flight tk = unat (tk_in_flight tk)"

text \<open>\<open>task_shared\<close> when it is called, and when the future it spawned has run to its end.\<close>

definition task_shared :: "task_manager \<Rightarrow> task_manager" where
  "task_shared tk = tk\<lparr>tk_in_flight := tk_in_flight tk + 1\<rparr>"

definition task_finished :: "task_manager \<Rightarrow> task_manager" where
  "task_finished tk = tk\<lparr>tk_in_flight := tk_in_flight tk - 1\<rparr>"

text \<open>
  A guest thread: what the operating system answers to the spawn, and for \<open>task_wasm\<close> what
  arrives on the channel the thread reports on, nothing when it dies first.
\<close>

datatype thread_error = ThreadUnsupported | InvalidWasmContext | ThreadOther string

definition spawn_guest_thread :: "bool \<Rightarrow> thread_error + unit" where
  "spawn_guest_thread spawned = (if spawned then Inr () else Inl ThreadUnsupported)"

definition task_wasm :: "bool \<Rightarrow> (thread_error + unit) option \<Rightarrow> thread_error + unit" where
  "task_wasm spawned reported =
     (case spawn_guest_thread spawned of
        Inl e \<Rightarrow> Inl e
      | Inr _ \<Rightarrow> (case reported of None \<Rightarrow> Inl InvalidWasmContext | Some r \<Rightarrow> r))"

definition task_dedicated :: "bool \<Rightarrow> thread_error + unit" where
  "task_dedicated spawned = spawn_guest_thread spawned"

definition thread_parallelism :: "io_error + nat \<Rightarrow> nat" where
  "thread_parallelism available =
     min (case available of Inl _ \<Rightarrow> 1 | Inr n \<Rightarrow> n) MAX_THREAD_PARALLELISM"

subsection \<open>Sleeps\<close>

record timer =
  tm_runtime :: runtime_id
  tm_deadline :: instant

record fork_aware_sleep =
  fs_deadline :: instant
  fs_generation :: "64 word"
  fs_timer :: "timer option"

definition sleep_now :: "instant \<Rightarrow> duration \<Rightarrow> task_manager \<Rightarrow> fork_aware_sleep" where
  "sleep_now now time tk =
     \<lparr>fs_deadline = now + time, fs_generation = tk_generation tk, fs_timer = None\<rparr>"

text \<open>The process's timer source is set once; the hook panics (\<open>None\<close>) when it is not.\<close>

definition install_as_sleep_source :: "'a \<Rightarrow> 'a option \<Rightarrow> 'a option" where
  "install_as_sleep_source tk source = (case source of None \<Rightarrow> Some tk | Some _ \<Rightarrow> source)"

definition sleep_hook :: "instant \<Rightarrow> duration \<Rightarrow> task_manager option \<Rightarrow> fork_aware_sleep option" where
  "sleep_hook now time source = map_option (sleep_now now time) source"

text \<open>
  What a poll of a sleep does to timers of tokio: leave an old one behind without touching it,
  arm one on a runtime, poll one.
\<close>

datatype timer_effect = ForgetTimer timer | ArmTimer timer | PollTimer timer

definition arm_timer :: "task_manager \<Rightarrow> fork_aware_sleep \<Rightarrow> timer" where
  "arm_timer tk sl = \<lparr>tm_runtime = tk_handle tk, tm_deadline = fs_deadline sl\<rparr>"

definition poll_sleep ::
  "(timer \<Rightarrow> instant \<Rightarrow> bool) \<Rightarrow> task_manager \<Rightarrow> instant \<Rightarrow> fork_aware_sleep
     \<Rightarrow> bool \<times> fork_aware_sleep \<times> timer_effect list" where
  "poll_sleep fires tk now sl =
     (if fs_timer sl = None \<or> fs_generation sl \<noteq> tk_generation tk
      then (let timer = arm_timer tk sl in
            (fires timer now, sl\<lparr>fs_generation := tk_generation tk, fs_timer := Some timer\<rparr>,
             (case fs_timer sl of None \<Rightarrow> [] | Some old \<Rightarrow> [ForgetTimer old]) @ [ArmTimer timer, PollTimer timer]))
      else (let timer = the (fs_timer sl) in (fires timer now, sl, [PollTimer timer])))"

fun touched :: "timer_effect \<Rightarrow> runtime_id list" where
  "touched (ForgetTimer t) = []"
| "touched (ArmTimer t) = [tm_runtime t]"
| "touched (PollTimer t) = [tm_runtime t]"

text \<open>
  What tokio documents of a sleep on a runtime that is running: it is not done before its
  deadline, and it is done a millisecond, its granularity, after it. Nothing is said of a
  timer of another runtime.
\<close>

definition tokio_sleep :: "runtime_id \<Rightarrow> (timer \<Rightarrow> instant \<Rightarrow> bool) \<Rightarrow> bool" where
  "tokio_sleep live fires =
     (\<forall>t now. tm_runtime t = live \<longrightarrow>
        (fires t now \<longrightarrow> tm_deadline t \<le> now) \<and> (tm_deadline t + SECOND div 1000 \<le> now \<longrightarrow> fires t now))"

subsection \<open>A line of processes\<close>

text \<open>
  How far a freeze has come: the count has been read, the gate is closed and every guest
  thread suspended, the worker of the runtime has ended. Guest threads run before they are
  drained, host tasks until the worker ends.
\<close>

datatype freeze_stage = Thawed | CountRead | GuestDrained | WorkerEnded

record guest_process =
  gp_tasks :: task_manager
  gp_runtimes :: "runtime_id list"
  gp_sleeps :: "nat \<Rightarrow> fork_aware_sleep option"
  gp_asked :: "nat \<Rightarrow> instant"
  gp_pending :: "nat list"
  gp_panicked :: nat
  gp_lost :: "nat list"
  gp_spawned :: nat
  gp_stage :: freeze_stage
  gp_late :: bool
  gp_forks :: nat

definition new_guest_process :: "runtime_id \<Rightarrow> guest_process" where
  "new_guest_process r =
     \<lparr>gp_tasks = new_task_manager r, gp_runtimes = [r], gp_sleeps = (\<lambda>_. None), gp_asked = (\<lambda>_. 0),
      gp_pending = [], gp_panicked = 0, gp_lost = [], gp_spawned = 0, gp_stage = Thawed, gp_late = False,
      gp_forks = 0\<rparr>"

datatype task_event =
    AskSleep nat instant duration
  | PollSleep nat instant
  | SpawnShared nat
  | FinishShared nat
  | PanicShared nat
  | ReadCount
  | DrainGuest
  | EndWorker
  | ForkOff runtime_id

definition guests_run :: "guest_process \<Rightarrow> bool" where
  "guests_run p = (gp_stage p = Thawed \<or> gp_stage p = CountRead)"

text \<open>
  A fork leaves what was pending on the template's runtime behind. A future that panics ends
  without the statement that lowers the count.
\<close>

fun task_step :: "(timer \<Rightarrow> instant \<Rightarrow> bool) \<Rightarrow> task_event \<Rightarrow> guest_process \<Rightarrow> guest_process option" where
  "task_step fires (AskSleep k now time) p =
     (if guests_run p \<and> gp_sleeps p k = None
      then Some (p\<lparr>gp_sleeps := (gp_sleeps p)(k \<mapsto> sleep_now now time (gp_tasks p)),
                   gp_asked := (gp_asked p)(k := now + time)\<rparr>)
      else None)"
| "task_step fires (PollSleep k now) p =
     (case gp_sleeps p k of
        None \<Rightarrow> None
      | Some sl \<Rightarrow>
          if guests_run p
          then (case poll_sleep fires (gp_tasks p) now sl of
                  (ready, sl', _) \<Rightarrow> Some (p\<lparr>gp_sleeps := (gp_sleeps p)(k := if ready then None else Some sl')\<rparr>))
          else None)"
| "task_step fires (SpawnShared i) p =
     (if guests_run p \<and> i \<notin> set (gp_pending p)
      then Some (p\<lparr>gp_tasks := task_shared (gp_tasks p), gp_pending := i # gp_pending p,
                   gp_spawned := Suc (gp_spawned p), gp_late := gp_late p \<or> gp_stage p = CountRead\<rparr>)
      else None)"
| "task_step fires (FinishShared i) p =
     (if gp_stage p \<noteq> WorkerEnded \<and> i \<in> set (gp_pending p)
      then Some (p\<lparr>gp_tasks := task_finished (gp_tasks p), gp_pending := remove1 i (gp_pending p)\<rparr>)
      else None)"
| "task_step fires (PanicShared i) p =
     (if gp_stage p \<noteq> WorkerEnded \<and> i \<in> set (gp_pending p)
      then Some (p\<lparr>gp_panicked := Suc (gp_panicked p), gp_pending := remove1 i (gp_pending p)\<rparr>)
      else None)"
| "task_step fires ReadCount p =
     (if gp_stage p = Thawed \<and> shared_tasks_in_flight (gp_tasks p) = 0
      then Some (p\<lparr>gp_stage := CountRead, gp_late := False\<rparr>)
      else None)"
| "task_step fires DrainGuest p =
     (if gp_stage p = CountRead then Some (p\<lparr>gp_stage := GuestDrained\<rparr>) else None)"
| "task_step fires EndWorker p =
     (if gp_stage p = GuestDrained then Some (p\<lparr>gp_stage := WorkerEnded\<rparr>) else None)"
| "task_step fires (ForkOff r) p =
     (if gp_stage p = WorkerEnded \<and> r \<notin> set (gp_runtimes p)
      then Some (p\<lparr>gp_tasks := replace_runtime r (gp_tasks p), gp_runtimes := r # gp_runtimes p,
                   gp_lost := gp_lost p @ gp_pending p, gp_pending := [], gp_stage := Thawed,
                   gp_forks := Suc (gp_forks p)\<rparr>)
      else None)"

inductive processes :: "(timer \<Rightarrow> instant \<Rightarrow> bool) \<Rightarrow> guest_process \<Rightarrow> bool" for fires where
  begins: "processes fires (new_guest_process r)"
| steps: "processes fires p \<Longrightarrow> task_step fires ev p = Some p' \<Longrightarrow> processes fires p'"

abbreviation task_run :: "(timer \<Rightarrow> instant \<Rightarrow> bool) \<Rightarrow> task_event list \<Rightarrow> guest_process \<Rightarrow> guest_process option" where
  "task_run fires \<equiv> run_steps (task_step fires)"

interpretation line: machine "\<lambda>p. \<exists>r. p = new_guest_process r" "task_step fires" "\<lambda>_ _. True" "processes fires" for fires
proof
  fix P :: "guest_process \<Rightarrow> bool" and p
  assume "processes fires p" and P: "\<And>p. \<exists>r. p = new_guest_process r \<Longrightarrow> P p"
    "\<And>p ev p'. processes fires p \<Longrightarrow> P p \<Longrightarrow> True \<Longrightarrow> task_step fires ev p = Some p' \<Longrightarrow> P p'"
  then show "P p" by (induction rule: processes.induct) blast+
qed (auto intro: processes.intros)

subsection \<open>Invariants\<close>

text \<open>
  A sleep keeps the deadline it was asked for. Its timer was armed in some generation of this
  line; if that is the present one, it belongs to the present runtime.
\<close>

definition sleep_ok :: "task_manager \<Rightarrow> nat \<Rightarrow> instant \<Rightarrow> fork_aware_sleep \<Rightarrow> bool" where
  "sleep_ok tk forks asked sl =
     (fs_deadline sl = asked
      \<and> (\<forall>t. fs_timer sl = Some t \<longrightarrow> tm_deadline t = asked
           \<and> (\<exists>g \<le> forks. fs_generation sl = of_nat g \<and> (g = forks \<longrightarrow> tm_runtime t = tk_handle tk))))"

definition sleeps_inv :: "guest_process \<Rightarrow> bool" where
  "sleeps_inv p =
     (tk_generation (gp_tasks p) = of_nat (gp_forks p)
      \<and> (\<forall>k sl. gp_sleeps p k = Some sl \<longrightarrow> sleep_ok (gp_tasks p) (gp_forks p) (gp_asked p k) sl))"

definition unfinished :: "guest_process \<Rightarrow> nat" where
  "unfinished p = length (gp_pending p) + gp_panicked p + length (gp_lost p)"

definition count_inv :: "guest_process \<Rightarrow> bool" where
  "count_inv p =
     (tk_in_flight (gp_tasks p) = of_nat (unfinished p) \<and> unfinished p \<le> gp_spawned p \<and> distinct (gp_pending p)
      \<and> (gp_spawned p < 2 ^ 64 \<longrightarrow> gp_stage p \<noteq> Thawed \<longrightarrow> \<not> gp_late p \<longrightarrow> gp_pending p = []))"

lemma poll_sleep_ok:
  assumes "sleep_ok tk forks asked sl" "tk_generation tk = of_nat forks"
    and "poll_sleep fires tk now sl = (ready, sl', effects)"
  shows "sleep_ok tk forks asked sl'"
  using assms
  by (auto simp: poll_sleep_def sleep_ok_def arm_timer_def Let_def intro!: exI [of _ forks] split: if_splits)

lemma sleep_ok_fork:
  "sleep_ok tk forks asked sl \<Longrightarrow> sleep_ok (replace_runtime r tk) (Suc forks) asked sl"
  unfolding sleep_ok_def by (metis Suc_n_not_le_n le_SucI)

lemma sleep_ok_handle:
  "tk_handle tk' = tk_handle tk \<Longrightarrow> sleep_ok tk' forks asked sl = sleep_ok tk forks asked sl"
  by (simp add: sleep_ok_def)

lemma task_fields [simp]:
  "tk_handle (task_shared tk) = tk_handle tk" "tk_generation (task_shared tk) = tk_generation tk"
  "tk_handle (task_finished tk) = tk_handle tk" "tk_generation (task_finished tk) = tk_generation tk"
  "tk_in_flight (task_shared tk) = tk_in_flight tk + 1" "tk_in_flight (task_finished tk) = tk_in_flight tk - 1"
  "tk_generation (replace_runtime r tk) = tk_generation tk + 1" "tk_handle (replace_runtime r tk) = r"
  "tk_in_flight (replace_runtime r tk) = tk_in_flight tk"
  by (simp_all add: task_shared_def task_finished_def replace_runtime_def)

lemma task_step_sleeps:
  assumes "task_step fires ev p = Some p'" "sleeps_inv p"
  shows "sleeps_inv p'"
proof (cases ev)
  case (PollSleep k now)
  with assms obtain sl ready sl' effects where
    poll: "gp_sleeps p k = Some sl" "poll_sleep fires (gp_tasks p) now sl = (ready, sl', effects)"
      "p' = p\<lparr>gp_sleeps := (gp_sleeps p)(k := if ready then None else Some sl')\<rparr>"
    by (auto split: option.splits if_splits prod.splits)
  with assms(2) poll_sleep_ok [of "gp_tasks p" "gp_forks p" "gp_asked p k" sl] show ?thesis
    by (auto simp: sleeps_inv_def)
next
  case (ForkOff r)
  with assms show ?thesis by (auto simp: sleeps_inv_def sleep_ok_fork split: if_splits)
qed (use assms in \<open>auto simp: sleeps_inv_def sleep_ok_handle sleep_now_def sleep_ok_def split: if_splits\<close>)

lemma length_remove1_Suc: "x \<in> set xs \<Longrightarrow> length xs = Suc (length (remove1 x xs))"
  by (metis One_nat_def Suc_pred length_pos_if_in_set length_remove1)

lemma task_step_counts:
  assumes "task_step fires ev p = Some p'" "count_inv p"
  shows "count_inv p'"
proof (cases ev)
  case (PollSleep k now)
  with assms show ?thesis by (auto simp: count_inv_def unfinished_def split: option.splits if_splits prod.splits)
next
  case (FinishShared i)
  with assms have "i \<in> set (gp_pending p)" by (auto split: if_splits)
  then have "length (gp_pending p) = Suc (length (remove1 i (gp_pending p)))"
    by (rule length_remove1_Suc)
  with assms FinishShared show ?thesis by (auto simp: count_inv_def unfinished_def split: if_splits)
next
  case (PanicShared i)
  with assms have "i \<in> set (gp_pending p)" by (auto split: if_splits)
  then have "length (gp_pending p) = Suc (length (remove1 i (gp_pending p)))"
    by (rule length_remove1_Suc)
  with assms PanicShared show ?thesis by (auto simp: count_inv_def unfinished_def split: if_splits)
next
  case ReadCount
  with assms have "unfinished p < 2 ^ 64 \<Longrightarrow> unfinished p = 0"
    by (auto simp: count_inv_def shared_tasks_in_flight_def unat_of_nat split: if_splits)
  with assms ReadCount show ?thesis by (auto simp: count_inv_def unfinished_def split: if_splits)
qed (use assms in \<open>auto simp: count_inv_def unfinished_def guests_run_def split: if_splits\<close>)

lemma new_process_inv: "sleeps_inv (new_guest_process r)" "count_inv (new_guest_process r)"
  by (simp_all add: sleeps_inv_def count_inv_def unfinished_def new_guest_process_def new_task_manager_def)

lemma processes_inv: "processes fires p \<Longrightarrow> sleeps_inv p \<and> count_inv p"
  by (rule line.invariant [where Q = "\<lambda>p. sleeps_inv p \<and> count_inv p"])
    (auto simp: new_process_inv simp del: task_step.simps dest: task_step_sleeps task_step_counts)

lemma processes_run: "processes fires p \<Longrightarrow> task_run fires evs p = Some p' \<Longrightarrow> processes fires p'"
  by (rule line.reach_run) auto

text \<open>
  The count is read before the gate closes and not again. A guest thread that spawns a shared
  task in between leaves it on the runtime a fork abandons.
\<close>

lemma late_task_is_lost:
  "\<exists>p. task_run fires [ReadCount, SpawnShared 1, DrainGuest, EndWorker, ForkOff 2] (new_guest_process 1) = Some p
     \<and> gp_lost p = [1] \<and> gp_stage p = Thawed"
  by (simp add: new_guest_process_def new_task_manager_def shared_tasks_in_flight_def guests_run_def)

text \<open>A shared task that panicked counts as in flight ever after: no freeze gets past the count.\<close>

lemma panic_blocks_freeze:
  "\<exists>p. task_run fires [SpawnShared 1, PanicShared 1] (new_guest_process 1) = Some p
     \<and> gp_pending p = [] \<and> task_step fires ReadCount p = None"
  by (simp add: new_guest_process_def new_task_manager_def shared_tasks_in_flight_def guests_run_def task_shared_def)

text \<open>The generation the host counts is the one the task manager counts.\<close>

lemma rebuild_replaces_runtime:
  assumes "rebuild env rb listener h = (Inr u, h')" "tk_generation tk = of_nat (h_generation h)"
  shows "tk_generation (replace_runtime r tk) = of_nat (h_generation h')"
  by (rule rebuild_ok [OF assms(1)]) (simp add: assms(2))

lemma parallelism_bounds:
  "available \<noteq> Inr 0 \<Longrightarrow> 1 \<le> thread_parallelism available \<and> thread_parallelism available \<le> 4"
  by (auto simp: thread_parallelism_def MAX_THREAD_PARALLELISM_def split: sum.splits)

subsection \<open>Properties\<close>


definition demo_fires :: "timer \<Rightarrow> instant \<Rightarrow> bool" where
  "demo_fires t now = (tm_deadline t \<le> now)"

definition demo_line :: guest_process where
  "demo_line = the (task_run demo_fires
     [AskSleep 0 10 20, PollSleep 0 15, ReadCount, DrainGuest, EndWorker, ForkOff 2] (new_guest_process 1))"

lemma demo_line_run:
  "task_run demo_fires [AskSleep 0 10 20, PollSleep 0 15, ReadCount, DrainGuest, EndWorker, ForkOff 2]
     (new_guest_process 1) = Some demo_line"
  by (simp add: demo_line_def new_guest_process_def new_task_manager_def shared_tasks_in_flight_def guests_run_def
      sleep_now_def poll_sleep_def arm_timer_def demo_fires_def Let_def)

lemma demo_line_facts:
  "gp_sleeps demo_line 0 = Some \<lparr>fs_deadline = 30, fs_generation = 0, fs_timer = Some \<lparr>tm_runtime = 1, tm_deadline = 30\<rparr>\<rparr>"
  "tk_handle (gp_tasks demo_line) = 2" "tk_generation (gp_tasks demo_line) = 1" "gp_forks demo_line = 1"
  "gp_asked demo_line 0 = 30"
  by (simp_all add: demo_line_def new_guest_process_def new_task_manager_def shared_tasks_in_flight_def guests_run_def
      sleep_now_def poll_sleep_def arm_timer_def demo_fires_def Let_def)


text \<open>
  C30: a fork loses no shared task unless one was spawned behind the freeze's back. The count
  of the task manager is the number of shared tasks that have not run to their end; a freeze
  that read zero, with no task spawned between that reading and the guest's last step, ends
  with nothing pending, and a child forked then has lost nothing more than its template.
\<close>

theorem freeze_strands_only_late_tasks:
  assumes "processes fires p" "gp_spawned p < 2 ^ 64"
  shows "shared_tasks_in_flight (gp_tasks p) = length (gp_pending p) + gp_panicked p + length (gp_lost p)
    \<and> (gp_stage p = WorkerEnded \<and> \<not> gp_late p \<longrightarrow>
         gp_pending p = [] \<and> (\<forall>r p'. task_step fires (ForkOff r) p = Some p' \<longrightarrow> gp_lost p' = gp_lost p))"
proof -
  have inv: "count_inv p" using processes_inv [OF assms(1)] by simp
  then have "shared_tasks_in_flight (gp_tasks p) = unfinished p"
    using assms(2) by (simp add: count_inv_def shared_tasks_in_flight_def unat_of_nat)
  with inv assms(2) show ?thesis by (auto simp: count_inv_def unfinished_def split: if_splits)
qed

definition demo_quiet :: guest_process where
  "demo_quiet = the (task_run demo_fires [SpawnShared 4, FinishShared 4, ReadCount, DrainGuest, EndWorker]
     (new_guest_process 1))"

lemma demo_quiet_run:
  "task_run demo_fires [SpawnShared 4, FinishShared 4, ReadCount, DrainGuest, EndWorker] (new_guest_process 1)
     = Some demo_quiet"
  by (simp add: demo_quiet_def new_guest_process_def new_task_manager_def shared_tasks_in_flight_def guests_run_def
      task_shared_def task_finished_def)

theorem freeze_strands_only_late_tasks_witness:
  "gp_stage demo_quiet = WorkerEnded \<and> gp_spawned demo_quiet = 1 \<and> shared_tasks_in_flight (gp_tasks demo_quiet) = 0
   \<and> gp_pending demo_quiet = []"
proof -
  have facts: "gp_spawned demo_quiet = 1" "gp_stage demo_quiet = WorkerEnded" "\<not> gp_late demo_quiet"
    "gp_panicked demo_quiet = 0" "gp_lost demo_quiet = []"
    by (simp_all add: demo_quiet_def new_guest_process_def new_task_manager_def shared_tasks_in_flight_def
        guests_run_def task_shared_def task_finished_def)
  with freeze_strands_only_late_tasks [OF processes_run [OF processes.begins demo_quiet_run]]
  show ?thesis by simp
qed

end
