(* ===== verification/HostRun.thy ===== *)
theory HostRun
  imports HostLoop Guest Tasks
begin

text \<open>
  A host process from its arguments on (\<open>src/crates/servicecache/src/host/mod.rs\<close>): \<open>run\<close> and
  \<open>Host::new\<close> with every step that can fail, the control loop behind them, and the event pipe
  that wakes it.
\<close>

subsection \<open>Constants\<close>

definition WASM_STACK_SIZE :: nat where
  "WASM_STACK_SIZE = 16 * 2 ^ 20"

definition TICK :: duration where
  "TICK = SECOND div 10"

definition COMPACTION_SLICE :: duration where
  "COMPACTION_SLICE = SECOND div 1000"

definition COMPACTION_PAUSE :: duration where
  "COMPACTION_PAUSE = 50 * (SECOND div 1000)"

text \<open>How long the loop waits before it looks around.\<close>

definition loop_timeout :: "host \<Rightarrow> duration" where
  "loop_timeout h = (if h_compaction h then COMPACTION_PAUSE else TICK)"

subsection \<open>The event pipe\<close>

fun event_byte :: "event \<Rightarrow> byte" where
  "event_byte Listening = 1"
| "event_byte RunEnded = 2"
| "event_byte Probed = 3"

text \<open>
  \<open>EventPipe::notifier\<close> writes without blocking; the kernel takes the byte unless the pipe,
  of \<open>capacity\<close> bytes, is full.
\<close>

definition notifier :: "nat \<Rightarrow> event \<Rightarrow> byte list \<Rightarrow> byte list" where
  "notifier capacity e pipe = (if length pipe < capacity then pipe @ [event_byte e] else pipe)"

text \<open>\<open>watch_run\<close>: the task that awaits a run announces its end.\<close>

definition watch_run :: "nat \<Rightarrow> task_status \<Rightarrow> byte list \<Rightarrow> byte list" where
  "watch_run capacity status pipe =
     (if exit_status status = None then pipe else notifier capacity RunEnded pipe)"

subsection \<open>Coming up\<close>

record host_args =
  ha_manifest :: path
  ha_control_fd :: fd
  ha_cache_dir :: path

datatype host_run_error =
    NoDeathSignal string
  | HostManifest manifest_error
  | NoChildSignal string
  | NoHostRuntime string
  | NoEventPipe string
  | NoGuestRuntime runtime_error

text \<open>What the calls of \<open>run\<close> and \<open>Host::new\<close> answer, in their order.\<close>

record ('m, 'fs) host_answers =
  hn_pdeathsig :: "string option"
  hn_blocked :: "string option"
  hn_signalfd :: "string option"
  hn_tokio :: "string + runtime_id"
  hn_pipe :: "string option"
  hn_compiler :: "'m compiler"
  hn_mount :: "read_only_mount list \<Rightarrow> runtime_error + 'fs"
  hn_pid :: nat
  hn_sends :: "nat option"

definition die_with_parent :: "('m, 'fs) host_answers \<Rightarrow> host_run_error + unit" where
  "die_with_parent a = (case hn_pdeathsig a of Some e \<Rightarrow> Inl (NoDeathSignal e) | None \<Rightarrow> Inr ())"

definition child_signal :: "('m, 'fs) host_answers \<Rightarrow> host_run_error + unit" where
  "child_signal a =
     (case hn_blocked a of
        Some e \<Rightarrow> Inl (NoChildSignal e)
      | None \<Rightarrow> (case hn_signalfd a of Some e \<Rightarrow> Inl (NoChildSignal e) | None \<Rightarrow> Inr ()))"

text \<open>The process-wide switch to suspendable coroutines.\<close>

record suspension =
  su_stack_size :: nat
  su_suspends :: bool
  su_sleeps_by_hook :: bool

definition enable_suspension :: "suspension \<Rightarrow> suspension" where
  "enable_suspension su = su\<lparr>su_stack_size := WASM_STACK_SIZE, su_suspends := True, su_sleeps_by_hook := True\<rparr>"

text \<open>A host with what \<open>host\<close> does not hold of it: the task manager, the guests' runtime, the timer source.\<close>

record ('m, 'fs) host_parts =
  hq_host :: host
  hq_tasks :: task_manager
  hq_guests :: "('m, 'fs) guest_runtime"
  hq_sleep_source :: "task_manager option"

definition host_new ::
  "('m, 'fs) host_answers \<Rightarrow> manifest \<Rightarrow> path \<Rightarrow> task_manager option \<Rightarrow> host_run_error + ('m, 'fs) host_parts" where
  "host_new a m cache source =
     and_then (child_signal a) (\<lambda>_.
     case hn_tokio a of
       Inl e \<Rightarrow> Inl (NoHostRuntime e)
     | Inr runtime \<Rightarrow>
         (let tasks = new_task_manager runtime; source' = install_as_sleep_source tasks source in
          case hn_pipe a of
            Some e \<Rightarrow> Inl (NoEventPipe e)
          | None \<Rightarrow>
              (case new_guest_runtime (hn_compiler a) (hn_mount a) (manifest_mounts m) cache (sv_extensions (mf_service m)) of
                 Inl e \<Rightarrow> Inl (NoGuestRuntime e)
               | Inr guests \<Rightarrow>
                   Inr \<lparr>hq_host = new_host m (hn_pid a) (hn_sends a), hq_tasks = tasks, hq_guests = guests,
                        hq_sleep_source = source'\<rparr>)))"

text \<open>\<open>run\<close> up to the control loop, and with it; \<open>obs\<close> is what the process observes.\<close>

definition host_up ::
  "(string \<Rightarrow> raw_manifest option) \<Rightarrow> (string \<Rightarrow> (byte list \<Rightarrow> bool) option) \<Rightarrow> fs_view
     \<Rightarrow> ('m, 'fs) host_answers \<Rightarrow> host_args \<Rightarrow> host_run_error + ('m, 'fs) host_parts" where
  "host_up toml regex_new fs a args =
     and_then (die_with_parent a) (\<lambda>_.
     case load toml regex_new fs (ha_manifest args) of
       Inl e \<Rightarrow> Inl (HostManifest e)
     | Inr m \<Rightarrow> host_new a m (ha_cache_dir args) None)"

definition host_run ::
  "(string \<Rightarrow> raw_manifest option) \<Rightarrow> (string \<Rightarrow> (byte list \<Rightarrow> bool) option) \<Rightarrow> host_env
     \<Rightarrow> ('m, 'fs) host_answers \<Rightarrow> host_args \<Rightarrow> observation list \<Rightarrow> host_run_error + ((stop + unit) \<times> host)" where
  "host_run toml regex_new env a args obs =
     and_then (host_up toml regex_new (he_fs env) a args)
       (\<lambda>parts. Inr (serve env (ha_control_fd args) obs (hq_host parts)))"

subsection \<open>Lemmas\<close>

lemma event_byte_roundtrip [simp]: "event_of_byte (event_byte e) = Inr e"
  by (cases e) (simp_all add: event_of_byte_def)

text \<open>An event that was announced is among those the loop finds, with the ones there were.\<close>

lemma note_events_good:
  "set bs \<subseteq> range event_byte \<Longrightarrow> note_events bs ev
     = Inr \<lparr>ev_listening = (ev_listening ev \<or> event_byte Listening \<in> set bs),
            ev_run_ended = (ev_run_ended ev \<or> event_byte RunEnded \<in> set bs),
            ev_probed = (ev_probed ev \<or> event_byte Probed \<in> set bs)\<rparr>"
proof (induction bs arbitrary: ev)
  case (Cons b bs)
  then obtain e where "b = event_byte e" by auto
  with Cons show ?case by (cases e) (auto simp: event_of_byte_def)
qed simp

lemma drain_pipe_good:
  "set pipe \<subseteq> range event_byte \<Longrightarrow> drain_pipe pipe ev
     = ([], Inr \<lparr>ev_listening = (ev_listening ev \<or> event_byte Listening \<in> set pipe),
            ev_run_ended = (ev_run_ended ev \<or> event_byte RunEnded \<in> set pipe),
            ev_probed = (ev_probed ev \<or> event_byte Probed \<in> set pipe)\<rparr>)"
proof (induction pipe ev rule: drain_pipe.induct)
  case (1 pipe ev)
  have halves: "b \<in> set pipe \<longleftrightarrow> b \<in> set (take 64 pipe) \<or> b \<in> set (drop 64 pipe)" for b
    using set_append [of "take 64 pipe" "drop 64 pipe"] by (simp del: set_append)
  have good: "set (take 64 pipe) \<subseteq> range event_byte" "set (drop 64 pipe) \<subseteq> range event_byte"
    using 1(2) halves by blast+
  show ?case
    using 1(1) [OF _ note_events_good [OF good(1)] good(2)]
    by (subst drain_pipe.simps) (auto simp: note_events_good [OF good(1)] halves)
qed

fun announced :: "event \<Rightarrow> events \<Rightarrow> bool" where
  "announced Listening ev = ev_listening ev"
| "announced RunEnded ev = ev_run_ended ev"
| "announced Probed ev = ev_probed ev"

lemma notified_is_drained:
  assumes "set pipe \<subseteq> range event_byte" "length pipe < capacity"
  shows "\<exists>ev. drain_pipe (notifier capacity e pipe) ev0 = ([], Inr ev) \<and> announced e ev"
proof -
  have "set (pipe @ [event_byte e]) \<subseteq> range event_byte" using assms(1) by simp
  from drain_pipe_good [OF this, of ev0] assms(2) show ?thesis
    by (cases e) (simp_all add: notifier_def)
qed

lemma host_up_Inr:
  assumes "host_up toml regex_new fs a args = Inr parts"
  obtains m where "load toml regex_new fs (ha_manifest args) = Inr m"
    "hq_host parts = new_host m (hn_pid a) (hn_sends a)" "hq_sleep_source parts = Some (hq_tasks parts)"
    "gt_cache (hq_guests parts) = ha_cache_dir args" "set (gt_extensions (hq_guests parts)) = set (sv_extensions (mf_service m))"
  using assms
  by (auto simp: host_up_def host_new_def new_guest_runtime_def install_as_sleep_source_def Let_def result_simps
      and_then_def split: sum.splits option.splits)

text \<open>The timers of a host that came up have their source: the hook does not panic.\<close>

lemma host_sleeps:
  "host_up toml regex_new fs a args = Inr parts
     \<Longrightarrow> sleep_hook now time (hq_sleep_source parts) = Some (sleep_now now time (hq_tasks parts))"
  by (erule host_up_Inr) (simp add: sleep_hook_def)

end
