(* ===== verification/Commands.thy ===== *)
theory Commands
  imports Cli Logging Servers HostRun
begin

text \<open>
  The program (\<open>src/crates/servicecache/src/cli.rs\<close>): its arguments as clap gives them, and
  \<open>run_with\<close>, which settles the log, the directories and the socket from the flags and the
  environment and hands over to a command. The commands are in the theories Cli, Servers and
  HostRun. What a manager passes to the hosts it spawns is read back here.
\<close>

subsection \<open>Arguments\<close>

datatype services_command = ServicesList | ServicesCheck

datatype cache_command = CacheClean

datatype command =
    CmdServe "path list" "nat option"
  | CmdRequest string "string option"
  | CmdRun string "string option" "nat option"
  | CmdServices services_command
  | CmdCache cache_command
  | CmdHost path nat "string option"

record cli =
  cm_services_dir :: "path list"
  cm_cache_dir :: "path option"
  cm_socket :: "path option"
  cm_verbose :: nat
  cm_log :: "string option"
  cm_command :: command

text \<open>The variables the program reads, and what the system says of the user.\<close>

record environment =
  ev_services_dir :: "string option"
  ev_cache_dir :: "string option"
  ev_socket :: "string option"
  ev_log :: "string option"
  ev_home :: "string option"
  ev_xdg_cache :: "string option"
  ev_runtime_dir :: "string option"
  ev_temp_dir :: path
  ev_uid :: nat

text \<open>What the files, the log filter and the calls before a command starts answer.\<close>

record 'f system =
  sy_read_dir :: read_dir
  sy_toml :: "string \<Rightarrow> raw_manifest option"
  sy_regex :: "string \<Rightarrow> (byte list \<Rightarrow> bool) option"
  sy_fs :: fs_view
  sy_filter :: "string \<Rightarrow> string + 'f"
  sy_client :: "path \<Rightarrow> string option"
  sy_stdin :: "io_error + byte list"
  sy_removed :: "path \<Rightarrow> io_error option"

datatype command_error =
    BadDirectives string string
  | NotDiscovered discover_error
  | CacheError cache_error
  | NoClient string
  | CommandError cli_error

datatype invocation =
    InvokeServe serve_options
  | InvokeRequest path string "byte list option"
  | InvokeRun manifest "byte list option" path "nat option"
  | PrintLines "string list"
  | InvokeCheck service_index path
  | InvokeHost host_args

subsection \<open>Dispatch\<close>

definition found_services :: "'f system \<Rightarrow> cli \<Rightarrow> environment \<Rightarrow> command_error + service_index" where
  "found_services sys cli env =
     map_sum NotDiscovered id
       (discover (sy_read_dir sys) (sy_toml sys) (sy_regex sys) (sy_fs sys)
          (service_dirs (cm_services_dir cli) (ev_services_dir env) (ev_home env)))"

definition cache_at :: "cli \<Rightarrow> environment \<Rightarrow> command_error + path" where
  "cache_at cli env = map_sum CacheError id (directory (cm_cache_dir cli) (ev_cache_dir env) (ev_xdg_cache env) (ev_home env))"

definition socket_at :: "cli \<Rightarrow> environment \<Rightarrow> path" where
  "socket_at cli env =
     socket_path (cm_socket cli) (ev_socket env) (ev_runtime_dir env) (ev_temp_dir env) (ev_uid env)"

definition recipe_at :: "'f system \<Rightarrow> string option \<Rightarrow> command_error + byte list option" where
  "recipe_at sys arg = map_sum CommandError id (transpose_map (read_recipe (fs_read (sy_fs sys)) (sy_stdin sys)) arg)"

text \<open>The command itself, with everything it needs settled in the order of the source.\<close>

definition dispatch :: "'f system \<Rightarrow> cli \<Rightarrow> environment \<Rightarrow> command_error + invocation" where
  "dispatch sys cli env =
     (case cm_command cli of
        CmdServe recipe_roots template_ttl \<Rightarrow>
          and_then (found_services sys cli env) (\<lambda>services.
          and_then (cache_at cli env) (\<lambda>cache.
          Inr (InvokeServe
            \<lparr>so_socket = socket_at cli env, so_services = services, so_cache_dir = cache,
             so_template_ttl = (case template_ttl of None \<Rightarrow> DEFAULT_TEMPLATE_TTL | Some n \<Rightarrow> int n * SECOND),
             so_recipe_roots = recipe_roots\<rparr>)))
      | CmdRequest service recipe \<Rightarrow>
          (case sy_client sys (socket_at cli env) of
             Some e \<Rightarrow> Inl (NoClient e)
           | None \<Rightarrow>
               and_then (recipe_at sys recipe) (\<lambda>bytes. Inr (InvokeRequest (socket_at cli env) service bytes)))
      | CmdRun service recipe clones \<Rightarrow>
          and_then (found_services sys cli env) (\<lambda>services.
          and_then (map_sum CommandError id (find_service services service)) (\<lambda>m.
          and_then (recipe_at sys recipe) (\<lambda>bytes.
          and_then (cache_at cli env) (\<lambda>cache. Inr (InvokeRun m bytes cache clones)))))
      | CmdServices command \<Rightarrow>
          and_then (found_services sys cli env) (\<lambda>services.
          case command of
            ServicesList \<Rightarrow> Inr (PrintLines (print_services services))
          | ServicesCheck \<Rightarrow> and_then (cache_at cli env) (\<lambda>cache. Inr (InvokeCheck services cache)))
      | CmdCache CacheClean \<Rightarrow>
          and_then (cache_at cli env) (\<lambda>dir.
          and_then (map_sum CacheError id (clean (sy_removed sys dir))) (\<lambda>there.
          Inr (PrintLines [(if there then ''removed '' else ''nothing to remove at '') @ show_path dir])))
      | CmdHost manifest control_fd padding \<Rightarrow>
          and_then (cache_at cli env) (\<lambda>cache.
          Inr (InvokeHost \<lparr>ha_manifest = manifest, ha_control_fd = control_fd, ha_cache_dir = cache\<rparr>)))"

definition is_serve :: "command \<Rightarrow> bool" where
  "is_serve c = (case c of CmdServe _ _ \<Rightarrow> True | _ \<Rightarrow> False)"

definition run_with ::
  "'f system \<Rightarrow> cli \<Rightarrow> environment \<Rightarrow> command_error + (invocation \<times> 'f log_state)" where
  "run_with sys cli env =
     (let verbose = serve_verbosity (is_serve (cm_command cli)) (cm_verbose cli) (cm_log cli \<noteq> None) (ev_log env \<noteq> None) in
      case init_logging (sy_filter sys) verbose (cm_log cli) (ev_log env) no_logging of
        (Inl (d, e), _) \<Rightarrow> Inl (BadDirectives d e)
      | (Inr _, log) \<Rightarrow> and_then (dispatch sys cli env) (\<lambda>invocation. Inr (invocation, log)))"

subsection \<open>What a manager passes to a host\<close>

text \<open>
  What is relied on of clap, for the arguments of \<open>spawn_with_binary\<close>: each long option takes
  the argument after it, or after its equals sign, as its value, and options may come after the
  subcommand. A value that starts with a dash would be taken for an option, and an empty path
  is no path.
\<close>

definition option_value :: "string \<Rightarrow> bool" where
  "option_value v = (v = [] \<or> hd v \<noteq> CHR ''-'')"

definition clap_host :: "(string list \<Rightarrow> string + cli) \<Rightarrow> bool" where
  "clap_host parse =
     (\<forall>manifest fd cache padding d.
        manifest \<noteq> [] \<and> option_value manifest \<and> cache \<noteq> [] \<and> option_value cache \<and> option_value d \<longrightarrow>
        parse [''host'', ''--manifest'', manifest, ''--control-fd'', show_nat fd, ''--cache-dir'', cache,
               ''--internal-name-buffer='' @ padding, ''--log'', d]
          = Inr \<lparr>cm_services_dir = [], cm_cache_dir = Some (components cache), cm_socket = None, cm_verbose = 0,
                 cm_log = Some d, cm_command = CmdHost (components manifest) fd (Some padding)\<rparr>)"

lemma spawn_args_options:
  "\<exists>padding. spawn_args manifest cache (Some d)
     = [''host'', ''--manifest'', manifest, ''--control-fd'', show_nat HOST_CONTROL_FD, ''--cache-dir'', cache,
        ''--internal-name-buffer='' @ padding, ''--log'', d]"
  by (simp add: spawn_args_def BUFFER_ARG_def BUFFER_FLAG_def Let_def)

definition manifest_path :: "manifest \<Rightarrow> path" where
  "manifest_path m = join_path (mf_directory m) [Normal ''service.toml'']"

lemma parent_join_name [simp]: "parent (join_path d [Normal n]) = Some d"
  by (simp add: parent_def join_path_def is_absolute_def)

text \<open>A package is loaded by the path a host is given for it.\<close>

lemma load_package_again:
  assumes "load_package toml regex_new fs p = Inr m"
  shows "load toml regex_new fs (manifest_path m) = Inr m" "\<exists>d. fs_canonicalize fs d = Inr (mf_directory m)"
proof -
  from assms obtain d c where c: "fs_canonicalize fs d = Inr c"
    "load toml regex_new fs (join_path c [Normal ''service.toml'']) = Inr m"
    by (auto simp: load_package_def split: option.splits sum.splits)
  from c(2) have "mf_directory m = c"
    by (auto simp: load_def dest: load_tables_directory split: sum.splits option.splits)
  with c show "load toml regex_new fs (manifest_path m) = Inr m" "\<exists>d. fs_canonicalize fs d = Inr (mf_directory m)"
    by (auto simp: manifest_path_def)
qed

lemma load_packages_from:
  "load_packages toml regex_new fs ps = Inr ms \<Longrightarrow> m \<in> set ms \<Longrightarrow> \<exists>p. load_package toml regex_new fs p = Inr m"
  by (induction ps arbitrary: ms) (auto simp: result_simps)

lemma packages_found_from:
  "packages_found read_dir toml regex_new fs dirs = Inr ms \<Longrightarrow> m \<in> set ms \<Longrightarrow> \<exists>p. load_package toml regex_new fs p = Inr m"
  by (induction dirs arbitrary: ms) (auto simp: result_simps dest: load_packages_from)

lemma discovered_from:
  assumes "discover read_dir toml regex_new fs dirs = Inr index" "find_service index service = Inr m"
  shows "\<exists>p. load_package toml regex_new fs p = Inr m"
proof -
  obtain ms where ms: "packages_found read_dir toml regex_new fs dirs = Inr ms" "index = fold add_package ms []"
    using assms(1) by (auto simp: discover_def discover_from_Inr)
  obtain name version where "select index name version = Inr m"
    using assms(2) by (auto simp: find_service_def split: sum.splits select_error.splits prod.splits)
  then have "m \<in> set (candidates index name version)"
    by (cases rule: select_cases [of index name version]) auto
  then obtain k p where p: "(k, p) \<in> set index" "m = dp_manifest p"
    by (auto simp: set_candidates iter_packages_def)
  then have "selected_for (filter (\<lambda>m. package_key m = k) ms) = Some p"
    using btree.entries_lookup [OF discovered_wf, of k p ms] lookup_discovered ms(2) by metis
  then have "m \<in> set (filter (\<lambda>m. package_key m = k) ms)"
    using p(2) by (auto simp: selected_for_def simp del: set_filter split: list.splits)
  then show ?thesis using packages_found_from [OF ms(1)] by simp
qed

lemma path_ok_name: "path_ok p \<Longrightarrow> name_ok (Normal n) \<Longrightarrow> path_ok (join_path p [Normal n])"
  by (auto simp: path_ok_def join_path_def is_absolute_def split: list.splits component.splits)

lemma cache_at_ok:
  assumes "pred_option path_ok (cm_cache_dir cli)" "cache_at cli env = Inr cache"
  shows "path_ok cache"
proof -
  have "name_ok (Normal ''servicecache'')" "name_ok (Normal ''.cache'')" by (simp_all add: name_ok_def)
  moreover have "join_path p [Normal a, Normal b] = join_path (join_path p [Normal a]) [Normal b]" for p a b
    by (simp add: join_path_def is_absolute_def)
  ultimately show ?thesis
    using assms
    by (auto simp: cache_at_def directory_def path_ok_components path_ok_name split: option.splits)
qed

lemma show_path_absolute:
  assumes "is_absolute p"
  shows "show_path p \<noteq> [] \<and> option_value (show_path p)"
proof -
  obtain q where "p = RootDir # q" using assms by (auto simp: is_absolute_def split: list.splits component.splits)
  then show ?thesis by (cases q) (auto simp: show_path_def option_value_def)
qed

lemma run_with_Inr:
  assumes "run_with sys cli env = Inr (invocation, log)"
  obtains d f where "dispatch sys cli env = Inr invocation" "sy_filter sys d = Inr f"
    "log = \<lparr>lg_directives = Some d, lg_filter = Some f\<rparr>"
  using assms
  by (auto simp: run_with_def init_logging_def no_logging_def set_once_def Let_def result_simps split: sum.splits)

lemma dispatch_run:
  assumes "dispatch sys cli env = Inr (InvokeRun m recipe cache clones)"
  obtains services service where "found_services sys cli env = Inr services" "find_service services service = Inr m"
    "cache_at cli env = Inr cache"
  using assms
  by (auto simp: dispatch_def result_simps and_then_def map_sum_def
      split: command.splits services_command.splits cache_command.splits option.splits sum.splits)

subsection \<open>Properties\<close>

text \<open>
  The flags replace the environment. With the directories, the cache, the socket and the
  log given on the command line, the program does the same in every environment: no variable
  changes which services it finds, where it looks for modules, which server it is or talks to,
  or what it logs.
\<close>

theorem flags_replace_environment:
  assumes "cm_services_dir cli \<noteq> []" "cm_cache_dir cli = Some cache" "cm_socket cli = Some socket"
    and "cm_log cli = Some d"
  shows "run_with sys cli env = run_with sys cli env'"
proof -
  have same: "found_services sys cli env = found_services sys cli env'" "cache_at cli env = cache_at cli env'"
    "socket_at cli env = socket_at cli env'"
    using assms by (simp_all add: found_services_def service_dirs_def cache_at_def directory_def socket_at_def socket_path_def)
  have "dispatch sys cli env = dispatch sys cli env'" unfolding dispatch_def same ..
  then show ?thesis using assms(4) by (simp add: run_with_def serve_verbosity_def init_logging_def chosen_directives_def split: sum.splits)
qed

text \<open>A system with the package of \<open>demo_listing\<close>, and two environments.\<close>

definition demo_system :: "string system" where
  "demo_system =
     \<lparr>sy_read_dir = demo_listing, sy_toml = (\<lambda>_. Some demo_raw), sy_regex = (\<lambda>_. Some (\<lambda>_. True)),
      sy_fs = demo_fs\<lparr>fs_canonicalize := (\<lambda>p. if path_ok p \<and> is_absolute p then Inr p else Inl NotFound)\<rparr>,
      sy_filter = Inr, sy_client = (\<lambda>_. None), sy_stdin = Inr [], sy_removed = (\<lambda>_. None)\<rparr>"

definition demo_run :: cli where
  "demo_run =
     \<lparr>cm_services_dir = [demo_directory], cm_cache_dir = Some [RootDir, Normal ''cache''],
      cm_socket = Some [RootDir, Normal ''sock''], cm_verbose = 0, cm_log = Some ''warn'',
      cm_command = CmdRun ''redis'' None None\<rparr>"

definition demo_bare :: environment where
  "demo_bare =
     \<lparr>ev_services_dir = None, ev_cache_dir = None, ev_socket = None, ev_log = None, ev_home = None, ev_xdg_cache = None,
      ev_runtime_dir = None, ev_temp_dir = [RootDir, Normal ''tmp''], ev_uid = 0\<rparr>"

theorem flags_replace_environment_witness:
  "run_with demo_system demo_run demo_bare
     = run_with demo_system demo_run (demo_bare\<lparr>ev_services_dir := Some ''/opt'', ev_log := Some ''trace'', ev_home := Some ''/root''\<rparr>)"
proof -
  have "cm_services_dir demo_run \<noteq> []" "cm_cache_dir demo_run = Some [RootDir, Normal ''cache'']"
    "cm_socket demo_run = Some [RootDir, Normal ''sock'']" "cm_log demo_run = Some ''warn''"
    by (simp_all add: demo_run_def)
  then show ?thesis by (rule flags_replace_environment)
qed

text \<open>
  C12: a host runs the service its manager selected. When \<open>run\<close> has found a service, the host it
  spawns parses its arguments, whatever its own environment, to the same cache directory and
  the same log directives, and the manifest it loads is the one that was selected.
\<close>

theorem spawned_host_runs_the_selected_service:
  assumes "clap_host parse" "\<forall>d c. fs_canonicalize (sy_fs sys) d = Inr c \<longrightarrow> path_ok c \<and> is_absolute c"
    and "run_with sys cli env = Inr (InvokeRun m recipe cache clones, log)" "lg_directives log = Some d"
    and "pred_option path_ok (cm_cache_dir cli)" "show_path cache \<noteq> []" "option_value (show_path cache)" "option_value d"
  shows "\<exists>host_cli args. parse (spawn_args (show_path (manifest_path m)) (show_path cache) (lg_directives log)) = Inr host_cli
    \<and> (\<forall>env'. run_with sys host_cli env' = Inr (InvokeHost args, log))
    \<and> ha_control_fd args = HOST_CONTROL_FD \<and> ha_cache_dir args = cache
    \<and> load (sy_toml sys) (sy_regex sys) (sy_fs sys) (ha_manifest args) = Inr m"
proof -
  obtain f where run: "dispatch sys cli env = Inr (InvokeRun m recipe cache clones)" "sy_filter sys d = Inr f"
    "log = \<lparr>lg_directives = Some d, lg_filter = Some f\<rparr>"
    using run_with_Inr [OF assms(3)] assms(4) by (metis log_state.select_convs(1) option.inject)
  obtain services service where found: "found_services sys cli env = Inr services" "find_service services service = Inr m"
    "cache_at cli env = Inr cache"
    by (rule dispatch_run [OF run(1)])
  obtain p where p: "load_package (sy_toml sys) (sy_regex sys) (sy_fs sys) p = Inr m"
    using discovered_from [of "sy_read_dir sys" "sy_toml sys" "sy_regex sys" "sy_fs sys" _ services service m] found(1,2)
    by (auto simp: found_services_def map_sum_def split: sum.splits)
  have dir: "path_ok (mf_directory m)" "is_absolute (mf_directory m)"
    using load_package_again(2) [OF p] assms(2) by blast+
  have man: "path_ok (manifest_path m)" "is_absolute (manifest_path m)"
    using dir path_ok_name [of "mf_directory m" "''service.toml''"]
    by (auto simp: manifest_path_def name_ok_def join_path_def is_absolute_def split: list.splits component.splits)
  let ?args = "\<lparr>ha_manifest = manifest_path m, ha_control_fd = HOST_CONTROL_FD, ha_cache_dir = cache\<rparr>"
  obtain padding where given: "spawn_args (show_path (manifest_path m)) (show_path cache) (Some d)
      = [''host'', ''--manifest'', show_path (manifest_path m), ''--control-fd'', show_nat HOST_CONTROL_FD, ''--cache-dir'',
         show_path cache, ''--internal-name-buffer='' @ padding, ''--log'', d]"
    using spawn_args_options by blast
  obtain host_cli where host: "parse (spawn_args (show_path (manifest_path m)) (show_path cache) (Some d)) = Inr host_cli"
    "cm_cache_dir host_cli = Some cache" "cm_log host_cli = Some d" "cm_verbose host_cli = 0"
    "\<exists>padding. cm_command host_cli = CmdHost (manifest_path m) HOST_CONTROL_FD padding"
    using assms(1) [unfolded clap_host_def, rule_format, of "show_path (manifest_path m)" "show_path cache" d HOST_CONTROL_FD padding]
      given assms(6-8) show_path_absolute [OF man(2)] components_show_path [OF man(1)]
      components_show_path [OF cache_at_ok [OF assms(5) found(3)]] by auto
  have "run_with sys host_cli env' = Inr (InvokeHost ?args, log)" for env'
    using host(2-5) run(2,3)
    by (auto simp: run_with_def dispatch_def cache_at_def directory_def is_serve_def serve_verbosity_def
        init_logging_def chosen_directives_def no_logging_def set_once_def)
  then show ?thesis using host(1) assms(4) load_package_again(1) [OF p] by (intro exI conjI) auto
qed

text \<open>A parser that has the law: it takes the values by their places.\<close>

fun demo_parse :: "string list \<Rightarrow> string + cli" where
  "demo_parse [_, _, manifest, _, fd, _, cache, buffer, _, d] =
     Inr \<lparr>cm_services_dir = [], cm_cache_dir = Some (components cache), cm_socket = None, cm_verbose = 0, cm_log = Some d,
          cm_command = CmdHost (components manifest) (the (parse_nat fd)) (Some (drop (length ''--internal-name-buffer='') buffer))\<rparr>"
| "demo_parse _ = Inl ''usage''"

theorem spawned_host_runs_the_selected_service_witness:
  "\<exists>m cache log host_cli args. run_with demo_system demo_run demo_bare = Inr (InvokeRun m None cache None, log)
     \<and> demo_parse (spawn_args (show_path (manifest_path m)) (show_path cache) (lg_directives log)) = Inr host_cli
     \<and> run_with demo_system host_cli demo_bare = Inr (InvokeHost args, log)
     \<and> load (sy_toml demo_system) (sy_regex demo_system) (sy_fs demo_system) (ha_manifest args) = Inr m"
proof -
  have clap: "clap_host demo_parse" by (simp add: clap_host_def)
  have canon: "\<forall>d c. fs_canonicalize (sy_fs demo_system) d = Inr c \<longrightarrow> path_ok c \<and> is_absolute c"
    by (simp add: demo_system_def)
  have "case run_with demo_system demo_run demo_bare of
      Inr (InvokeRun m None cache None, log) \<Rightarrow> cache = [RootDir, Normal ''cache''] \<and> lg_directives log = Some ''warn''
    | _ \<Rightarrow> False" by code_simp
  then obtain m log where run: "run_with demo_system demo_run demo_bare = Inr (InvokeRun m None [RootDir, Normal ''cache''] None, log)"
    "lg_directives log = Some ''warn''"
    by (auto split: sum.splits prod.splits invocation.splits option.splits)
  have "pred_option path_ok (cm_cache_dir demo_run)" "show_path [RootDir, Normal ''cache''] \<noteq> []"
    "option_value (show_path [RootDir, Normal ''cache''])" "option_value ''warn''"
    by (simp_all add: demo_run_def path_ok_def name_ok_def show_path_def option_value_def)
  from spawned_host_runs_the_selected_service [OF clap canon run this] run show ?thesis by blast
qed

end
