(* ===== verification/Fleet.thy ===== *)
theory Fleet
  imports Templates Owner
begin

text \<open>
  The templates of a server with their owner threads and the processes they fork
  (\<open>src/crates/servicecache/src/serve/templates.rs\<close>): the pool of \<open>Templates\<close> and one owner of
  \<open>Owner\<close> per template, sharing the \<open>alive\<close> flag and the command channel. A template's
  handles are in slots and in requests; commands wait in its channel; the clones it forked run
  until they exit, and the host reports them, or until the host itself ends, and the kernel
  kills them (each clone asks for a signal when its parent dies). A history is any
  interleaving of requests, owners and processes.
\<close>

subsection \<open>State\<close>

text \<open>
  \<open>fl_kids\<close> and \<open>fl_killed\<close> are the clones of a template, by their position among its forks:
  those that run, and those that were running when the template's host ended. \<open>fl_base\<close> is
  the clone, of which template, that a recipe's template runs in. The flags of
  the pool itself are not used: \<open>view\<close> reads the owners'.
\<close>

record fleet =
  fl_pool :: pool
  fl_owners :: "template_id \<Rightarrow> owner_round option"
  fl_queued :: "template_id \<Rightarrow> nat"
  fl_handles :: "task \<Rightarrow> (template_key \<times> template_id) list"
  fl_base :: "template_id \<Rightarrow> (template_id \<times> nat) option"
  fl_kids :: "template_id \<Rightarrow> nat list"
  fl_killed :: "template_id \<Rightarrow> nat list"

definition new_fleet :: fleet where
  "new_fleet =
     \<lparr>fl_pool = new_templates, fl_owners = (\<lambda>_. None), fl_queued = (\<lambda>_. 0), fl_handles = (\<lambda>_. []),
      fl_base = (\<lambda>_. None), fl_kids = (\<lambda>_. []), fl_killed = (\<lambda>_. [])\<rparr>"

fun round_owner :: "owner_round \<Rightarrow> owner" where
  "round_owner (Serve ow) = ow"
| "round_owner (Over e ow) = ow"

definition template_alive :: "fleet \<Rightarrow> template_id \<Rightarrow> bool" where
  "template_alive f tpl = (case fl_owners f tpl of None \<Rightarrow> False | Some r \<Rightarrow> ow_alive (round_owner r))"

definition view :: "fleet \<Rightarrow> pool" where
  "view f = (fl_pool f)\<lparr>pl_live := template_alive f\<rparr>"

text \<open>The slot a request has a reference to.\<close>

definition stage_slot :: "stage \<Rightarrow> slot_id option" where
  "stage_slot st =
     (case st of Outside \<Rightarrow> None | Waiting _ s \<Rightarrow> Some s | Holding _ s \<Rightarrow> Some s | Filling _ s \<Rightarrow> Some s)"

text \<open>Whether a sender of the template's command channel is left, in a request or in a slot.\<close>

definition connected :: "template_id \<Rightarrow> fleet \<Rightarrow> bool" where
  "connected tpl f =
     (list_ex (\<lambda>(_, s). pl_cells (fl_pool f) s = Some tpl) (pl_slots (fl_pool f))
      \<or> list_ex (\<lambda>t. tpl \<in> set (map snd (fl_handles f t))
                   \<or> (case stage_slot (pl_stage (fl_pool f) t) of
                        None \<Rightarrow> False | Some s \<Rightarrow> pl_cells (fl_pool f) s = Some tpl))
          (pl_tasks (fl_pool f)))"

subsection \<open>Requests\<close>

text \<open>\<open>obtain\<close> returns the base, or the recipe's template, dropping the base it was built on.\<close>

definition obtained ::
  "template_key \<Rightarrow> template_id \<Rightarrow> (template_key \<times> template_id) list \<Rightarrow> (template_key \<times> template_id) list" where
  "obtained k tpl hs = (k, tpl) # (if tk_recipe k = None then hs else tl hs)"

text \<open>A recipe's slot is asked for with the base of the same service at hand.\<close>

definition may_ask :: "template_key \<Rightarrow> (template_key \<times> template_id) list \<Rightarrow> bool" where
  "may_ask k hs =
     (tk_recipe k = None \<or> (case hs of [] \<Rightarrow> False | (k', _) # _ \<Rightarrow> k' = k\<lparr>tk_recipe := None\<rparr>))"

definition hit_handles :: "task \<Rightarrow> pool \<Rightarrow> (template_key \<times> template_id) list \<Rightarrow> (template_key \<times> template_id) list" where
  "hit_handles t p hs =
     (case pl_stage p t of
        Holding k s \<Rightarrow> (case alive_in s p of Some tpl \<Rightarrow> obtained k tpl hs | None \<Rightarrow> hs)
      | _ \<Rightarrow> hs)"

definition request_step :: "pool_action \<Rightarrow> fleet \<Rightarrow> fleet option" where
  "request_step a f =
     (case pool_step a (view f) of
        None \<Rightarrow> None
      | Some p \<Rightarrow>
          (let f' = f\<lparr>fl_pool := p\<rparr> in
           case a of
             Ask t k \<Rightarrow> if may_ask k (fl_handles f t) then Some f' else None
           | Hit t \<Rightarrow> Some (f'\<lparr>fl_handles := (fl_handles f)(t := hit_handles t (view f) (fl_handles f t))\<rparr>)
           | FillErr t \<Rightarrow> Some (f'\<lparr>fl_handles := (fl_handles f)(t := [])\<rparr>)
           | Cancel t \<Rightarrow> Some (f'\<lparr>fl_handles := (fl_handles f)(t := [])\<rparr>)
           | FillOk _ \<Rightarrow> None
           | Expire _ \<Rightarrow> None
           | _ \<Rightarrow> Some f'))"

text \<open>A fill that succeeds: the owner serves, the slot and the request hold the template.\<close>

definition enter :: "task \<Rightarrow> template_key \<Rightarrow> slot_id \<Rightarrow> host_process \<Rightarrow> instant \<Rightarrow> (template_id \<times> nat) option
    \<Rightarrow> fleet \<Rightarrow> fleet" where
  "enter t k s hp now base f =
     (let tpl = pl_next_template (fl_pool f) in
      f\<lparr>fl_pool := leave t s (store_filled s (fl_pool f)),
        fl_owners := (fl_owners f)(tpl \<mapsto> Serve (new_owner hp now)),
        fl_queued := (fl_queued f)(tpl := 0),
        fl_handles := (fl_handles f)(t := obtained k tpl (fl_handles f t)),
        fl_base := (fl_base f)(tpl := base),
        fl_kids := (fl_kids f)(tpl := []), fl_killed := (fl_killed f)(tpl := [])\<rparr>)"

text \<open>A host that has not forked yet has no clone to report.\<close>

fun exit_notices :: "incoming list \<Rightarrow> nat option list" where
  "exit_notices [] = []"
| "exit_notices (Message m # inbox) = exit_pids [m] @ exit_notices inbox"
| "exit_notices (Broken e # inbox) = exit_notices inbox"

definition childless :: "host_process \<Rightarrow> bool" where
  "childless hp = (hp_events hp = [] \<and> exit_notices (hp_inbox hp) = [])"

definition base_ready :: "task \<Rightarrow> bool \<Rightarrow> bring_up \<Rightarrow> instant \<Rightarrow> fleet \<Rightarrow> fleet option" where
  "base_ready t has_prepare bu now f =
     (case pl_stage (fl_pool f) t of
        Filling k s \<Rightarrow>
          if tk_recipe k = None
          then (case base_owner has_prepare bu of
                  (Inr _, HostServing hp) \<Rightarrow> if childless hp then Some (enter t k s hp now None f) else None
                | _ \<Rightarrow> None)
          else None
      | _ \<Rightarrow> None)"

text \<open>
  The clone is the \<open>i\<close>th the base's owner has answered, and no other template runs in it;
  \<open>arrived\<close> is what it has sent since.
\<close>

definition base_clone :: "template_id \<Rightarrow> nat \<Rightarrow> fleet \<Rightarrow> host_process option" where
  "base_clone b i f =
     (case fl_owners f b of
        None \<Rightarrow> None
      | Some r \<Rightarrow>
          (let replies = ow_replies (round_owner r) in
           if i < length replies \<and> list_all (\<lambda>tpl. fl_base f tpl \<noteq> Some (b, i)) [0..<pl_next_template (fl_pool f)]
           then (case replies ! i of Inr (clone, _) \<Rightarrow> Some clone | Inl _ \<Rightarrow> None)
           else None))"

definition recipe_ready ::
  "task \<Rightarrow> nat \<Rightarrow> byte list \<Rightarrow> bring_up \<Rightarrow> incoming list \<Rightarrow> instant \<Rightarrow> fleet \<Rightarrow> fleet option" where
  "recipe_ready t i recipe bu arrived now f =
     (case (pl_stage (fl_pool f) t, fl_handles f t) of
        (Filling k s, (_, b) # _) \<Rightarrow>
          if tk_recipe k \<noteq> None
          then (case base_clone b i f of
                  None \<Rightarrow> None
                | Some clone \<Rightarrow>
                    (case recipe_owner bu recipe (clone\<lparr>hp_inbox := hp_inbox clone @ arrived\<rparr>) of
                       (Inr _, HostServing hp) \<Rightarrow>
                         if childless hp then Some (enter t k s hp now (Some (b, i)) f) else None
                     | _ \<Rightarrow> None))
          else None
      | _ \<Rightarrow> None)"

text \<open>
  \<open>Template::fork\<close> sends its command, by a request that fills a recipe's slot or has its
  template; to an owner that has returned it sends nothing.
\<close>

definition send_fork :: "task \<Rightarrow> fleet \<Rightarrow> fleet option" where
  "send_fork t f =
     (case (pl_stage (fl_pool f) t, fl_handles f t) of
        (Waiting _ _, _) \<Rightarrow> None
      | (Holding _ _, _) \<Rightarrow> None
      | (_, []) \<Rightarrow> None
      | (_, (_, tpl) # _) \<Rightarrow>
          (case fl_owners f tpl of
             Some (Serve ow) \<Rightarrow> Some (f\<lparr>fl_queued := (fl_queued f)(tpl := fl_queued f tpl + 1)\<rparr>)
           | _ \<Rightarrow> Some f))"

definition release :: "task \<Rightarrow> fleet \<Rightarrow> fleet option" where
  "release t f =
     (if pl_stage (fl_pool f) t = Outside then Some (f\<lparr>fl_handles := (fl_handles f)(t := [])\<rparr>) else None)"

subsection \<open>Owners and processes\<close>

text \<open>What an owner's wait can find. The notices of clones come from \<open>process_gone\<close> only.\<close>

definition owner_sees :: "template_id \<Rightarrow> owner_event \<Rightarrow> fleet \<Rightarrow> bool" where
  "owner_sees tpl ev f =
     (case ev of
        ForkCommand fi _ \<Rightarrow> 0 < fl_queued f tpl \<and> exit_notices (fi_arrived fi) = []
      | OwnerTimeout arrived _ _ \<Rightarrow> exit_notices arrived = []
      | OwnerDisconnected \<Rightarrow> fl_queued f tpl = 0 \<and> \<not> connected tpl f)"

definition host_died :: "template_id \<Rightarrow> fleet \<Rightarrow> fleet" where
  "host_died tpl f =
     f\<lparr>fl_kids := (fl_kids f)(tpl := []), fl_killed := (fl_killed f)(tpl := fl_killed f tpl @ fl_kids f tpl)\<rparr>"

text \<open>A wait that finds a command takes it from the channel.\<close>

definition left_queued :: "owner_event \<Rightarrow> nat \<Rightarrow> nat" where
  "left_queued ev n = (case ev of ForkCommand _ _ \<Rightarrow> n - 1 | _ \<Rightarrow> n)"

definition owner_round_step :: "duration \<Rightarrow> template_id \<Rightarrow> owner_event \<Rightarrow> fleet \<Rightarrow> fleet option" where
  "owner_round_step ttl tpl ev f =
     (case fl_owners f tpl of
        Some (Serve ow) \<Rightarrow>
          if owner_sees tpl ev f
          then (let r = owner_step ttl ev ow;
                    f' = f\<lparr>fl_owners := (fl_owners f)(tpl \<mapsto> r), 
                           fl_queued := (fl_queued f)(tpl := left_queued ev (fl_queued f tpl))\<rparr>
                in Some (case r of
                     Serve ow' \<Rightarrow>
                       f'\<lparr>fl_kids := (fl_kids f)(tpl := fl_kids f tpl @ [length (ow_forked ow)..<length (ow_forked ow')])\<rparr>
                   | Over e ow' \<Rightarrow> host_died tpl f'))
          else None
      | _ \<Rightarrow> None)"

text \<open>A clone exits and its template's host reaps it and reports it.\<close>

definition process_gone :: "template_id \<Rightarrow> nat \<Rightarrow> int \<Rightarrow> fleet \<Rightarrow> fleet option" where
  "process_gone tpl i status f =
     (case fl_owners f tpl of
        Some (Serve ow) \<Rightarrow>
          if i \<in> set (fl_kids f tpl)
          then Some (f\<lparr>fl_owners := (fl_owners f)(tpl \<mapsto>
                        Serve (deliver [Message (Exited RunChild status (Some (ow_forked ow ! i)))] ow)),
                       fl_kids := (fl_kids f)(tpl := remove1 i (fl_kids f tpl))\<rparr>)
          else None
      | _ \<Rightarrow> None)"

datatype fleet_action =
    Request pool_action
  | BaseReady task bool bring_up instant
  | RecipeReady task nat "byte list" bring_up "incoming list" instant
  | SendFork task
  | Release task
  | OwnerRound template_id owner_event
  | ProcessGone template_id nat int
  | HostDied template_id

fun fleet_step :: "duration \<Rightarrow> fleet_action \<Rightarrow> fleet \<Rightarrow> fleet option" where
  "fleet_step ttl (Request a) f = request_step a f"
| "fleet_step ttl (BaseReady t has_prepare bu now) f = base_ready t has_prepare bu now f"
| "fleet_step ttl (RecipeReady t i recipe bu arrived now) f = recipe_ready t i recipe bu arrived now f"
| "fleet_step ttl (SendFork t) f = send_fork t f"
| "fleet_step ttl (Release t) f = release t f"
| "fleet_step ttl (OwnerRound tpl ev) f = owner_round_step ttl tpl ev f"
| "fleet_step ttl (ProcessGone tpl i status) f = process_gone tpl i status f"
| "fleet_step ttl (HostDied tpl) f = Some (host_died tpl f)"

abbreviation fleet_run :: "duration \<Rightarrow> fleet_action list \<Rightarrow> fleet \<Rightarrow> fleet option" where
  "fleet_run ttl \<equiv> run_steps (fleet_step ttl)"

inductive fleets :: "(fleet_action \<Rightarrow> bool) \<Rightarrow> duration \<Rightarrow> fleet \<Rightarrow> bool" for allowed ttl where
  fleets_new: "fleets allowed ttl new_fleet"
| fleets_step: "fleets allowed ttl f \<Longrightarrow> allowed a \<Longrightarrow> fleet_step ttl a f = Some f' \<Longrightarrow> fleets allowed ttl f'"

interpretation flt: machine "\<lambda>f. f = new_fleet" "fleet_step ttl" "\<lambda>a _. allowed a" "fleets allowed ttl" for allowed ttl
proof
  fix P :: "fleet \<Rightarrow> bool" and f
  assume "fleets allowed ttl f" and P: "\<And>f. f = new_fleet \<Longrightarrow> P f"
    "\<And>f a f'. fleets allowed ttl f \<Longrightarrow> P f \<Longrightarrow> allowed a \<Longrightarrow> fleet_step ttl a f = Some f' \<Longrightarrow> P f'"
  then show "P f" by (induction rule: fleets.induct) blast+
qed (auto intro: fleets.intros)

subsection \<open>The pool a fleet is seen as\<close>

lemma view_fields [simp]:
  "pl_slots (view f) = pl_slots (fl_pool f)" "pl_cells (view f) = pl_cells (fl_pool f)"
  "pl_owner (view f) = pl_owner (fl_pool f)" "pl_stage (view f) = pl_stage (fl_pool f)"
  "pl_tasks (view f) = pl_tasks (fl_pool f)" "pl_next_slot (view f) = pl_next_slot (fl_pool f)"
  "pl_next_template (view f) = pl_next_template (fl_pool f)" "pl_live (view f) = template_alive f"
  by (simp_all add: view_def)

lemma pool_step_live:
  "pool_step a p = Some p' \<Longrightarrow> (\<And>t. a \<noteq> FillOk t) \<Longrightarrow> (\<And>tpl. a \<noteq> Expire tpl) \<Longrightarrow> pl_live p' = pl_live p"
  by (cases a) (auto simp: slot_def leave_def forget_key_def clear_templates_def prune_def
      split: stage.splits if_splits option.splits)

lemma pool_step_counts: "pool_step a p = Some p' \<Longrightarrow> pl_next_template p \<le> pl_next_template p'"
  by (cases a) (auto simp: slot_def leave_def forget_key_def clear_templates_def prune_def store_filled_def
      split: stage.splits if_splits option.splits)

lemma owner_step_alive:
  "owner_step ttl ev ow = Serve ow' \<Longrightarrow> ow_alive ow' = ow_alive ow"
  "owner_step ttl ev ow = Over e ow' \<Longrightarrow> \<not> ow_alive ow'"
  by (auto simp: owner_step_def serve_fork_def owner_timeout_def Let_def
      split: owner_event.splits prod.splits sum.splits option.splits if_splits)

lemma request_step_cases:
  assumes "request_step a f = Some f'"
  obtains p where "pool_step a (view f) = Some p" "\<And>t. a \<noteq> FillOk t" "\<And>tpl. a \<noteq> Expire tpl"
    "fl_pool f' = p" "fl_owners f' = fl_owners f" "fl_queued f' = fl_queued f" "fl_base f' = fl_base f"
    "fl_kids f' = fl_kids f" "fl_killed f' = fl_killed f"
  using assms
  by (auto simp: request_step_def Let_def split: option.splits pool_action.splits if_splits)

lemma view_request:
  assumes "request_step a f = Some f'"
  shows "pool_step a (view f) = Some (view f')"
  using assms
proof (cases rule: request_step_cases)
  case (1 p)
  then have "pl_live p = template_alive f" using pool_step_live [of a "view f" p] by simp
  moreover have "template_alive f' = template_alive f" using 1 by (simp add: template_alive_def fun_eq_iff)
  ultimately show ?thesis using 1 by (simp add: view_def)
qed

lemma view_enter:
  assumes "pl_stage (fl_pool f) t = Filling k s"
  shows "pool_step (FillOk t) (view f) = Some (view (enter t k s hp now base f))"
proof -
  have "template_alive (enter t k s hp now base f) = (template_alive f)(pl_next_template (fl_pool f) := True)"
    by (auto simp: template_alive_def enter_def new_owner_def Let_def fun_eq_iff)
  with assms show ?thesis
    by (simp add: view_def) (simp add: enter_def Let_def leave_def store_filled_def)
qed

lemma owner_round_cases:
  assumes "owner_round_step ttl tpl ev f = Some f'"
  obtains (serve) ow ow' where "fl_owners f tpl = Some (Serve ow)" "owner_sees tpl ev f" "owner_step ttl ev ow = Serve ow'"
    "f' = f\<lparr>fl_owners := (fl_owners f)(tpl \<mapsto> Serve ow'), fl_queued := (fl_queued f)(tpl := left_queued ev (fl_queued f tpl)),
            fl_kids := (fl_kids f)(tpl := fl_kids f tpl @ [length (ow_forked ow)..<length (ow_forked ow')])\<rparr>"
  | (over) ow e ow' where "fl_owners f tpl = Some (Serve ow)" "owner_sees tpl ev f" "owner_step ttl ev ow = Over e ow'"
    "f' = host_died tpl (f\<lparr>fl_owners := (fl_owners f)(tpl \<mapsto> Over e ow'),
            fl_queued := (fl_queued f)(tpl := left_queued ev (fl_queued f tpl))\<rparr>)"
  using assms
  by (auto simp: owner_round_step_def Let_def split: option.splits owner_round.splits if_splits)

lemma view_same:
  "fl_pool f' = fl_pool f \<Longrightarrow> template_alive f' = template_alive f \<Longrightarrow> view f' = view f"
  by (simp add: view_def)

lemma view_round:
  assumes "owner_round_step ttl tpl ev f = Some f'"
  shows "view f' = view f \<or> pool_step (Expire tpl) (view f) = Some (view f')"
  using assms
proof (cases rule: owner_round_cases)
  case (serve ow ow')
  then have "template_alive f' = template_alive f"
    using owner_step_alive(1) by (auto simp: template_alive_def fun_eq_iff)
  with serve show ?thesis by (auto intro: view_same)
next
  case (over ow e ow')
  then have "template_alive f' = (template_alive f)(tpl := False)"
    using owner_step_alive(2) by (auto simp: template_alive_def fun_eq_iff host_died_def)
  with over show ?thesis by (simp add: view_def host_died_def)
qed

lemma process_gone_cases:
  assumes "process_gone tpl i status f = Some f'"
  obtains ow where "fl_owners f tpl = Some (Serve ow)" "i \<in> set (fl_kids f tpl)"
    "f' = f\<lparr>fl_owners := (fl_owners f)(tpl \<mapsto>
              Serve (deliver [Message (Exited RunChild status (Some (ow_forked ow ! i)))] ow)),
            fl_kids := (fl_kids f)(tpl := remove1 i (fl_kids f tpl))\<rparr>"
  using assms by (auto simp: process_gone_def split: option.splits owner_round.splits if_splits)

lemma view_process_gone: "process_gone tpl i status f = Some f' \<Longrightarrow> view f' = view f"
  by (erule process_gone_cases) (auto simp: template_alive_def fun_eq_iff intro!: view_same)

lemma base_ready_cases:
  assumes "base_ready t has_prepare bu now f = Some f'"
  obtains k s hp where "pl_stage (fl_pool f) t = Filling k s" "tk_recipe k = None" "childless hp"
    "f' = enter t k s hp now None f"
  using assms
  by (auto simp: base_ready_def split: stage.splits if_splits prod.splits sum.splits host_fate.splits)

lemma recipe_ready_cases:
  assumes "recipe_ready t i recipe bu arrived now f = Some f'"
  obtains k s hp k' b hs where "pl_stage (fl_pool f) t = Filling k s" "tk_recipe k \<noteq> None" "childless hp"
    "fl_handles f t = (k', b) # hs" "f' = enter t k s hp now (Some (b, i)) f"
  using assms
  by (auto simp: recipe_ready_def split: stage.splits if_splits prod.splits sum.splits host_fate.splits
      list.splits option.splits)

lemma send_fork_cases:
  assumes "send_fork t f = Some f'"
  obtains q where "f' = f\<lparr>fl_queued := q\<rparr>"
  using assms
  by (cases f) (auto simp: send_fork_def split: stage.splits list.splits option.splits owner_round.splits)

lemma fleet_step_view:
  assumes "fleet_step ttl a f = Some f'"
  shows "view f' = view f
    \<or> (\<exists>b. pool_step b (view f) = Some (view f') \<and> (a = Request b \<or> (\<forall>k. b \<noteq> Forget k) \<and> b \<noteq> Clear))"
proof (cases a)
  case (SendFork t)
  then have "send_fork t f = Some f'" using assms by simp
  then show ?thesis by (rule send_fork_cases) (auto simp: template_alive_def intro!: view_same)
qed (use assms in \<open>auto simp: release_def host_died_def template_alive_def fun_eq_iff view_process_gone
      dest!: view_request view_round elim!: base_ready_cases recipe_ready_cases
      dest: view_enter intro: view_same split: if_splits\<close>)

lemma view_new: "view new_fleet = new_templates"
  by (simp add: view_def new_fleet_def new_templates_def template_alive_def fun_eq_iff)

interpretation seen: refinement
  "\<lambda>f. f = new_fleet" "fleet_step ttl" "\<lambda>a _. allowed a" "fleets allowed ttl"
  "\<lambda>p. p = new_templates" pool_step "\<lambda>_ _. True" "pools (\<lambda>_. True)" view for allowed ttl
  by unfold_locales (auto simp: view_new dest!: fleet_step_view)

lemma fleets_inv: "fleets allowed ttl f \<Longrightarrow> pool_inv (view f)"
  by (rule seen.abs_invariant [where Q = pool_inv, OF pools_inv])

subsection \<open>Every clone is accounted for\<close>

lemma exit_notices_append [simp]: "exit_notices (xs @ ys) = exit_notices xs @ exit_notices ys"
  by (induction xs rule: exit_notices.induct) simp_all

lemma exit_pids_append [simp]: "exit_pids (xs @ ys) = exit_pids xs @ exit_pids ys"
  by (induction xs) (simp_all split: reply.splits run.splits)

text \<open>The notices a host has sent that its owner has not counted yet.\<close>

definition pending :: "host_process \<Rightarrow> nat option list" where
  "pending hp = exit_pids (hp_events hp) @ exit_notices (hp_inbox hp)"

lemma pending_deliver [simp]: "pending (ow_host (deliver xs ow)) = pending (ow_host ow) @ exit_notices xs"
  by (simp add: pending_def deliver_def)

lemma reply_loop_pending:
  "reply_loop pid inbox events = (r, inbox', events') \<Longrightarrow>
     exit_pids events' @ exit_notices inbox' = exit_pids events @ exit_notices inbox"
  by (induction pid inbox events rule: reply_loop.induct) (auto split: reply.splits run.splits)

lemma next_reply_pending: "next_reply hp = (r, hp') \<Longrightarrow> pending hp' = pending hp"
  by (auto simp: next_reply_def pending_def dest: reply_loop_pending split: prod.splits)

lemma request_host_pending: "request_host sent q payload fds hp = (r, hp') \<Longrightarrow> pending hp' = pending hp"
  by (auto simp: request_host_def pending_def dest!: next_reply_pending split: sum.splits)

lemma hp_fork_pending: "hp_fork pair bound sent inbox hp = (r, hp') \<Longrightarrow> pending hp' = pending hp"
  by (auto simp: hp_fork_def dest: request_host_pending
      split: sum.splits prod.splits reply.splits option.splits)

lemma read_event_pending:
  "read_event hp = (Inr e, hp') \<Longrightarrow>
     exit_notices (hp_inbox hp) = exit_pids [e] @ exit_notices (hp_inbox hp') \<and> hp_events hp' = hp_events hp"
  by (auto simp: read_event_def split: list.splits incoming.splits reply.splits)

lemma drain_loop_pending:
  "drain_loop polls hp events = (Some events', hp') \<Longrightarrow>
     mset (exit_pids events') + mset (pending hp') = mset (exit_pids events) + mset (pending hp)"
proof (induction polls hp events rule: drain_loop.induct)
  case (4 polls hp events)
  then obtain e hp1 where e: "read_event hp = (Inr e, hp1)" "drain_loop polls hp1 (events @ [e]) = (Some events', hp')"
    by (auto split: prod.splits sum.splits)
  have "mset (exit_pids events') + mset (pending hp') = mset (exit_pids (events @ [e])) + mset (pending hp1)"
    by (rule 4(1) [OF e(1) [symmetric] refl e(2)])
  with read_event_pending [OF e(1)] show ?case by (simp add: pending_def)
qed simp_all

lemma serve_fork_pending:
  assumes "serve_fork fi now ow = Serve ow'"
  shows "mset (ow_exited ow') + mset (pending (ow_host ow')) = mset (ow_exited ow) + mset (pending (ow_host ow))"
  using assms hp_fork_pending [of "fi_pair fi" "fi_bound fi" "fi_sent fi" "fi_child_inbox fi" "ow_host ow"]
  by (auto simp: serve_fork_def Let_def take_events_def pending_def split: prod.splits sum.splits)
    (metis mset_append)

lemma owner_timeout_pending:
  assumes "owner_timeout ttl polls now ow = Serve ow' \<or> owner_timeout ttl polls now ow = Over ExpiredEnd ow'"
  shows "mset (ow_exited ow') + mset (pending (ow_host ow')) = mset (ow_exited ow) + mset (pending (ow_host ow))"
  using assms drain_loop_pending [of polls "ow_host ow" "[]"]
  by (auto simp: owner_timeout_def Let_def add.assoc split: prod.splits option.splits if_splits)

text \<open>
  Of every clone forked, the owner has counted the exit, or its notice is pending, or it is
  one of \<open>run\<close>.
\<close>

definition accounted :: "owner \<Rightarrow> nat list \<Rightarrow> bool" where
  "accounted ow run =
     (list_all (\<lambda>i. i < length (ow_forked ow)) run
      \<and> ow_children ow + length (ow_exited ow) = length (ow_forked ow)
      \<and> mset (ow_exited ow) + mset (pending (ow_host ow)) + mset (map (\<lambda>i. Some (ow_forked ow ! i)) run)
          = image_mset Some (mset (ow_forked ow)))"

lemma accounted_perm: "mset run = mset run' \<Longrightarrow> accounted ow run = accounted ow run'"
  by (simp add: accounted_def list_all_iff mset_eq_setD [of run run'])

lemma accounted_lengths:
  assumes "accounted ow run"
  shows "length (ow_exited ow) + length (pending (ow_host ow)) + length run = length (ow_forked ow)"
proof -
  have "size (mset (ow_exited ow) + mset (pending (ow_host ow)) + mset (map (\<lambda>i. Some (ow_forked ow ! i)) run))
      = size (image_mset Some (mset (ow_forked ow)))"
    using assms unfolding accounted_def by metis
  then show ?thesis by simp
qed

lemma accounted_children: "accounted ow run \<Longrightarrow> ow_children ow = length run + length (pending (ow_host ow))"
  using accounted_lengths [of ow run] by (simp add: accounted_def)

lemma accounted_deliver [simp]: "exit_notices xs = [] \<Longrightarrow> accounted (deliver xs ow) run = accounted ow run"
  by (simp add: accounted_def)

lemma accounted_new: "childless hp \<Longrightarrow> accounted (new_owner hp now) []"
  by (simp add: accounted_def new_owner_def childless_def pending_def)

lemma accounted_fork:
  assumes "accounted ow run" "serve_fork fi now ow = Serve ow'"
  shows "accounted ow' (run @ [length (ow_forked ow)..<length (ow_forked ow')])"
  using assms(2)
proof (rule serve_fork_Serve)
  fix pid events
  assume ow': "ow_forked ow' = ow_forked ow @ [pid]" "ow_exited ow' = ow_exited ow @ exit_pids events"
    "ow_children ow' = ow_children ow + 1 - count_exits events"
  have old: "map (\<lambda>i. Some ((ow_forked ow @ [pid]) ! i)) run = map (\<lambda>i. Some (ow_forked ow ! i)) run"
    using assms(1) by (auto simp: accounted_def list_all_iff nth_append)
  have parts: "mset (ow_exited ow') + mset (pending (ow_host ow'))
      + mset (map (\<lambda>i. Some (ow_forked ow' ! i)) (run @ [length (ow_forked ow)..<length (ow_forked ow')]))
      = image_mset Some (mset (ow_forked ow'))"
    using assms(1) unfolding serve_fork_pending [OF assms(2)] by (simp add: accounted_def ow' old)
  then have "well_reported ow'"
    unfolding well_reported_def by (metis add.assoc mset_subset_eq_add_left)
  from well_reported_length [OF this] parts assms(1) show ?thesis
    by (auto simp: accounted_def ow' list_all_iff)
qed

lemma accounted_timeout:
  assumes "accounted ow run"
    and "owner_timeout ttl polls now ow = Serve ow' \<or> owner_timeout ttl polls now ow = Over ExpiredEnd ow'"
  shows "ow_forked ow' = ow_forked ow \<and> accounted ow' run
    \<and> (owner_timeout ttl polls now ow = Over ExpiredEnd ow' \<longrightarrow> ow_children ow' = 0)"
proof (rule owner_timeout_cases [OF refl, of ttl polls now ow])
  fix events ow1
  assume ow1: "ow_forked ow1 = ow_forked ow" "ow_exited ow1 = ow_exited ow @ exit_pids events"
    "ow_children ow1 = ow_children ow - count_exits events"
    and rnd: "owner_timeout ttl polls now ow = (if ow_children ow1 = 0 \<and> ttl \<le> now - ow_idle_since ow1
            then Over ExpiredEnd (ow1\<lparr>ow_alive := False\<rparr>) else Serve ow1)"
  have same: "ow_forked ow' = ow_forked ow" "ow_exited ow' = ow_exited ow @ exit_pids events"
    "ow_children ow' = ow_children ow - count_exits events"
    using assms(2) ow1 rnd by (auto split: if_splits)
  have parts: "mset (ow_exited ow') + mset (pending (ow_host ow')) + mset (map (\<lambda>i. Some (ow_forked ow' ! i)) run)
      = image_mset Some (mset (ow_forked ow'))"
    using assms(1) unfolding owner_timeout_pending [OF assms(2)] by (simp add: accounted_def same(1))
  then have "well_reported ow'"
    unfolding well_reported_def by (metis add.assoc mset_subset_eq_add_left)
  from well_reported_length [OF this] parts assms(1) have "accounted ow' run"
    by (auto simp: accounted_def same)
  with same(1) ow1 rnd show ?thesis by (auto split: if_splits)
qed (use assms(2) in auto)

lemma accounted_round:
  assumes "accounted ow run" "owner_sees tpl ev f" "owner_step ttl ev ow = Serve ow'"
  shows "accounted ow' (run @ [length (ow_forked ow)..<length (ow_forked ow')])"
proof (cases ev)
  case (ForkCommand fi now)
  with assms accounted_fork [of "deliver (fi_arrived fi) ow" run fi now ow'] show ?thesis
    by (simp add: owner_step_def owner_sees_def)
next
  case (OwnerTimeout arrived polls now)
  with assms accounted_timeout [of "deliver arrived ow" run ttl polls now ow'] show ?thesis
    by (simp add: owner_step_def owner_sees_def)
qed (use assms in \<open>simp add: owner_step_def\<close>)

lemma accounted_expired:
  assumes "accounted ow run" "owner_sees tpl ev f" "owner_step ttl ev ow = Over ExpiredEnd ow'"
  shows "run = [] \<and> mset (ow_exited ow') = image_mset Some (mset (ow_forked ow'))"
proof -
  obtain arrived polls now where ev: "ev = OwnerTimeout arrived polls now" "exit_notices arrived = []"
    "owner_timeout ttl polls now (deliver arrived ow) = Over ExpiredEnd ow'"
    using assms(2,3) by (cases ev) (auto simp: owner_step_def owner_sees_def serve_fork_def Let_def
        split: prod.splits sum.splits)
  then have "accounted ow' run" "ow_children ow' = 0"
    using accounted_timeout [of "deliver arrived ow" run ttl polls now ow'] assms(1) by simp_all
  with accounted_children [of ow' run] show ?thesis by (simp add: accounted_def)
qed

lemma accounted_gone:
  assumes "accounted ow (kids @ killed)" "i \<in> set kids"
  shows "accounted (deliver [Message (Exited RunChild status (Some (ow_forked ow ! i)))] ow) (remove1 i kids @ killed)"
proof -
  have "mset (map (\<lambda>j. Some (ow_forked ow ! j)) kids)
      = add_mset (Some (ow_forked ow ! i)) (mset (map (\<lambda>j. Some (ow_forked ow ! j)) (remove1 i kids)))"
    using assms(2) by (metis image_mset_add_mset insert_DiffM mset_map mset_remove1 set_mset_mset)
  moreover have "set (remove1 i kids) \<subseteq> set kids" by (rule set_remove1_subset)
  ultimately show ?thesis
    using assms by (auto simp: accounted_def list_all_iff)
qed

text \<open>What holds of a template in every history.\<close>

fun round_inv :: "owner_round option \<Rightarrow> nat list \<Rightarrow> nat list \<Rightarrow> bool" where
  "round_inv None kids killed = True"
| "round_inv (Some (Serve ow)) kids killed = accounted ow (kids @ killed)"
| "round_inv (Some (Over e ow)) kids killed =
     (kids = []
      \<and> (e = ExpiredEnd \<longrightarrow> killed = [] \<and> mset (ow_exited ow) = image_mset Some (mset (ow_forked ow))))"

definition template_inv :: "fleet \<Rightarrow> template_id \<Rightarrow> bool" where
  "template_inv f tpl = round_inv (fl_owners f tpl) (fl_kids f tpl) (fl_killed f tpl)"

lemma template_inv_same:
  "template_inv f tpl \<Longrightarrow> fl_owners f' tpl = fl_owners f tpl \<Longrightarrow> fl_kids f' tpl = fl_kids f tpl \<Longrightarrow>
     fl_killed f' tpl = fl_killed f tpl \<Longrightarrow> template_inv f' tpl"
  by (simp add: template_inv_def)

lemma template_inv_enter:
  "template_inv f tpl \<Longrightarrow> childless hp \<Longrightarrow> template_inv (enter t k s hp now base f) tpl"
  by (simp add: template_inv_def enter_def Let_def accounted_new)

lemma round_inv_died: "round_inv r kids killed \<Longrightarrow> round_inv r [] (killed @ kids)"
  by (cases "(r, kids, killed)" rule: round_inv.cases)
    (auto simp: accounted_perm [of "killed @ kids" "kids @ killed"])

lemma template_inv_died: "template_inv f tpl \<Longrightarrow> template_inv (host_died tpl' f) tpl"
  by (auto simp: template_inv_def host_died_def intro: round_inv_died)

lemma template_inv_round:
  assumes "\<And>tpl. template_inv f tpl" "owner_round_step ttl tpl' ev f = Some f'"
  shows "template_inv f' tpl"
  using assms(2)
proof (cases rule: owner_round_cases)
  case (serve ow ow')
  let ?new = "[length (ow_forked ow)..<length (ow_forked ow')]"
  have "accounted ow' ((fl_kids f tpl' @ fl_killed f tpl') @ ?new)"
    using accounted_round [OF _ serve(2,3), of "fl_kids f tpl' @ fl_killed f tpl'"] assms(1) [of tpl'] serve(1)
    by (simp add: template_inv_def)
  then have "accounted ow' ((fl_kids f tpl' @ ?new) @ fl_killed f tpl')"
    by (subst accounted_perm [of _ "(fl_kids f tpl' @ fl_killed f tpl') @ ?new"]) simp_all
  with assms(1) [of tpl] serve show ?thesis by (simp add: template_inv_def)
next
  case (over ow e ow')
  have "fl_kids f tpl' = [] \<and> fl_killed f tpl' = [] \<and> mset (ow_exited ow') = image_mset Some (mset (ow_forked ow'))"
    if "e = ExpiredEnd"
    using accounted_expired [OF _ over(2) over(3) [unfolded that], of "fl_kids f tpl' @ fl_killed f tpl'"]
      assms(1) [of tpl'] over(1) by (simp add: template_inv_def)
  with assms(1) [of tpl] over show ?thesis by (simp add: template_inv_def host_died_def)
qed

lemma template_inv_gone:
  assumes "template_inv f tpl" "process_gone tpl' i status f = Some f'"
  shows "template_inv f' tpl"
  using assms(2)
  by (rule process_gone_cases) (use assms(1) accounted_gone in \<open>auto simp: template_inv_def\<close>)

lemma fleets_accounted: "fleets allowed ttl f \<Longrightarrow> template_inv f tpl"
proof (induction arbitrary: tpl rule: fleets.induct)
  case fleets_new
  show ?case by (simp add: template_inv_def new_fleet_def)
next
  case (fleets_step f a f')
  note inv = fleets_step.IH
  show ?case
  proof (cases a)
    case (Request b)
    then have "request_step b f = Some f'" using fleets_step.hyps(3) by simp
    then show ?thesis by (rule request_step_cases) (auto intro: template_inv_same [OF inv])
  next
    case (SendFork t)
    then have "send_fork t f = Some f'" using fleets_step.hyps(3) by simp
    then show ?thesis by (rule send_fork_cases) (auto intro: template_inv_same [OF inv])
  next
    case (Release t)
    with fleets_step.hyps(3) show ?thesis by (auto simp: release_def intro: template_inv_same [OF inv] split: if_splits)
  qed (use fleets_step.hyps(3) inv in \<open>auto intro: template_inv_round template_inv_gone template_inv_died
        template_inv_enter elim!: base_ready_cases recipe_ready_cases\<close>)
qed

subsection \<open>Who holds a template\<close>

lemma serving_alive:
  assumes "fleets allowed ttl f" "fl_owners f tpl = Some (Serve ow)"
  shows "ow_alive ow \<and> tpl < pl_next_template (fl_pool f)"
  using assms
proof (induction arbitrary: tpl ow rule: fleets.induct)
  case fleets_new
  then show ?case by (simp add: new_fleet_def)
next
  case (fleets_step f a f')
  show ?case
  proof (cases a)
    case (Request b)
    then have "request_step b f = Some f'" using fleets_step.hyps(3) by simp
    then show ?thesis
      by (rule request_step_cases)
        (use fleets_step.IH [of tpl ow] fleets_step.prems in \<open>auto dest!: pool_step_counts\<close>)
  next
    case (SendFork t)
    then have "send_fork t f = Some f'" using fleets_step.hyps(3) by simp
    then show ?thesis by (rule send_fork_cases) (use fleets_step in auto)
  next
    case (Release t)
    with fleets_step show ?thesis by (auto simp: release_def split: if_splits)
  next
    case (OwnerRound tpl' ev)
    then have "owner_round_step ttl tpl' ev f = Some f'" using fleets_step.hyps(3) by simp
    then show ?thesis
      by (cases rule: owner_round_cases)
        (use fleets_step.IH fleets_step.prems in \<open>auto simp: host_died_def owner_step_alive split: if_splits\<close>)
  next
    case (ProcessGone tpl' i status)
    then have "process_gone tpl' i status f = Some f'" using fleets_step.hyps(3) by simp
    then show ?thesis
      by (rule process_gone_cases) (use fleets_step.IH fleets_step.prems in \<open>auto split: if_splits\<close>)
  qed (use fleets_step in \<open>auto simp: host_died_def enter_def new_owner_def Let_def leave_def store_filled_def less_Suc_eq
        elim!: base_ready_cases recipe_ready_cases split: if_splits\<close>)
qed

lemma serving_before:
  assumes "fleet_step ttl a f = Some f'" "fl_owners f' tpl = Some (Serve ow')"
  obtains (served) ow where "fl_owners f tpl = Some (Serve ow)"
  | (entered) t k s hp now base where "pl_stage (fl_pool f) t = Filling k s"
    "f' = enter t k s hp now base f" "tpl = pl_next_template (fl_pool f)"
proof (cases a)
  case (Request b)
  then have "request_step b f = Some f'" using assms(1) by simp
  then show thesis by (rule request_step_cases) (use assms(2) served in auto)
next
  case (SendFork t)
  then have "send_fork t f = Some f'" using assms(1) by simp
  then show thesis by (rule send_fork_cases) (use assms(2) served in auto)
next
  case (OwnerRound tpl' ev)
  then have "owner_round_step ttl tpl' ev f = Some f'" using assms(1) by simp
  then show thesis
    by (cases rule: owner_round_cases) (use assms(2) served in \<open>auto simp: host_died_def split: if_splits\<close>)
next
  case (ProcessGone tpl' i status)
  then have "process_gone tpl' i status f = Some f'" using assms(1) by simp
  then show thesis by (rule process_gone_cases) (use assms(2) served in \<open>auto split: if_splits\<close>)
next
  case (BaseReady t has_prepare bu now)
  then have "base_ready t has_prepare bu now f = Some f'" using assms(1) by simp
  then show thesis
    by (rule base_ready_cases) (use assms(2) served entered in \<open>auto simp: enter_def Let_def split: if_splits\<close>)
next
  case (RecipeReady t i recipe bu arrived now)
  then have "recipe_ready t i recipe bu arrived now f = Some f'" using assms(1) by simp
  then show thesis
    by (rule recipe_ready_cases) (use assms(2) served entered in \<open>auto simp: enter_def Let_def split: if_splits\<close>)
qed (use assms served in \<open>auto simp: release_def host_died_def split: if_splits\<close>)

text \<open>Without \<open>forget\<close> and \<open>clear\<close> the owner of a slot's template finds its channel connected.\<close>

definition keeps_slots :: "fleet_action \<Rightarrow> bool" where
  "keeps_slots a = (case a of Request (Forget _) \<Rightarrow> False | Request Clear \<Rightarrow> False | _ \<Rightarrow> True)"

lemma keeps_slots_Request: "keeps_slots (Request b) \<longleftrightarrow> (\<forall>k. b \<noteq> Forget k) \<and> b \<noteq> Clear"
  by (cases b) (simp_all add: keeps_slots_def)

interpretation kept: refinement
  "\<lambda>f. f = new_fleet" "fleet_step ttl" "\<lambda>a _. keeps_slots a" "fleets keeps_slots ttl"
  "\<lambda>p. p = new_templates" pool_step "\<lambda>b _. keeps_slots (Request b)" "pools (\<lambda>b. keeps_slots (Request b))" view for ttl
proof
  fix f a f'
  assume "keeps_slots a" "fleet_step ttl a f = Some f'"
  then show "view f' = view f \<or> (\<exists>b. keeps_slots (Request b) \<and> pool_step b (view f) = Some (view f'))"
    using fleet_step_view [of ttl a f f'] keeps_slots_Request by blast
qed (simp add: view_new)

lemma pools_mono:
  assumes "pools allowed p" "\<And>a. allowed a \<Longrightarrow> allowed' a"
  shows "pools allowed' p"
  using assms(1) by (induction rule: pools.induct) (auto intro: pools.intros assms(2))

lemma expired_dead:
  assumes "pool_step (Expire tpl) (view f) = Some (view f')"
  shows "\<not> template_alive f' tpl"
proof -
  have "view f' = (view f)\<lparr>pl_live := (template_alive f)(tpl := False)\<rparr>" using assms by simp
  from arg_cong [OF this, of pl_live] show ?thesis by simp
qed

lemma serving_in_slot:
  assumes "fleets keeps_slots ttl f" "fl_owners f tpl = Some (Serve ow)"
  shows "\<exists>k. template_at k (view f) = Some tpl"
  using assms
proof (induction arbitrary: ow rule: fleets.induct)
  case fleets_new
  then show ?case by (simp add: new_fleet_def)
next
  case (fleets_step f a f')
  note hist = kept.reach_abs [OF fleets_step.hyps(1)]
  have live: "template_alive f' tpl"
    using serving_alive [OF fleets.fleets_step [OF fleets_step.hyps] fleets_step.prems] fleets_step.prems
    by (simp add: template_alive_def)
  from fleets_step.hyps(3) fleets_step.prems show ?case
  proof (cases rule: serving_before)
    case (served ow0)
    then obtain k where k: "template_at k (view f) = Some tpl" using fleets_step.IH by blast
    show ?thesis
    proof (cases "view f' = view f")
      case True
      with k show ?thesis by auto
    next
      case False
      then obtain b where b: "pool_step b (view f) = Some (view f')" "\<forall>k. b \<noteq> Forget k" "b \<noteq> Clear"
        using fleet_step_view [OF fleets_step.hyps(3)] fleets_step.hyps(2) by (auto simp: keeps_slots_Request)
      moreover have "b \<noteq> Expire tpl" using b(1) live expired_dead by blast
      ultimately show ?thesis using template_stays [OF hist b(1) k] by blast
    qed
  next
    case (entered t k s hp now base)
    have "pools (\<lambda>a. a \<noteq> Forget k \<and> a \<noteq> Clear) (view f)" by (rule pools_mono [OF hist]) (auto simp: keeps_slots_Request)
    from asker_has_the_slot [OF this, of t s] entered have "map_of (pl_slots (fl_pool f)) k = Some s" by simp
    with entered live show ?thesis
      by (auto simp: template_at_Some enter_def Let_def leave_def store_filled_def intro!: exI [of _ k])
  qed
qed

lemma serving_connected:
  assumes "fleets keeps_slots ttl f" "fl_owners f tpl = Some (Serve ow)"
  shows "connected tpl f"
proof -
  from serving_in_slot [OF assms] obtain k s where "map_of (pl_slots (fl_pool f)) k = Some s" "pl_cells (fl_pool f) s = Some tpl"
    by (auto simp: template_at_Some)
  then show ?thesis by (auto simp: connected_def list_ex_iff dest: map_of_SomeD)
qed

lemma owner_dropped:
  "owner_step ttl ev ow = Over DroppedEnd ow' \<Longrightarrow> ev = OwnerDisconnected"
  by (auto simp: owner_step_def serve_fork_def owner_timeout_def Let_def
      split: owner_event.splits prod.splits sum.splits option.splits if_splits)

lemma over_before:
  assumes "fleet_step ttl a f = Some f'" "fl_owners f' tpl = Some (Over e ow')"
  obtains (already) "fl_owners f tpl = Some (Over e ow')"
  | (ended) ow ev where "a = OwnerRound tpl ev" "fl_owners f tpl = Some (Serve ow)" "owner_sees tpl ev f"
    "owner_step ttl ev ow = Over e ow'"
proof (cases a)
  case (Request b)
  then have "request_step b f = Some f'" using assms(1) by simp
  then show thesis by (rule request_step_cases) (use assms(2) already in auto)
next
  case (SendFork t)
  then have "send_fork t f = Some f'" using assms(1) by simp
  then show thesis by (rule send_fork_cases) (use assms(2) already in auto)
next
  case (OwnerRound tpl' ev)
  then have "owner_round_step ttl tpl' ev f = Some f'" using assms(1) by simp
  then show thesis
    by (cases rule: owner_round_cases)
      (use assms(2) already ended OwnerRound in \<open>auto simp: host_died_def split: if_splits\<close>)
next
  case (ProcessGone tpl' i status)
  then have "process_gone tpl' i status f = Some f'" using assms(1) by simp
  then show thesis by (rule process_gone_cases) (use assms(2) already in \<open>auto split: if_splits\<close>)
qed (use assms already in \<open>auto simp: release_def host_died_def enter_def Let_def
      elim!: base_ready_cases recipe_ready_cases split: if_splits\<close>)

lemma fleets_run:
  "fleets allowed ttl f \<Longrightarrow> list_all allowed acts \<Longrightarrow> fleet_run ttl acts f = Some f' \<Longrightarrow> fleets allowed ttl f'"
  by (rule flt.reach_run) (auto simp: list_all_iff)

subsection \<open>Properties\<close>

text \<open>
  A base that is filled, forks one clone, and has it exit; the owner reads the notice at 5 and,
  with a time to live of 10, expires at 15.
\<close>

definition demo_fill :: "fleet_action list" where
  "demo_fill = [Request (Ask 0 demo_key), Request (Lock 0), Request (StartFill 0), BaseReady 0 True demo_bring_up 0]"

definition demo_life :: "fleet_action list" where
  "demo_life = demo_fill @ [SendFork 0, OwnerRound 0 (ForkCommand demo_fork 3), Release 0]"

definition demo_end :: "fleet_action list" where
  "demo_end = [ProcessGone 0 0 0, OwnerRound 0 (OwnerTimeout [] [PollReady] 5), OwnerRound 0 (OwnerTimeout [] [] 15)]"

lemmas fleet_simps = request_step_def base_ready_def send_fork_def release_def owner_round_step_def process_gone_def
  owner_sees_def left_queued_def enter_def hit_handles_def obtained_def may_ask_def view_def template_alive_def
  new_fleet_def host_died_def childless_def connected_def stage_slot_def
  base_owner_def demo_bring_up_def spawn_host_def hp_prepare_def start_and_freeze_def hp_start_def
  freeze_and_serve_def hp_freeze_def demo_key_def demo_fill_def demo_life_def demo_end_def pool_simps demo_owner_simps

lemma demo_life_run:
  "\<exists>f ow. fleet_run 10 demo_life new_fleet = Some f \<and> fl_owners f 0 = Some (Serve ow) \<and> fl_kids f 0 = [0]"
  by (simp add: fleet_simps)

lemma demo_end_run:
  "\<exists>f ow. fleet_run 10 (demo_life @ demo_end) new_fleet = Some f \<and> fl_owners f 0 = Some (Over ExpiredEnd ow)"
  by (simp add: fleet_simps)

text \<open>
  C7: expiry takes nobody along. When the owner of a template has let it expire, in any history
  of requests, owners and processes, every clone the template ever forked had exited and been
  reported before: none is running, and none was running when the host was asked to stop, so
  the kernel kills none. The template of a recipe runs in a clone of its base, so a base
  outlives the recipes that stand on it and the chain unwinds from its leaves.
\<close>

theorem expiry_takes_no_clone:
  assumes "fleets allowed ttl f" "fl_owners f tpl = Some (Over ExpiredEnd ow)"
  shows "fl_kids f tpl = [] \<and> fl_killed f tpl = []
    \<and> mset (ow_exited ow) = image_mset Some (mset (ow_forked ow))"
  using fleets_accounted [OF assms(1), of tpl] assms(2) by (simp add: template_inv_def)

theorem expiry_takes_no_clone_witness:
  "\<exists>f ow. fleet_run 10 (demo_life @ demo_end) new_fleet = Some f \<and> fl_owners f 0 = Some (Over ExpiredEnd ow)
     \<and> fl_kids f 0 = [] \<and> fl_killed f 0 = []"
proof -
  obtain f ow where f: "fleet_run 10 (demo_life @ demo_end) new_fleet = Some f" "fl_owners f 0 = Some (Over ExpiredEnd ow)"
    using demo_end_run by blast
  have "fleets (\<lambda>_. True) 10 f" by (rule fleets_run [OF fleets_new _ f(1)]) (simp add: list_all_iff)
  from expiry_takes_no_clone [OF this f(2)] f show ?thesis by blast
qed





subsection \<open>Clones that are taken along\<close>

text \<open>
  A fork that fails in the manager, here because no listener can be bound, counts as a failure
  of the host: the owner kills the frozen host, and the kernel every clone of it that runs.
\<close>

lemma failed_bind_takes_every_clone:
  "\<exists>f ow. fleet_run 10 (demo_life @ [Request (Ask 1 demo_key), Request (Lock 1), Request (Hit 1), SendFork 1,
        OwnerRound 0 (ForkCommand (demo_fork\<lparr>fi_bound := Inl (OtherIo ''too many open files'')\<rparr>) 4)]) new_fleet = Some f
     \<and> fl_owners f 0 = Some (Over ForkFailedEnd ow) \<and> fl_killed f 0 = [0]"
  by (simp add: fleet_simps)

text \<open>
  Two requests fork one template when its host fails. The first forgets the key and fills it
  anew; the second, whose error comes later, forgets the first's new slot. The first request
  then holds the only handle on its template, and returning with its instance drops it: the
  owner stops the host, and the kernel kills the instance.
\<close>

lemma late_forget_takes_the_clone:
  "\<exists>f ow. fleet_run 10 (demo_fill @ [Request (Ask 1 demo_key), Request (Lock 1), Request (Hit 1),
        SendFork 0, SendFork 1, OwnerRound 0 (ForkCommand (demo_fork\<lparr>fi_arrived := [Broken ClosedInsideFrame]\<rparr>) 1),
        Request (Forget demo_key), Request (Ask 0 demo_key), Request (Lock 0), Request (StartFill 0),
        Request (Forget demo_key), BaseReady 0 True demo_bring_up 2, SendFork 0,
        OwnerRound 1 (ForkCommand demo_fork 3), Release 0, OwnerRound 1 OwnerDisconnected]) new_fleet = Some f
     \<and> fl_owners f 1 = Some (Over DroppedEnd ow) \<and> fl_killed f 1 = [0]"
  by (simp add: fleet_simps forget_key_def hm_insert_def hm_remove_def)

end
