(* ===== verification/Wire.thy ===== *)
theory Wire
  imports Manager HostLoop
begin

text \<open>
  The control channel between the two ends: a host's replies as the bytes \<open>Channel::send\<close> puts
  on the wire, and a manager's inbox as what repeated \<open>Channel::recv\<close> takes from it
  (\<open>src/crates/servicecache/src/host/mod.rs\<close>, \<open>manager.rs\<close> and \<open>host/protocol.rs\<close>). It connects
  \<open>h_sent\<close> of \<open>HostState\<close> with \<open>hp_inbox\<close> of \<open>Manager\<close>, also for a host that dies with a
  reply partly written.
\<close>

subsection \<open>Streams of frames\<close>

text \<open>What the sender needs: the codec's contract and the limits the receiver enforces.\<close>

definition sendable :: "('m \<Rightarrow> byte list option) \<Rightarrow> (byte list \<Rightarrow> 'm option) \<Rightarrow> 'm frame \<Rightarrow> bool" where
  "sendable enc dec f =
     (case enc (fr_message f) of
        None \<Rightarrow> False
      | Some json \<Rightarrow>
          dec json = Some (fr_message f) \<and> length json \<le> MAX_JSON_LEN
          \<and> length (fr_payload f) \<le> MAX_PAYLOAD_LEN \<and> length (fr_fds f) \<le> MAX_FDS)"

definition put_frame :: "('m \<Rightarrow> byte list option) \<Rightarrow> kernel \<Rightarrow> 'm frame \<Rightarrow> wire" where
  "put_frame enc k f = fst (send enc k (fr_message f) (fr_payload f) (fr_fds f))"

definition put_frames :: "('m \<Rightarrow> byte list option) \<Rightarrow> kernel \<Rightarrow> 'm frame list \<Rightarrow> wire" where
  "put_frames enc k fs = concat (map (put_frame enc k) fs)"

text \<open>
  Receiving until the stream ends or fails. A frame has at least a header, so as many rounds
  as there are bytes, and one for the end, are enough.
\<close>

fun recv_rounds ::
  "nat \<Rightarrow> (byte list \<Rightarrow> 'm option) \<Rightarrow> kernel \<Rightarrow> wire \<Rightarrow> 'm frame list \<times> chan_error option" where
  "recv_rounds 0 dec k q = ([], None)"
| "recv_rounds (Suc n) dec k q =
     (case recv dec k q of
        Inl e \<Rightarrow> ([], Some e)
      | Inr (None, _) \<Rightarrow> ([], None)
      | Inr (Some f, q') \<Rightarrow> (case recv_rounds n dec k q' of (fs, e) \<Rightarrow> (f # fs, e)))"

definition recv_all :: "(byte list \<Rightarrow> 'm option) \<Rightarrow> kernel \<Rightarrow> wire \<Rightarrow> 'm frame list \<times> chan_error option" where
  "recv_all dec k q = recv_rounds (Suc (length q)) dec k q"

subsection \<open>Replies\<close>

definition reply_frame :: "reply \<Rightarrow> reply frame" where
  "reply_frame r = \<lparr>fr_message = r, fr_payload = [], fr_fds = []\<rparr>"

definition replies_on :: "fd \<Rightarrow> host \<Rightarrow> reply list" where
  "replies_on ch h = map snd (filter (\<lambda>(c, _). c = ch) (h_sent h))"

definition host_wire :: "(reply \<Rightarrow> byte list option) \<Rightarrow> kernel \<Rightarrow> fd \<Rightarrow> host \<Rightarrow> wire" where
  "host_wire enc k ch h = put_frames enc k (map reply_frame (replies_on ch h))"

definition inbox_of :: "(byte list \<Rightarrow> reply option) \<Rightarrow> kernel \<Rightarrow> wire \<Rightarrow> incoming list" where
  "inbox_of dec k q =
     (case recv_all dec k q of
        (fs, e) \<Rightarrow> map (\<lambda>f. Message (fr_message f)) fs @ (case e of None \<Rightarrow> [] | Some err \<Rightarrow> [Broken err]))"

subsection \<open>Lemmas\<close>

lemma put_frame_bytes:
  assumes "sends_all k" "sendable enc dec f"
  obtains json bs where "encode_frame json (fr_payload f) = Inr bs" "put_frame enc k f = attach (fr_fds f) bs"
    "dec json = Some (fr_message f)" "length json \<le> MAX_JSON_LEN" "length (fr_payload f) \<le> MAX_PAYLOAD_LEN"
    "length (fr_fds f) \<le> MAX_FDS" "HEADER_LEN \<le> length bs"
proof -
  obtain json where json: "enc (fr_message f) = Some json" "dec json = Some (fr_message f)"
    and len: "length json \<le> MAX_JSON_LEN" "length (fr_payload f) \<le> MAX_PAYLOAD_LEN" "length (fr_fds f) \<le> MAX_FDS"
    using assms(2) by (auto simp: sendable_def split: option.splits)
  from len(1,2) obtain bs where bs: "encode_frame json (fr_payload f) = Inr bs"
    by (auto simp: encode_frame_Inr MAX_JSON_LEN_def MAX_PAYLOAD_LEN_def)
  moreover have "put_frame enc k f = attach (fr_fds f) bs"
    using send_delivers [where enc = enc and m = "fr_message f", OF assms(1) json(1) bs] by (simp add: put_frame_def)
  moreover have "HEADER_LEN \<le> length bs" using frame_header(3) [OF bs] by simp
  ultimately show thesis using that json(2) len by blast
qed

lemma put_frame_length: "sends_all k \<Longrightarrow> sendable enc dec f \<Longrightarrow> 0 < length (put_frame enc k f)"
  by (erule (1) put_frame_bytes) (auto simp: HEADER_LEN_def)

lemma recv_put:
  assumes "sends_all k" "recvs_all k'" "sendable enc dec f"
  shows "recv dec k' (put_frame enc k f @ rest) = Inr (Some f, rest)"
proof (rule put_frame_bytes [OF assms(1,3)])
  fix json bs
  assume "encode_frame json (fr_payload f) = Inr bs" and put: "put_frame enc k f = attach (fr_fds f) bs"
    and "dec json = Some (fr_message f)" "length json \<le> MAX_JSON_LEN" "length (fr_payload f) \<le> MAX_PAYLOAD_LEN"
    "length (fr_fds f) \<le> MAX_FDS"
  then have "recv dec k' (attach (fr_fds f) bs @ rest)
      = Inr (Some \<lparr>fr_message = fr_message f, fr_payload = fr_payload f, fr_fds = fr_fds f\<rparr>, rest)"
    by (intro recv_frame [OF assms(2)])
  then show ?thesis by (simp add: put)
qed

lemma recv_cut:
  assumes "sends_all k" "recvs_all k'" "sendable enc dec f" "0 < n" "n < length (put_frame enc k f)"
  shows "recv dec k' (take n (put_frame enc k f)) = Inl ClosedInsideFrame"
proof (rule put_frame_bytes [OF assms(1,3)])
  fix json bs
  assume bs: "encode_frame json (fr_payload f) = Inr bs" and put: "put_frame enc k f = attach (fr_fds f) bs"
    and len: "length json \<le> MAX_JSON_LEN" "length (fr_payload f) \<le> MAX_PAYLOAD_LEN" "length (fr_fds f) \<le> MAX_FDS"
  have "n < length bs" using assms(5) by (simp add: put)
  from recv_truncated [OF assms(2) len(3) bs len(1,2) assms(4) this] show ?thesis by (simp add: put)
qed

lemma recv_nothing: "recvs_all k' \<Longrightarrow> recv dec k' [] = Inr (None, [])"
  using recv_header_short [of k' "[]" "[]" 0 "[]"] by (simp add: recv_def HEADER_LEN_def wire_fds_def)

lemma recv_rounds_cut:
  assumes "sends_all k" "recvs_all k'" "list_all (sendable enc dec) fs"
    and "length (take n (put_frames enc k fs)) < rounds"
  shows "\<exists>j e. recv_rounds rounds dec k' (take n (put_frames enc k fs)) = (take j fs, e)
    \<and> (e = None \<or> e = Some ClosedInsideFrame)
    \<and> (length (put_frames enc k fs) \<le> n \<longrightarrow> length fs \<le> j \<and> e = None)"
  using assms(3,4)
proof (induction fs arbitrary: n rounds)
  case Nil
  then obtain m where "rounds = Suc m" by (cases rounds) auto
  then show ?case by (auto simp: put_frames_def recv_nothing [OF assms(2)])
next
  case (Cons f fs)
  then obtain m where m: "rounds = Suc m" by (cases rounds) auto
  have f: "sendable enc dec f" and fs: "list_all (sendable enc dec) fs" using Cons.prems(1) by auto
  let ?p = "put_frame enc k f"
  have parts: "put_frames enc k (f # fs) = ?p @ put_frames enc k fs" by (simp add: put_frames_def)
  note pos = put_frame_length [OF assms(1) f]
  consider "n = 0" | "0 < n" "n < length ?p" | "length ?p \<le> n" by linarith
  then show ?case
  proof cases
    case 1
    then show ?thesis using m pos by (auto simp: recv_nothing [OF assms(2)] parts intro!: exI [of _ 0])
  next
    case 2
    then show ?thesis
      using m recv_cut [OF assms(1,2) f] by (auto simp: parts intro!: exI [of _ 0])
  next
    case 3
    have "length (take (n - length ?p) (put_frames enc k fs)) < m" using Cons.prems(2) 3 m pos
      by (simp add: parts del: length_greater_0_conv)
    from Cons.IH [OF fs this] obtain j e where
      je: "recv_rounds m dec k' (take (n - length ?p) (put_frames enc k fs)) = (take j fs, e)"
        "e = None \<or> e = Some ClosedInsideFrame"
        "length (put_frames enc k fs) \<le> n - length ?p \<longrightarrow> length fs \<le> j \<and> e = None" by blast
    then show ?thesis
      using m 3 recv_put [OF assms(1,2) f] by (intro exI [of _ "Suc j"] exI [of _ e]) (auto simp: parts)
  qed
qed

subsection \<open>Properties\<close>

text \<open>
  C14: a manager never reads what its host did not say. Cut the bytes of a host's replies at any
  point, as its death does: what the manager receives is the replies up to some point, in
  order, and then the end of the stream or the error of one that ends inside a frame; when
  nothing is cut off it is all of them and the end. The kernel may cut the bytes into calls as
  it likes on both sides.
\<close>

theorem inbox_is_a_prefix_of_the_replies:
  assumes "sends_all k" "recvs_all k'"
    and "list_all (\<lambda>r. sendable enc dec (reply_frame r)) (replies_on ch h)"
  shows "\<exists>j tail. inbox_of dec k' (take n (host_wire enc k ch h)) = map Message (take j (replies_on ch h)) @ tail
    \<and> (tail = [] \<or> tail = [Broken ClosedInsideFrame])
    \<and> (length (host_wire enc k ch h) \<le> n \<longrightarrow> length (replies_on ch h) \<le> j \<and> tail = [])"
proof -
  have "list_all (sendable enc dec) (map reply_frame (replies_on ch h))"
    using assms(3) by (simp add: list.pred_map comp_def)
  from recv_rounds_cut [OF assms(1,2) this lessI, of n] obtain j e where
    "recv_all dec k' (take n (host_wire enc k ch h)) = (take j (map reply_frame (replies_on ch h)), e)"
    "e = None \<or> e = Some ClosedInsideFrame"
    "length (host_wire enc k ch h) \<le> n \<longrightarrow> length (replies_on ch h) \<le> j \<and> e = None"
    unfolding recv_all_def host_wire_def length_map by blast
  then show ?thesis
    by (intro exI [of _ j] exI [of _ "case e of None \<Rightarrow> [] | Some err \<Rightarrow> [Broken err]"])
      (auto simp: inbox_of_def reply_frame_def take_map comp_def)
qed

text \<open>A codec for the one reply of \<open>demo_serving\<close>.\<close>

definition ready_enc :: "reply \<Rightarrow> byte list option" where
  "ready_enc r = (case r of Ready t \<Rightarrow> Some (map byte_of_char t) | _ \<Rightarrow> None)"

definition ready_dec :: "byte list \<Rightarrow> reply option" where
  "ready_dec bs = Some (Ready (map char_of_byte bs))"

theorem inbox_is_a_prefix_of_the_replies_witness:
  "\<exists>j tail. inbox_of ready_dec slow_kernel (take 11 (host_wire ready_enc slow_kernel 3 demo_serving))
       = map Message (take j [Ready ''127.0.0.1:70'']) @ tail \<and> (tail = [] \<or> tail = [Broken ClosedInsideFrame])"
proof -
  have replies: "replies_on 3 demo_serving = [Ready ''127.0.0.1:70'']"
    by (simp add: replies_on_def demo_serving_facts)
  have "list_all (\<lambda>r. sendable ready_enc ready_dec (reply_frame r)) (replies_on 3 demo_serving)"
    by (simp add: replies sendable_def reply_frame_def ready_enc_def ready_dec_def comp_def MAX_JSON_LEN_def)
  from inbox_is_a_prefix_of_the_replies [OF slow_kernel_ok this, of 11] replies show ?thesis by auto
qed

end
