(* ===== verification/Packages.thy ===== *)
theory Packages
  imports Discovery Recipes
begin

text \<open>
  The repository's own tests of packages, run on the model: the test modules of
  \<open>src/crates/servicecache/src/manifest.rs\<close>, \<open>discovery.rs\<close> and \<open>serve/recipes.rs\<close>. Their
  temporary directories are a file system of files, directories and symbolic links, whose view
  resolves links as \<open>realpath\<close> does; the TOML texts are given as the tables they parse to.
\<close>

subsection \<open>A file system\<close>

datatype node = FileOf string | DirNode | LinkTo path | Device

type_synonym disk = "(path \<times> node) list"

text \<open>
  \<open>realpath\<close> walks the components from the root, replacing a link by its target; the fuel
  bounds the components and links walked, as the kernel bounds the links.
\<close>

fun realpath :: "nat \<Rightarrow> disk \<Rightarrow> path \<Rightarrow> path \<Rightarrow> io_error + path" where
  "realpath fuel d walked [] = Inr walked"
| "realpath 0 d walked (c # cs) = Inl (OtherIo ''too many levels of symbolic links'')"
| "realpath (Suc n) d walked (RootDir # cs) = realpath n d [RootDir] cs"
| "realpath (Suc n) d walked (CurDir # cs) = realpath n d walked cs"
| "realpath (Suc n) d walked (ParentDir # cs) = realpath n d (if walked = [RootDir] then walked else butlast walked) cs"
| "realpath (Suc n) d walked (Normal s # cs) =
     (case map_of d (walked @ [Normal s]) of
        None \<Rightarrow> Inl NotFound
      | Some (LinkTo target) \<Rightarrow> realpath n d walked (target @ cs)
      | Some _ \<Rightarrow> realpath n d (walked @ [Normal s]) cs)"

definition canonical_in :: "disk \<Rightarrow> path \<Rightarrow> io_error + path" where
  "canonical_in d p = realpath 64 d [RootDir] p"

definition node_at :: "disk \<Rightarrow> path \<Rightarrow> node option" where
  "node_at d p = (case canonical_in d p of Inl _ \<Rightarrow> None | Inr q \<Rightarrow> if q = [RootDir] then Some DirNode else map_of d q)"

definition content_at :: "disk \<Rightarrow> path \<Rightarrow> io_error + string" where
  "content_at d p = (case node_at d p of Some (FileOf text) \<Rightarrow> Inr text | _ \<Rightarrow> Inl NotFound)"

definition disk_view :: "disk \<Rightarrow> fs_view" where
  "disk_view d =
     \<lparr>fs_canonicalize = canonical_in d,
      fs_is_file = (\<lambda>p. case node_at d p of Some (FileOf _) \<Rightarrow> True | _ \<Rightarrow> False),
      fs_is_dir = (\<lambda>p. node_at d p = Some DirNode),
      fs_read = (\<lambda>p. case content_at d p of Inl e \<Rightarrow> Inl e | Inr text \<Rightarrow> Inr (map byte_of_char text)),
      fs_read_to_string = content_at d\<rparr>"

text \<open>What the directory iterator and \<open>File::open\<close> give; entries come in the order of the list.\<close>

definition listing :: "disk \<Rightarrow> read_dir" where
  "listing d dir =
     (case (canonical_in d dir, node_at d dir) of
        (Inr real, Some DirNode) \<Rightarrow>
          Inr (map (\<lambda>(p, n). Inr \<lparr>de_name = show_component (last p),
                                   de_type = Inr (case n of DirNode \<Rightarrow> FtDir | LinkTo _ \<Rightarrow> FtSymlink | _ \<Rightarrow> FtOther)\<rparr>)
                 (filter (\<lambda>(p, _). butlast p = real) d))
      | _ \<Rightarrow> Inl NotFound)"

definition opened_in :: "disk \<Rightarrow> open_file" where
  "opened_in d text =
     (let p = components text in
      case (canonical_in d p, node_at d p) of
        (Inr real, Some (FileOf content)) \<Rightarrow>
          Inr \<lparr>of_is_file = True, of_len = length content, of_real = Inr real,
               of_content = Inr (map byte_of_char content)\<rparr>
      | (Inr real, Some Device) \<Rightarrow> Inr \<lparr>of_is_file = False, of_len = 0, of_real = Inr real, of_content = Inr []\<rparr>
      | (Inr real, Some DirNode) \<Rightarrow>
          Inr \<lparr>of_is_file = False, of_len = 0, of_real = Inr real, of_content = Inl ''is a directory''\<rparr>
      | _ \<Rightarrow> Inl ''no such file or directory'')"

subsection \<open>Test directories\<close>

definition test_path :: "string \<Rightarrow> path" where
  "test_path name = [RootDir, Normal ''tmp'', Normal name]"

definition in_dir :: "path \<Rightarrow> string \<Rightarrow> path" where
  "in_dir dir name = join_path dir (components name)"

text \<open>\<open>TestDirectory\<close>: a new directory under the temporary one, and files written in it.\<close>

definition test_directory :: "string \<Rightarrow> (string \<times> string) list \<Rightarrow> disk" where
  "test_directory name files =
     (test_path name, DirNode) # map (\<lambda>(f, content). (in_dir (test_path name) f, FileOf content)) files"

definition tmp_dir :: disk where
  "tmp_dir = [([RootDir, Normal ''tmp''], DirNode)]"

subsection \<open>Manifests\<close>

text \<open>The tables of the tests: service \<open>example\<close>, version 1, listening on port 1234.\<close>

definition test_raw :: "string \<Rightarrow> raw_manifest" where
  "test_raw module =
     \<lparr>rm_service = \<lparr>sv_name = ''example'', sv_version = ''1'', sv_extensions = []\<rparr>,
      rm_prepare = None,
      rm_guest = \<lparr>rg_module = components module, rg_args = [], rg_listen_port = 1234, rg_ready = None\<rparr>,
      rm_initializer = None\<rparr>"

definition test_prepare :: "(string \<times> string) list \<Rightarrow> string option \<Rightarrow> string option \<Rightarrow> raw_manifest \<Rightarrow> raw_manifest" where
  "test_prepare mounts module stdin raw =
     raw\<lparr>rm_prepare := Some \<lparr>rw_fs = map (map_prod components components) mounts,
            rw_module = map_option components module, rw_args = [''--prepare''],
            rw_stdin_file = map_option components stdin\<rparr>\<rparr>"

definition test_ready :: "string \<Rightarrow> string \<Rightarrow> raw_manifest \<Rightarrow> raw_manifest" where
  "test_ready send matches raw =
     raw\<lparr>rm_guest := (rm_guest raw)\<lparr>rg_ready := Some \<lparr>rw_send = send, rw_matches = matches\<rparr>\<rparr>\<rparr>"

text \<open>The two patterns of the tests, as what they match.\<close>

definition OK_PATTERN :: string where
  "OK_PATTERN = ''^ok'' @ [backslash] @ ''x00''"

definition GREETING_PATTERN :: string where
  "GREETING_PATTERN = ''(?s-u)'' @ [backslash] @ ''A.{2}'' @ [backslash] @ ''x02''"

definition test_regex :: "string \<Rightarrow> (byte list \<Rightarrow> bool) option" where
  "test_regex pattern =
     (if pattern = OK_PATTERN then Some (\<lambda>bs. take 3 bs = [0x6F, 0x6B, 0])
      else if pattern = GREETING_PATTERN then Some (\<lambda>bs. 3 \<le> length bs \<and> bs ! 2 = 2)
      else None)"

definition load_in :: "disk \<Rightarrow> raw_manifest option \<Rightarrow> manifest_error + manifest" where
  "load_in d raw =
     load (\<lambda>_. raw) test_regex (disk_view (tmp_dir @ (in_dir (test_path ''t'') ''service.toml'', FileOf []) # d))
       (in_dir (test_path ''t'') ''service.toml'')"

abbreviation in_t :: "string \<Rightarrow> path" where
  "in_t \<equiv> in_dir (test_path ''t'')"

definition one_module :: disk where
  "one_module = test_directory ''t'' [(''server.wasm'', ''module'')]"

definition resolves_relative_module_paths :: bool where
  "resolves_relative_module_paths =
     (case load_in one_module (Some (test_raw ''server.wasm'')) of
        Inr m \<Rightarrow> gs_module (mf_guest m) = in_t ''server.wasm'' | Inl _ \<Rightarrow> False)"

definition rejects_paths_that_leave_the_package :: bool where
  "rejects_paths_that_leave_the_package =
     (let outside = test_directory ''o'' [(''server.wasm'', ''module'')];
          link = (in_t ''server.wasm'', LinkTo (in_dir (test_path ''o'') ''server.wasm''))
      in (case load_in (test_directory ''t'' [] @ outside) (Some (test_raw ''../server.wasm'')) of
            Inl (NotPlainRelative _ _) \<Rightarrow> True | _ \<Rightarrow> False)
         \<and> (case load_in (link # test_directory ''t'' [] @ outside) (Some (test_raw ''server.wasm'')) of
              Inl (ResolvesOutside _ _) \<Rightarrow> True | _ \<Rightarrow> False))"

definition mounts_the_package_root_as_a_source :: bool where
  "mounts_the_package_root_as_a_source =
     (case load_in one_module (Some (test_prepare [(''/service'', ''.'')] None None (test_raw ''server.wasm''))) of
        Inr m \<Rightarrow>
          (case mf_prepare m of
             Some t \<Rightarrow> map_of (pr_fs t) (components ''/service'') = Some (test_path ''t'') | None \<Rightarrow> False)
          \<and> sv_extensions (mf_service m) = []
      | Inl _ \<Rightarrow> False)"

definition byte_strings_decode_strictly :: bool where
  "byte_strings_decode_strictly =
     (decode_byte_string (''user'' @ [backslash] @ ''x00example'' @ [backslash] @ ''x00'' @ [backslash, backslash])
        = Inr (map byte_of_char ''user'' @ [0] @ map byte_of_char ''example'' @ [0, byte_of_char backslash])
      \<and> decode_byte_string [] = Inr []
      \<and> list_all (\<lambda>bad. \<not> is_ok (decode_byte_string bad))
          [[backslash] @ ''q'', [backslash] @ ''x0'', [backslash] @ ''x0g'', [backslash],
           ''caf'' @ [CHR 0xE9], ''tab'' @ [CHR 0x09] @ ''here''])"

definition ready_probes_are_parsed :: bool where
  "ready_probes_are_parsed =
     (case load_in one_module (Some (test_ready ([backslash] @ ''x00ping'') OK_PATTERN (test_raw ''server.wasm''))) of
        Inr m \<Rightarrow>
          (case gs_ready (mf_guest m) of
             Some probe \<Rightarrow>
               rp_send probe = 0 # map byte_of_char ''ping''
               \<and> rp_matches probe (map byte_of_char ''ok'' @ [0] @ map byte_of_char ''v1'')
               \<and> \<not> rp_matches probe (map byte_of_char ''no'' @ [0] @ map byte_of_char ''starting'')
           | None \<Rightarrow> False)
      | Inl _ \<Rightarrow> False)"

definition a_probe_may_send_nothing_where_the_server_speaks_first :: bool where
  "a_probe_may_send_nothing_where_the_server_speaks_first =
     (case load_in one_module (Some (test_ready [] GREETING_PATTERN (test_raw ''server.wasm''))) of
        Inr m \<Rightarrow>
          (case gs_ready (mf_guest m) of
             Some probe \<Rightarrow>
               rp_send probe = [] \<and> rp_matches probe ([0x0A, 0x80, 0x02] @ map byte_of_char ''hello'')
               \<and> \<not> rp_matches probe [0x0A, 0x80, 0x03]
           | None \<Rightarrow> False)
      | Inl _ \<Rightarrow> False)"

definition service_extensions_are_parsed :: bool where
  "service_extensions_are_parsed =
     (let raw = test_raw ''server.wasm'' in
      case load_in one_module (Some (raw\<lparr>rm_service := (rm_service raw)\<lparr>sv_extensions := [''ictrobot_shm_v1'']\<rparr>\<rparr>)) of
        Inr m \<Rightarrow> sv_extensions (mf_service m) = [''ictrobot_shm_v1''] | Inl _ \<Rightarrow> False)"

definition rejects_mount_sources_that_leave_the_package :: bool where
  "rejects_mount_sources_that_leave_the_package =
     (case load_in one_module
             (Some (test_prepare [(''/usr/share/example'', ''../share'')] None None (test_raw ''server.wasm''))) of
        Inl (NotPlainRelative _ _) \<Rightarrow> True | _ \<Rightarrow> False)"

definition follows_symlinks_that_stay_inside_the_package :: bool where
  "follows_symlinks_that_stay_inside_the_package =
     (case load_in ((in_t ''server.wasm'', LinkTo (components ''real.wasm'')) # test_directory ''t'' [(''real.wasm'', ''module'')])
             (Some (test_raw ''server.wasm'')) of
        Inr m \<Rightarrow> gs_module (mf_guest m) = in_t ''server.wasm'' | Inl _ \<Rightarrow> False)"

definition all_tables :: raw_manifest where
  "all_tables =
     (let raw = test_prepare [(''/usr/share/example'', ''share'')] (Some ''prepare.wasm'') (Some ''bootstrap.sql'')
                  (test_raw ''server.wasm'')
      in raw\<lparr>rm_guest := (rm_guest raw)\<lparr>rg_args := [''--serve'']\<rparr>,
             rm_initializer := Some \<lparr>ri_module = components ''client.wasm'', ri_args = [''--initialize'']\<rparr>\<rparr>)"

definition resolves_all_run_tables_and_mounts :: bool where
  "resolves_all_run_tables_and_mounts =
     (let d = (in_t ''share'', DirNode) # test_directory ''t''
            [(''prepare.wasm'', ''prepare''), (''bootstrap.sql'', ''select 1;'' @ [CHR 0x0A]),
             (''server.wasm'', ''server''), (''client.wasm'', ''client'')]
      in case load_in d (Some all_tables) of
           Inr m \<Rightarrow>
             (case mf_prepare m of
                Some t \<Rightarrow>
                  map_of (pr_fs t) (components ''/usr/share/example'') = Some (in_t ''share'')
                  \<and> pr_module t = Some (in_t ''prepare.wasm'') \<and> pr_stdin_file t = Some (in_t ''bootstrap.sql'')
                  \<and> read_stdin (disk_view (tmp_dir @ d)) t = Inr (map byte_of_char (''select 1;'' @ [CHR 0x0A]))
              | None \<Rightarrow> False)
             \<and> gs_module (mf_guest m) = in_t ''server.wasm''
             \<and> map_option in_module (mf_initializer m) = Some (in_t ''client.wasm'')
             \<and> length (modules m) = 3
         | Inl _ \<Rightarrow> False)"

definition rejects_absolute_and_missing_modules :: bool where
  "rejects_absolute_and_missing_modules =
     ((case load_in (test_directory ''t'' []) (Some (test_raw ''/server.wasm'')) of
         Inl (NotPlainRelative _ _) \<Rightarrow> True | _ \<Rightarrow> False)
      \<and> (case load_in (test_directory ''t'' []) (Some (test_raw ''missing.wasm'')) of
           Inl (NotAFile _ _) \<Rightarrow> True | _ \<Rightarrow> False))"

definition rejects_absolute_and_missing_mount_sources :: bool where
  "rejects_absolute_and_missing_mount_sources =
     ((case load_in one_module (Some (test_prepare [(''/mounted'', ''/host'')] None None (test_raw ''server.wasm''))) of
         Inl (NotPlainRelative _ _) \<Rightarrow> True | _ \<Rightarrow> False)
      \<and> (case load_in one_module (Some (test_prepare [(''/mounted'', ''missing'')] None None (test_raw ''server.wasm''))) of
           Inl (NotADirectory _) \<Rightarrow> True | _ \<Rightarrow> False))"

definition rejects_absolute_and_missing_prepare_stdin_files :: bool where
  "rejects_absolute_and_missing_prepare_stdin_files =
     (let d = test_directory ''t'' [(''prepare.wasm'', ''prepare''), (''server.wasm'', ''server'')] in
      (case load_in d (Some (test_prepare [] (Some ''prepare.wasm'') (Some ''/bootstrap.sql'') (test_raw ''server.wasm''))) of
         Inl (NotPlainRelative _ _) \<Rightarrow> True | _ \<Rightarrow> False)
      \<and> (case load_in d (Some (test_prepare [] (Some ''prepare.wasm'') (Some ''missing.sql'') (test_raw ''server.wasm''))) of
           Inl (NotAFile _ _) \<Rightarrow> True | _ \<Rightarrow> False))"

lemma manifest_tests_pass:
  resolves_relative_module_paths rejects_paths_that_leave_the_package mounts_the_package_root_as_a_source
  byte_strings_decode_strictly ready_probes_are_parsed a_probe_may_send_nothing_where_the_server_speaks_first
  service_extensions_are_parsed rejects_mount_sources_that_leave_the_package
  follows_symlinks_that_stay_inside_the_package resolves_all_run_tables_and_mounts
  rejects_absolute_and_missing_modules rejects_absolute_and_missing_mount_sources
  rejects_absolute_and_missing_prepare_stdin_files
  by code_simp+

subsection \<open>Discovery\<close>

text \<open>\<open>TestDirectory::package\<close>: a package directory with a module and a manifest.\<close>

definition test_package :: "string \<Rightarrow> string \<Rightarrow> string \<Rightarrow> disk" where
  "test_package dir name marker =
     (let at = in_dir (test_path dir) name in
      [(at, DirNode), (in_dir at ''module.wasm'', FileOf marker), (in_dir at ''service.toml'', FileOf [])])"

definition discover_in :: "disk \<Rightarrow> string list \<Rightarrow> discover_error + service_index" where
  "discover_in d dirs =
     discover (listing (tmp_dir @ d)) (\<lambda>_. Some (test_raw ''module.wasm'')) test_regex (disk_view (tmp_dir @ d))
       (map test_path dirs)"

text \<open>The first selected package and its shadows, by their directories.\<close>

definition first_selected :: "discover_error + service_index \<Rightarrow> (path \<times> path list) option" where
  "first_selected r =
     (case r of
        Inl _ \<Rightarrow> None
      | Inr index \<Rightarrow>
          (case iter_packages index of
             [] \<Rightarrow> None
           | p # _ \<Rightarrow> Some (mf_directory (dp_manifest p), map sp_directory (dp_shadowed p))))"

definition first_package_wins_and_later_package_is_shadowed :: bool where
  "first_package_wins_and_later_package_is_shadowed =
     (let d = test_directory ''1'' [] @ test_package ''1'' ''first'' ''one''
              @ test_directory ''2'' [] @ test_package ''2'' ''second'' ''two''
      in first_selected (discover_in d [''1'', ''2''])
           = Some (in_dir (test_path ''1'') ''first'', [in_dir (test_path ''2'') ''second'']))"

definition module_selected :: "discover_error + service_index \<Rightarrow> (path \<times> path) option" where
  "module_selected r =
     (case r of
        Inl _ \<Rightarrow> None
      | Inr index \<Rightarrow>
          (case select index ''example'' (Some ''1'') of
             Inl _ \<Rightarrow> None | Inr m \<Rightarrow> Some (mf_directory m, gs_module (mf_guest m))))"

definition follows_package_links_and_keeps_the_selected_target :: bool where
  "follows_package_links_and_keeps_the_selected_target =
     (let packages = test_directory ''p'' [] @ test_package ''p'' ''first'' ''one'' @ test_package ''p'' ''second'' ''two'';
          installed = (\<lambda>target. test_directory ''i'' []
             @ [(in_dir (test_path ''i'') ''current'', LinkTo (in_dir (test_path ''p'') target)),
                (in_dir (test_path ''i'') ''stale'', LinkTo (in_dir (test_path ''p'') ''missing''))] @ packages);
          before = installed ''first'';
          after = installed ''second''
      in case (module_selected (discover_in before [''i'']), module_selected (discover_in after [''i''])) of
           (Some (selected, module), Some (_, updated)) \<Rightarrow>
             selected = in_dir (test_path ''p'') ''first''
             \<and> content_at (tmp_dir @ after) module = Inr ''one''
             \<and> content_at (tmp_dir @ after) updated = Inr ''two''
         | _ \<Rightarrow> False)"

definition linked_packages_follow_installation_name_order :: bool where
  "linked_packages_follow_installation_name_order =
     (let d = test_directory ''p'' [] @ test_package ''p'' ''a'' ''one'' @ test_package ''p'' ''z'' ''two''
              @ test_directory ''i'' []
              @ [(in_dir (test_path ''i'') ''a'', LinkTo (in_dir (test_path ''p'') ''z'')),
                 (in_dir (test_path ''i'') ''z'', LinkTo (in_dir (test_path ''p'') ''a''))]
      in first_selected (discover_in d [''i''])
           = Some (in_dir (test_path ''p'') ''z'', [in_dir (test_path ''p'') ''a'']))"

lemma discovery_tests_pass:
  first_package_wins_and_later_package_is_shadowed follows_package_links_and_keeps_the_selected_target
  linked_packages_follow_installation_name_order
  by code_simp+

subsection \<open>Recipes\<close>

definition MAX_TEST_RECIPE :: nat where
  "MAX_TEST_RECIPE = 1024"

definition recipe_disk :: "(string \<times> string) list \<Rightarrow> disk" where
  "recipe_disk files =
     tmp_dir @ ([RootDir, Normal ''dev''], DirNode) # ([RootDir, Normal ''dev'', Normal ''null''], Device)
     # test_directory ''r'' files"

definition read_in :: "disk \<Rightarrow> string list \<Rightarrow> problem + byte list" where
  "read_in d paths =
     (case new_roots (disk_view d) [test_path ''r''] of
        Inl _ \<Rightarrow> Inr []
      | Inr roots \<Rightarrow> read_recipe_files roots (opened_in d) paths MAX_TEST_RECIPE)"

definition slug :: "problem + byte list \<Rightarrow> string option" where
  "slug r = (case r of Inr _ \<Rightarrow> None | Inl p \<Rightarrow> Some (drop (length URN) (pb_kind p)))"

definition line :: "string \<Rightarrow> string" where
  "line text = text @ [CHR 0x0A]"

definition files_concatenate_in_order_with_newlines_supplied :: bool where
  "files_concatenate_in_order_with_newlines_supplied =
     (let schema = line ''CREATE TABLE t (x INT);''; data = ''INSERT INTO t VALUES (1);''; more = ''-- no newline'';
          d = recipe_disk [(''schema.sql'', schema), (''data.sql'', data), (''more.sql'', more)]
      in read_in d [''/tmp/r/schema.sql'', ''/tmp/r/data.sql''] = Inr (map byte_of_char (schema @ data))
         \<and> read_in d [''/tmp/r/more.sql'', ''/tmp/r/data.sql''] = Inr (map byte_of_char (line more @ data)))"

definition relative_and_missing_and_irregular_paths_are_invalid :: bool where
  "relative_and_missing_and_irregular_paths_are_invalid =
     (let d = recipe_disk [] in
      slug (read_in d [''schema.sql'']) = Some ''recipe-file-invalid''
      \<and> slug (read_in d [''/tmp/r/absent.sql'']) = Some ''recipe-file-invalid''
      \<and> slug (read_in d [''/dev/null'']) = Some ''recipe-file-invalid'')"

definition files_outside_every_root_are_refused :: bool where
  "files_outside_every_root_are_refused =
     (slug (read_in (recipe_disk [] @ test_directory ''e'' [(''schema.sql'', line ''SELECT 1;'')]) [''/tmp/e/schema.sql''])
        = Some ''recipe-files-refused'')"

definition a_symlink_out_of_the_root_is_refused :: bool where
  "a_symlink_out_of_the_root_is_refused =
     (let d = recipe_disk [] @ test_directory ''e'' [(''secret.sql'', line ''SELECT 1;'')]
              @ [(in_dir (test_path ''r'') ''innocent.sql'', LinkTo (in_dir (test_path ''e'') ''secret.sql''))]
      in slug (read_in d [''/tmp/r/innocent.sql'']) = Some ''recipe-files-refused'')"

definition half_disk :: "string \<Rightarrow> disk" where
  "half_disk content = recipe_disk [(''half.sql'', content)]"

definition the_size_cap_holds_across_files :: bool where
  "the_size_cap_holds_across_files =
     (let d = half_disk (replicate 600 (CHR ''a'')) in
      slug (read_in d [''/tmp/r/half.sql'', ''/tmp/r/half.sql'']) = Some ''recipe-too-large''
      \<and> (case read_in d [''/tmp/r/half.sql''] of Inr recipe \<Rightarrow> length recipe = 600 | Inl _ \<Rightarrow> False))"

definition a_missing_root_stops_the_server :: bool where
  "a_missing_root_stops_the_server =
     (\<not> is_ok (new_roots (disk_view (recipe_disk [])) [in_dir (test_path ''r'') ''absent'']))"

lemma recipe_tests_pass:
  files_concatenate_in_order_with_newlines_supplied relative_and_missing_and_irregular_paths_are_invalid
  files_outside_every_root_are_refused a_symlink_out_of_the_root_is_refused a_missing_root_stops_the_server
  by code_simp+

lemma half_opened:
  "opened_in (half_disk content) ''/tmp/r/half.sql'' =
     Inr \<lparr>of_is_file = True, of_len = length content, of_real = Inr (in_dir (test_path ''r'') ''half.sql''),
          of_content = Inr (map byte_of_char content)\<rparr>"
  by code_simp

lemma half_roots: "new_roots (disk_view (half_disk content)) [test_path ''r''] = Inr [test_path ''r'']"
  by code_simp

lemma half_path:
  "is_absolute (components ''/tmp/r/half.sql'')" "roots_contain [test_path ''r''] (in_dir (test_path ''r'') ''half.sql'')"
  by code_simp+

lemma size_cap_test_passes: the_size_cap_holds_across_files
  by (simp add: the_size_cap_holds_across_files_def read_in_def half_roots read_recipe_files_def read_one_def half_opened
      half_path and_then_def MAX_TEST_RECIPE_def slug_def recipe_too_large_def new_problem_def with_detail_def URN_def Let_def
      del: new_roots.simps)

end
