(* ===== verification/UnitTests.thy ===== *)
theory UnitTests
  imports Packages Probe Host Cli Logging Title Runtime Tasks Http
begin

text \<open>
  The repository's other unit tests, run on the model: those of the module cache, the runtime's
  file system, logging, the server's and the API's helpers, the command line, titles, timers,
  the control channel, module paths and the readiness probe. What a test takes from its
  surroundings (a home directory, random bytes, a socket's answers) is given in its definition;
  assertions about third-party code alone are left out.
\<close>

definition text_bytes :: "string \<Rightarrow> byte list" where
  "text_bytes = map byte_of_char"

definition contains_text :: "string \<Rightarrow> string \<Rightarrow> bool" where
  "contains_text s pattern = list_ex (\<lambda>n. take (length pattern) (drop n s) = pattern) [0..<Suc (length s)]"

definition ends_with :: "path \<Rightarrow> string \<Rightarrow> bool" where
  "ends_with p name = suffix (components name) p"

subsection \<open>The module cache\<close>

definition directory_prefers_flag_then_environment :: bool where
  "directory_prefers_flag_then_environment =
     (directory (Some (components ''/flag'')) (Some ''/env'') None (Some ''/home/u'') = Inr (components ''/flag'')
      \<and> directory None (Some ''/env'') None (Some ''/home/u'') = Inr (components ''/env'')
      \<and> (case directory None (Some []) None (Some ''/home/u'') of
           Inr chosen \<Rightarrow> ends_with chosen ''servicecache'' | Inl _ \<Rightarrow> False))"

text \<open>
  A compiler that fails shows that the second load does not compile; a removed directory is
  gone for the second \<open>clean\<close>.
\<close>

definition same_bytes_under_another_name_are_a_hit_and_clean_removes_it :: bool where
  "same_bytes_under_another_name_are_a_hit_and_clean_removes_it =
     (let read = (\<lambda>name. if name \<in> {''stdio-net.wasm'', ''a-different-name''} then Inr [7, 8] else Inl NotFound);
          first = load_module demo_compiler [RootDir] 1 None None None (read ''stdio-net.wasm'') (\<lambda>_. None) (\<lambda>_. None)
      in fst first = Inr [7, 8]
         \<and> fst (load_module (demo_compiler\<lparr>cc_compile := (\<lambda>_. Inl ''must not compile'')\<rparr>) [RootDir] 1 None None None
                 (read ''a-different-name'') (snd first) (snd first)) = Inr [7, 8]
         \<and> clean None = Inr True \<and> clean (Some NotFound) = Inr False)"

definition path_and_wasix_cache_interfaces_share_an_entry :: bool where
  "path_and_wasix_cache_interfaces_share_an_entry =
     (let bytes = text_bytes ''wasm'';
          files = snd (load_module demo_compiler [RootDir] 1 None None None (Inr bytes) (\<lambda>_. None) (\<lambda>_. None));
          key = cc_hash demo_compiler bytes
      in wasix_contains demo_compiler [RootDir] key files
         \<and> wasix_load demo_compiler [RootDir] key files = Some bytes)"

text \<open>Four processes miss; whoever has the lock compiles, the others find the entry stored.\<close>

definition concurrent_misses_compile_once :: bool where
  "concurrent_misses_compile_once =
     (let misses = map (\<lambda>pid. CaLook pid [7]) [1, 2, 3, 4];
          compile = [CaLock 1, CaCompile 1, CaWritten 1, CaRename 1];
          rest = map CaLock [2, 3, 4]
      in case cache_run demo_compiler [RootDir] (misses @ compile @ rest) empty_cache of
           None \<Rightarrow> False
         | Some w \<Rightarrow> list_all (\<lambda>pid. cw_stage w pid = CacheLoaded [7] [7]) [1, 2, 3, 4]
                     \<and> list_all (\<lambda>pid. cache_step demo_compiler [RootDir] (CaCompile pid) w = None) [1, 2, 3, 4])"

lemma cache_tests_pass:
  directory_prefers_flag_then_environment same_bytes_under_another_name_are_a_hit_and_clean_removes_it
  path_and_wasix_cache_interfaces_share_an_entry
  by code_simp+

lemma concurrent_test_passes: concurrent_misses_compile_once
  by (simp add: concurrent_misses_compile_once_def move_to_def give_up_def holds_def unlock_def load_entry_def empty_cache_def
      demo_compiler_def cache_entry_def partial_entry_def entry_dir_def engine_key_def)

subsection \<open>The runtime's file system\<close>

text \<open>
  A host directory with one file; the mount table sends a call to the mount its path is under.
\<close>

definition host_files :: "(string, string) file_system" where
  "host_files call content =
     (case call of
        OpenFile p opts \<Rightarrow>
          if p = components ''/input.txt''
          then (Inr content, if oo_write opts \<or> oo_truncate opts then [] else content)
          else (Inl (FsOther ''not found''), content)
      | _ \<Rightarrow> (Inl (FsOther ''unsupported''), content))"

definition mounted_open ::
  "(path \<times> (string, string) file_system) list \<Rightarrow> string \<Rightarrow> open_options \<Rightarrow> string \<Rightarrow> (fs_error + string) \<times> string" where
  "mounted_open mounts p opts s =
     (case map (\<lambda>(guest, fs). fs (OpenFile (RootDir # the (strip_prefix (components p) guest)) opts) s)
             (filter (\<lambda>(guest, _). starts_with (components p) guest) mounts) of
        [] \<Rightarrow> (Inl (FsOther ''not mounted''), s) | r # _ \<Rightarrow> r)"

definition reading :: open_options where
  "reading = \<lparr>oo_read = True, oo_write = False, oo_create_new = False, oo_create = False, oo_append = False,
     oo_truncate = False\<rparr>"

definition filesystem_has_read_only_host_mounts :: bool where
  "filesystem_has_read_only_host_mounts =
     (case read_only_mounts (\<lambda>_. Inr host_files) (\<lambda>guest fs table. Inr ((guest, fs) # table)) []
             [\<lparr>rom_guest = components ''/mounted'', rom_host = components ''/tmp/t''\<rparr>] of
        Inl _ \<Rightarrow> False
      | Inr filesystem \<Rightarrow>
          mounted_open filesystem ''/mounted/input.txt'' reading ''mounted'' = (Inr ''mounted'', ''mounted'')
          \<and> mounted_open filesystem ''/mounted/input.txt'' (reading\<lparr>oo_write := True\<rparr>) ''mounted''
              = (Inl FsPermissionDenied, ''mounted''))"

subsection \<open>Logging\<close>

definition levels_name_their_targets :: bool where
  "levels_name_their_targets =
     (contains_text (directives_for 2) ''servicecache=debug''
      \<and> contains_text (directives_for 3) ''wasmer_vm::trap::suspend=trace''
      \<and> directives_for 9 = ''trace'')"

subsection \<open>The server and its API\<close>

definition ttls_are_bounded :: bool where
  "ttls_are_bounded =
     (ttl_duration None = Inr None \<and> ttl_duration (Some 2) = Inr (Some (2 * SECOND))
      \<and> \<not> is_ok (ttl_duration (Some 0)) \<and> \<not> is_ok (ttl_duration (Some (MAX_TTL_SECONDS + 1))))"

definition ids_are_distinct_hex :: "byte list \<Rightarrow> byte list \<Rightarrow> bool" where
  "ids_are_distinct_hex random random' =
     (case (new_id (Inr random), new_id (Inr random')) of
        (Inr first, Inr second) \<Rightarrow>
          length first = 16 \<and> list_all (\<lambda>c. to_digit16 c \<noteq> None) first \<and> first \<noteq> second
      | _ \<Rightarrow> False)"

definition problems_have_stable_types :: bool where
  "problems_have_stable_types =
     (let problem = unknown_service ''example'' None in
      pb_kind problem = ''urn:servicecache:unknown-service'' \<and> is_problem problem ''unknown-service''
      \<and> \<not> is_problem problem ''unknown-instance'' \<and> pb_status problem = 404)"

definition endpoints_round_trip_through_text :: bool where
  "endpoints_round_trip_through_text =
     (case parse_addr ''127.0.0.1:3456'' of
        None \<Rightarrow> False | Some address \<Rightarrow> socket_addr (endpoint_from address) = Some address)"

lemma server_tests_pass:
  filesystem_has_read_only_host_mounts levels_name_their_targets problems_have_stable_types
  by code_simp+

lemma ttls_test_passes: ttls_are_bounded
  by (simp add: ttls_are_bounded_def ttl_duration_def MAX_TTL_SECONDS_def)

lemma endpoints_test_passes: endpoints_round_trip_through_text
proof -
  have "show_addr \<lparr>sa_ip = LOCALHOST, sa_port = 3456\<rparr> = ''127.0.0.1:3456''"
    by (simp add: show_addr_def show_ip_def show_port_def LOCALHOST_def show_nat.simps char_of_def bit_0)
  then have "parse_addr ''127.0.0.1:3456'' = Some \<lparr>sa_ip = LOCALHOST, sa_port = 3456\<rparr>"
    by (metis parse_show_addr)
  then show ?thesis by (simp add: endpoints_round_trip_through_text_def socket_addr_def endpoint_from_def)
qed

text \<open>Two identifiers are distinct whenever the eight random bytes read for them are.\<close>

lemma hex2_inject: "hex2 b = hex2 c \<longleftrightarrow> b = c"
proof
  assume same: "hex2 b = hex2 c"
  have "decode_byte_string (backslash # CHR ''x'' # hex2 x) = Inr [x]" for x
    using decode_hex_escape [of x "[]"] by simp
  from this [of b] this [of c] same show "b = c" by simp
qed simp

lemma hex_text_inject: "concat (map hex2 bs) = concat (map hex2 cs) \<longleftrightarrow> bs = cs"
proof (induction bs arbitrary: cs)
  case Nil
  then show ?case by (cases cs) (auto simp: hex2_def)
next
  case (Cons b bs)
  have "hex2 b \<noteq> []" by (simp add: hex2_def)
  with Cons hex2_inject show ?case by (cases cs) (auto simp: append_eq_append_conv)
qed

lemma hex_text_digits: "c \<in> set (concat (map hex2 bs)) \<Longrightarrow> to_digit16 c \<noteq> None"
  by (auto simp: hex2_def byte_nibble)

lemma ids_test_passes:
  assumes "length random = 8" "length random' = 8" "random \<noteq> random'"
  shows "ids_are_distinct_hex random random'"
proof -
  have "length (concat (map hex2 random)) = 16"
    using assms(1) by (simp add: length_concat comp_def sum_list_triv)
  with assms(3) hex_text_digits show ?thesis
    by (auto simp: ids_are_distinct_hex_def new_id_def hex_text_inject list_all_iff simp del: length_concat set_concat)
qed

subsection \<open>The command line\<close>

definition flags_replace_environment_test :: bool where
  "flags_replace_environment_test =
     (service_dirs (map components [''flag-a'', ''flag-b'']) (Some ''env-a:env-b'') None
        = map components [''flag-a'', ''flag-b''])"

definition socket_flag_replaces_environment :: bool where
  "socket_flag_replaces_environment =
     (let path = (\<lambda>flag environment. socket_path flag environment None (components ''/tmp'') 1000) in
      path (Some (components ''flag.sock'')) (Some ''env.sock'') = components ''flag.sock''
      \<and> path None (Some ''env.sock'') = components ''env.sock''
      \<and> ends_with (path None None) ''serve.sock'')"

definition environment_replaces_defaults_and_splits_paths :: bool where
  "environment_replaces_defaults_and_splits_paths =
     (let directories = service_dirs [] (Some ''env-a:env-b'') (Some ''/home/u'') in
      directories = map components [''env-a'', ''env-b'']
      \<and> list_all (\<lambda>p. p \<noteq> hd SYSTEM_DEFAULTS) directories)"

subsection \<open>Titles\<close>

definition the_buffer_is_labelled_and_full_length :: bool where
  "the_buffer_is_labelled_and_full_length =
     (length BUFFER_ARG = BUFFER_LEN
      \<and> (case split_on (CHR ''='') BUFFER_ARG of
           [flag, val] \<Rightarrow>
             flag = BUFFER_FLAG \<and> prefix ''_SERVICECACHE_NAME_BUFFER___'' val
             \<and> list_all (\<lambda>c. c = CHR ''_'' \<or> 65 \<le> (of_char c :: nat) \<and> (of_char c :: nat) \<le> 90) val
         | _ \<Rightarrow> False))"

definition titles_read_as_role_service_recipe_and_state :: bool where
  "titles_read_as_role_service_recipe_and_state =
     (let endpoint = \<lparr>sa_ip = LOCALHOST, sa_port = 46051\<rparr>;
          digest = [0xFA, 0x9B, 0x30, 0xBC] @ replicate 28 0xFF;
          title = render ''exampledb'' ''1.2.3''
      in title None Starting = ''servicecache instance exampledb@1.2.3 starting''
         \<and> title None (Serving endpoint) = ''servicecache instance exampledb@1.2.3 listening on 127.0.0.1:46051''
         \<and> title (Some digest) (Serving endpoint)
             = ''servicecache instance exampledb@1.2.3 recipe fa9b30bc listening on 127.0.0.1:46051''
         \<and> title (Some digest) TitleFrozen = ''servicecache template exampledb@1.2.3 recipe fa9b30bc'')"

subsection \<open>Module paths\<close>

definition mounted_modules_resolve_to_their_guest_path :: bool where
  "mounted_modules_resolve_to_their_guest_path =
     (let mounts = [(components ''/service'', components ''/packages/exampledb-1'')] in
      guest_visible_path mounts (components ''/packages/exampledb-1/server.wasm'') = Some ''/service/server.wasm''
      \<and> guest_visible_path mounts (components ''/elsewhere/tool.wasm'') = None)"

subsection \<open>The readiness probe\<close>

text \<open>One connection of a canned server: its response, then the end of the stream.\<close>

definition serve_one :: "byte list \<Rightarrow> read_result list" where
  "serve_one response = [Read response, Read []]"

definition ping_probe :: ready_probe where
  "ping_probe = \<lparr>rp_send = 0 # text_bytes ''ping'', rp_matches = the (test_regex OK_PATTERN)\<rparr>"

definition attempt_matches_only_the_serving_response :: bool where
  "attempt_matches_only_the_serving_response =
     ((case attempt (Inr ()) (Inr ()) (serve_one (text_bytes ''no'' @ [0] @ text_bytes ''starting up'' @ [0])) ping_probe of
         Inl (Unmatched _ _ shown) \<Rightarrow>
           contains_text shown (''no'' @ [backslash] @ ''x00starting up'' @ [backslash] @ ''x00'')
       | _ \<Rightarrow> False)
      \<and> attempt (Inr ()) (Inr ()) (serve_one (text_bytes ''ok'' @ [0] @ text_bytes ''v1'')) ping_probe = Inr ())"

definition an_empty_probe_matches_a_server_that_speaks_first :: bool where
  "an_empty_probe_matches_a_server_that_speaks_first =
     (attempt (Inr ()) (Inr ()) (serve_one ([0x0A, 0x80, 0x02] @ text_bytes ''server hello'' @ [0]))
        \<lparr>rp_send = [], rp_matches = the (test_regex GREETING_PATTERN)\<rparr> = Inr ())"

subsection \<open>Timers\<close>

text \<open>
  A timer of five milliseconds, polled every twenty at most: the loop ends within the second.
  \<open>fires\<close> is tokio's answer.
\<close>

fun poll_until ::
  "(timer \<Rightarrow> instant \<Rightarrow> bool) \<Rightarrow> task_manager \<Rightarrow> instant list \<Rightarrow> fork_aware_sleep \<Rightarrow> instant option" where
  "poll_until fires tk [] sleep = None"
| "poll_until fires tk (now # nows) sleep =
     (case poll_sleep fires tk now sleep of
        (is_ready, sleep', _) \<Rightarrow> if is_ready then Some now else poll_until fires tk nows sleep')"

definition a_timer_is_polled_outside_the_tokio_runtime :: "(timer \<Rightarrow> instant \<Rightarrow> bool) \<Rightarrow> bool" where
  "a_timer_is_polled_outside_the_tokio_runtime fires =
     (let tasks = new_task_manager 1; sleep = sleep_now 0 (SECOND div 200) tasks in
      case poll_until fires tasks [0, SECOND div 50, 2 * SECOND div 50] sleep of
        Some now \<Rightarrow> now < SECOND | None \<Rightarrow> False)"

lemma timer_test_passes:
  assumes "tokio_sleep 1 fires"
  shows "a_timer_is_polled_outside_the_tokio_runtime fires"
proof -
  let ?t = "\<lparr>tm_runtime = 1, tm_deadline = SECOND div 200\<rparr>"
  have "fires ?t now \<longrightarrow> SECOND div 200 \<le> now" "SECOND div 200 + SECOND div 1000 \<le> now \<longrightarrow> fires ?t now" for now
    using assms unfolding tokio_sleep_def by (metis timer.select_convs)+
  from this(1) [of 0] this(2) [of "SECOND div 50"] have "\<not> fires ?t 0" "fires ?t (SECOND div 50)"
    by (simp_all add: SECOND_def)
  then show ?thesis
    by (simp add: a_timer_is_polled_outside_the_tokio_runtime_def new_task_manager_def sleep_now_def
        poll_sleep_def arm_timer_def Let_def SECOND_def)
qed

subsection \<open>The control channel\<close>

text \<open>
  Descriptors 3 and 4 are the two ends \<open>x\<close> and \<open>y\<close> of a second pair: what is sent on \<open>y\<close> is
  what a descriptor of \<open>x\<close> has to read, and nothing else has been sent on either.
\<close>

definition frozen_enc :: "reply \<Rightarrow> byte list option" where
  "frozen_enc r = (if r = Frozen 3 then Some [1] else None)"

definition frozen_dec :: "byte list \<Rightarrow> reply option" where
  "frozen_dec json = (if json = [1] then Some (Frozen 3) else None)"

definition sent_through_received :: "fd list \<Rightarrow> bool" where
  "sent_through_received fds =
     (case (fds, send frozen_enc slow_kernel (Frozen 3) [] []) of
        (received_x # _, (inner, Inr _)) \<Rightarrow>
          (case recv frozen_dec slow_kernel (if received_x = 3 then inner else []) of
             Inr (Some frame, _) \<Rightarrow> fr_message frame = Frozen 3 | _ \<Rightarrow> False)
      | _ \<Rightarrow> False)"

definition frames_round_trip_with_payload_and_descriptors :: bool where
  "frames_round_trip_with_payload_and_descriptors =
     (case (send one_byte_enc slow_kernel RqInitialize (text_bytes ''recipe bytes'') [3, 4],
            send one_byte_enc slow_kernel RqStop [] []) of
        ((wire, Inr _), (wire', Inr _)) \<Rightarrow>
          (case recv one_byte_dec slow_kernel (wire @ wire') of
             Inr (Some frame, q) \<Rightarrow>
               fr_message frame = RqInitialize \<and> fr_payload frame = text_bytes ''recipe bytes''
               \<and> length (fr_fds frame) = 2 \<and> sent_through_received (fr_fds frame)
               \<and> (case recv one_byte_dec slow_kernel q of
                    Inr (Some frame', q') \<Rightarrow>
                      fr_message frame' = RqStop \<and> fr_fds frame' = []
                      \<and> recv one_byte_dec slow_kernel q' = Inr (None, [])
                  | _ \<Rightarrow> False)
           | _ \<Rightarrow> False)
      | _ \<Rightarrow> False)"

definition wait_readable_times_out_and_wakes :: bool where
  "wait_readable_times_out_and_wakes =
     (fst (wait_readable (Some (SECOND div 100)) [(PollCount 0, SECOND div 100)]) = Some (Inr False)
      \<and> fst (wait_readable (Some (5 * SECOND)) [(PollCount 1, 0)]) = Some (Inr True))"

lemma component_tests_pass:
  flags_replace_environment_test socket_flag_replaces_environment environment_replaces_defaults_and_splits_paths
  mounted_modules_resolve_to_their_guest_path
  attempt_matches_only_the_serving_response an_empty_probe_matches_a_server_that_speaks_first
  wait_readable_times_out_and_wakes
  by code_simp+

lemma titles_test_passes: titles_read_as_role_service_recipe_and_state
  by (simp add: titles_read_as_role_service_recipe_and_state_def render_def show_addr_def show_ip_def show_port_def
      LOCALHOST_def show_nat.simps hex2_def hex_digit_def char_of_def bit_0 Let_def)

lemma received_descriptor_is_the_socket: "sent_through_received [3, 4]"
proof -
  note enc = frozen_enc_def frozen_dec_def MAX_JSON_LEN_def MAX_PAYLOAD_LEN_def MAX_FDS_def
  obtain bs where bs: "encode_frame [1] [] = Inr bs" by (simp add: encode_frame_Inr)
  have "send frozen_enc slow_kernel (Frozen 3) [] [] = (attach [] bs, Inr ())"
    by (rule send_delivers [OF _ _ bs]) (simp_all add: enc)
  moreover have "recv frozen_dec slow_kernel (attach [] bs @ []) =
      Inr (Some \<lparr>fr_message = Frozen 3, fr_payload = [], fr_fds = []\<rparr>, [])"
    by (rule recv_frame [OF _ _ bs]) (simp_all add: enc)
  ultimately show ?thesis by (simp add: sent_through_received_def)
qed

lemma frames_test_passes: frames_round_trip_with_payload_and_descriptors
proof -
  note enc = one_byte_enc_def one_byte_dec_def MAX_JSON_LEN_def MAX_PAYLOAD_LEN_def MAX_FDS_def text_bytes_def
  obtain bs where bs: "encode_frame [2] (text_bytes ''recipe bytes'') = Inr bs"
    by (simp add: encode_frame_Inr text_bytes_def)
  obtain bs' where bs': "encode_frame [5] [] = Inr bs'" by (simp add: encode_frame_Inr)
  have "send one_byte_enc slow_kernel RqInitialize (text_bytes ''recipe bytes'') [3, 4] = (attach [3, 4] bs, Inr ())"
    by (rule send_delivers [OF _ _ bs]) (simp_all add: enc)
  moreover have "send one_byte_enc slow_kernel RqStop [] [] = (attach [] bs', Inr ())"
    by (rule send_delivers [OF _ _ bs']) (simp_all add: enc)
  moreover have "recv one_byte_dec slow_kernel (attach [3, 4] bs @ rest) =
      Inr (Some \<lparr>fr_message = RqInitialize, fr_payload = text_bytes ''recipe bytes'', fr_fds = [3, 4]\<rparr>, rest)" for rest
    by (rule recv_frame [OF _ _ bs]) (simp_all add: enc)
  moreover have "recv one_byte_dec slow_kernel (attach [] bs' @ []) =
      Inr (Some \<lparr>fr_message = RqStop, fr_payload = [], fr_fds = []\<rparr>, [])"
    by (rule recv_frame [OF _ _ bs']) (simp_all add: enc)
  moreover have "recv one_byte_dec slow_kernel [] = Inr (None, [])"
    using recv_header_short [of slow_kernel "[]" "[]" 0 "[]"] by (simp add: recv_def HEADER_LEN_def wire_fds_def)
  ultimately show ?thesis
    by (simp add: frames_round_trip_with_payload_and_descriptors_def received_descriptor_is_the_socket)
qed

lemma buffer_test_passes: the_buffer_is_labelled_and_full_length
  by code_simp

end
