(* ===== verification/Spec2Isabelle.thy ===== *)
theory Spec2Isabelle
  imports Probe GuestSockets Compaction Threads Http Commands Fleet Wire UnitTests
begin

text \<open>
  A verification development for ServiceCache (\<open>src/crates/servicecache\<close>), the manager of
  disposable test services. A service is a WebAssembly module in a package with a manifest.
  The manager runs each in a host process of its own, brings it up once, freezes it, and then
  forks the frozen host for every instance a test asks for.

  \<^bold>\<open>The parts and how they meet.\<close> A command (\<open>cli.rs\<close>) either runs one service
  itself or talks to a serving manager over HTTP (\<open>serve/client.rs\<close> to \<open>serve/mod.rs\<close>). The
  server finds the service's manifest among the installed packages (\<open>discovery.rs\<close>,
  \<open>manifest.rs\<close>), reads the recipe the request names (\<open>serve/recipes.rs\<close>), obtains a template
  from a pool (\<open>serve/templates.rs\<close>), forks it, and registers the clone under a lease
  (\<open>serve/instances.rs\<close>). A template and an instance are handles on host processes
  (\<open>manager.rs\<close>), which it spawns by running itself again and with which it exchanges frames over a socket
  (\<open>host/protocol.rs\<close>). The host (\<open>host/mod.rs\<close>) runs the guest on a network it controls
  (\<open>host/net.rs\<close>), probes it for readiness (\<open>host/probe.rs\<close>), freezes and forks itself
  (\<open>host/freeze.rs\<close>), gives back the zero pages of a frozen guest (same file) and shows its
  state in the process title (\<open>host/title.rs\<close>). The guest's threads and timers go through a task
  manager that outlives forks (\<open>host/tasks.rs\<close>), its modules and files through the guest runtime
  (\<open>host/guest.rs\<close>, \<open>runtime.rs\<close>). Compiled modules are shared between processes in a cache
  (\<open>cache.rs\<close>); every process logs by its manager's directives (\<open>logging.rs\<close>).

  \<^bold>\<open>Conventions.\<close> A struct is a record, an enum a datatype with the source's
  constructors, \<open>Result\<close> is the sum type with \<open>Inl\<close> for \<open>Err\<close>. State is passed
  explicitly. What the operating system, the clock, Wasmer, serde or SHA-256 answer is an
  argument: a value, a function, a record of answers (\<open>observation\<close>, \<open>bring_up\<close>,
  \<open>create_env\<close>, \<open>vm_calls\<close>, \<open>compiler\<close>) or a list of them in the order they come. Strings are
  lists of characters, paths lists of components, bytes \<open>8 word\<close>, instants and durations
  nanoseconds as integers. A \<open>HashMap\<close> or \<open>BTreeMap\<close> is an association list, unordered or
  sorted, behind the locales of \<open>Stores\<close>.

  \<^bold>\<open>The theories.\<close>

  \<^item> \<open>Prelude\<close>, \<open>Paths\<close>, \<open>Stores\<close>, \<open>Sockets\<close>: results and formatting; paths as they are printed
    and read, files and canonical names; the map locales \<open>map_store\<close> and \<open>iterable_store\<close> with their
    interpretations \<open>hash\<close> and \<open>btree\<close>; socket addresses as printed and read.
  \<^item> \<open>Machines\<close>: the locale \<open>machine\<close> of states reached by steps, with invariants and runs, and
    \<open>refinement\<close> between two of them. The pool, the cache, the guest process, the servers and the
    fleet of templates below are its interpretations \<open>pool\<close>, \<open>shared\<close>, \<open>line\<close>, \<open>serial\<close> and \<open>flt\<close>.
  \<^item> \<open>Protocol\<close> (\<open>host/protocol.rs\<close>): \<open>Channel::send\<close> and \<open>recv\<close> over a kernel that splits
    transfers, and the wait for a frame. A frame that was sent is received as it was, one cut short
    or oversized is refused.
  \<^item> \<open>Manifest\<close>, \<open>Discovery\<close>: loading a package accepts exactly the valid ones and
    never leaves the package; discovery lets the first of several packages win and loses none;
    selection is exact.
  \<^item> \<open>Probe\<close>, \<open>Networking\<close>, \<open>GuestSockets\<close>, \<open>Title\<close>: an attempt succeeds exactly when the expected
    bytes arrive within the cap; the guest listens only on passed sockets, and a freeze shuts
    down exactly the streams it holds, however accepts and drops were interleaved (\<open>net_step\<close>);
    the sockets the guest holds answer as the kernel's do; a title stays within its buffer.
  \<^item> \<open>HostState\<close>, \<open>Freeze\<close>, \<open>Host\<close>, \<open>HostLoop\<close>: the host process. \<open>serve_round\<close> is one turn of
    \<open>Host::serve\<close>, with the waits inside a handler consuming further observations; the inductive
    \<open>hosts\<close> is what any number of turns and forks reach. Every request is answered once, runs are
    in order, a frozen host accepts only fork and stop, ready and frozen mean what they say, and
    the two sides of a fork agree.
  \<^item> \<open>Threads\<close>, \<open>HostRun\<close>: the wait for the last threads of a freeze by the clock, which ends; a
    host from its arguments to its control loop, and the pipe that wakes the loop.
  \<^item> \<open>Compaction\<close>, \<open>Smaps\<close>: the zero-page scan over a memory of bytes, and the readings of
    \<open>/proc\<close> it uses. No byte the guest can read changes, the scan ends, and every resident zero
    page of the scanned ranges is released but those of blocks kept whole.
  \<^item> \<open>Manager\<close>, \<open>Owner\<close>, \<open>Templates\<close>: handles on hosts, the owner thread of a template
    (\<open>owner_step\<close>, reachable states \<open>owners\<close>) and the pool (\<open>pool_step\<close>, reachable states
    \<open>pools\<close>, every interleaving of requests with expiry, forget, clear and prune). A template
    in use does not expire, one unused does; a live template is not lost and not filled twice;
    the sequential \<open>acquire\<close> is one run of the steps.
  \<^item> \<open>Fleet\<close>: the pool and one owner per template together, with the handles and commands between
    them and the clones as processes (\<open>fleet_step\<close>, reachable states \<open>fleets\<close>). It refines the
    pool; a template expires only when every clone it forked has exited, and no template is
    dropped while no key is forgotten.
  \<^item> \<open>Wire\<close>: the replies of a host as bytes on its channel and the inbox its manager reads from
    them: a prefix of the replies, wherever the bytes end.
  \<^item> \<open>Api\<close>, \<open>Recipes\<close>, \<open>Instances\<close>, \<open>Serve\<close>, \<open>Client\<close>: the bodies and problems, the
    confinement of recipe files to their roots, the registry as a refinement of a finite map, the
    watcher of an instance, every handler (\<open>app_step\<close>), the client's requests and the routes.
    A creation registers exactly the instance it answers with or changes nothing of the registry;
    an instance lives out its lease.
  \<^item> \<open>Servers\<close>: \<open>run\<close> of the server from the claim of its socket to its end, and servers that start,
    stop and die on one path (\<open>server_step\<close>, reachable states \<open>servers\<close>): who serves owns the
    socket, where no two start or stop at once.
  \<^item> \<open>Http\<close>: a request through its route to a handler and the answer back. Every answer is one
    the interface documents, and the client's value is the handler's result.
  \<^item> \<open>Tasks\<close> (\<open>host/tasks.rs\<close>): the task manager, its count of tasks and its sleeps, and a guest
    process that sleeps, spawns, freezes and forks in any order (\<open>task_step\<close>, reachable states
    \<open>processes\<close>). A sleep armed before a fork fires in the child on the child's runtime, and a
    freeze leaves behind no task but one spawned after the count was read.
  \<^item> \<open>Runtime\<close>, \<open>Guest\<close> (\<open>runtime.rs\<close>, \<open>host/guest.rs\<close>): the read-only mounts, a module run to
    its end, the modules a host keeps and the start of a guest run. No call through a mount
    changes the host's files; a kept module is what loading it again would give.
  \<^item> \<open>Cache\<close>, \<open>Cli\<close>: the module cache under processes that compile, write, rename, fail
    and die in any order (\<open>cache_step\<close>, reachable states \<open>caches\<close>): what a process loads is what
    compiling gives; the commands \<open>run\<close>, \<open>request\<close>, \<open>services\<close>: a held instance survives.
  \<^item> \<open>Logging\<close>, \<open>Commands\<close>: the log directives; the arguments and \<open>run_with\<close>. Flags replace the
    environment, and a spawned host loads the manifest its manager selected, with the same cache
    and log, whatever its own environment.
  \<^item> \<open>Packages\<close>, \<open>UnitTests\<close>: the unit tests of the repository as definitions over the model, by
    the names they have there, each proved to pass; those of packages run on a file system of
    files, directories and symbolic links.
  \<^item> This theory: a start and a fork carried from the host, through its replies, to the handle
    the manager keeps, and a fork carried further, through the owner, the server and the client,
    to the endpoint a user is given.

  \<^bold>\<open>Bounds.\<close> Two functions run on fuel. \<open>recv_rounds\<close> (\<open>Wire\<close>) has one
  round more than there are bytes, and a frame has at least one; \<open>realpath\<close> (\<open>Packages\<close>) walks at
  most 64 components and links, more than any path of the tests has. A loop over what arrives is a recursion on the
  list of what arrives: a run that ends while the program would still wait is the value
  \<open>Waiting\<close> of the host, \<open>None\<close> of \<open>hold_instance\<close>, \<open>CloneOn\<close> of \<open>run_with_clones\<close>. A slice of
  the scan is given as the number of blocks its time budget allowed; \<open>compaction_terminates\<close>
  holds whatever these numbers are, once they add up to the number of pages.

  \<^bold>\<open>What modelling showed.\<close> These lemmas exhibit runs in which the code does not do what it or
  its comments say: \<open>inline_recipe_unbounded\<close> and \<open>renewal_overtaken_by_sweep\<close> (\<open>Serve\<close>),
  \<open>exit_during_fork_is_lost\<close> and \<open>lines_postpone_renewal\<close> (\<open>Cli\<close>),
  \<open>forget_allows_a_second_fill\<close> (\<open>Templates\<close>), \<open>late_forget_takes_the_clone\<close> and
  \<open>failed_bind_takes_every_clone\<close> (\<open>Fleet\<close>), \<open>late_task_is_lost\<close> and \<open>panic_blocks_freeze\<close>
  (\<open>Tasks\<close>), \<open>losing_bind_unlinks_the_winner\<close> and \<open>leaving_server_unlinks_its_successor\<close>
  (\<open>Servers\<close>), \<open>interruptions_prolong_the_wait\<close> (\<open>Protocol\<close>).

  \<^bold>\<open>Not modelled.\<close> Wasmer itself (its compiler, its WASIX environment, its file systems, its local
  sockets and the patches to it), tokio, axum and hyper, serde, clap and the filter of tracing:
  what they answer is an argument, and what is relied on of them a named hypothesis
  (\<open>tokio_sleep\<close>, \<open>reads_leave\<close>, \<open>codecs_ok\<close>, \<open>clap_host\<close>, \<open>codec_ok\<close>). The OpenAPI document has no
  effect on any state. Of the unit tests, those of third-party code alone are left out: base64, TOML
  keys, the directives as tracing parses them, the in-memory file system, and addresses of IPv6,
  which the model of socket addresses does not have; and the search of the test process's own
  argument memory. Descriptors are numbers: that each is closed once is Rust's ownership, not
  a theorem here. The services and the toolchain are other programs.
\<close>

subsection \<open>The manager and its hosts together\<close>

text \<open>A manager's handle on host 7, and what the frozen host of \<open>demo_frozen\<close> is asked.\<close>

definition demo_template :: host_process where
  "demo_template = \<lparr>hp_pid = 7, hp_inbox = [Message (Exited RunChild 0 (Some 6)), Message (Forked 8 (show_addr demo_addr))],
     hp_child = True, hp_events = [], hp_endpoint = Some demo_addr, hp_outbox = []\<rparr>"

lemma fork_reaches_the_handle:
  assumes "hosts env ch h" "h_phase h = PhaseFrozen" "nw_adopted (h_networking h) \<noteq> None"
    and "h_sends_left h = None" "he_local_addr env listener = Inr addr"
    and "host_fork env ch [control, listener] (ob\<lparr>ob_fork := ForkParent pid\<rparr>) h = (r, h1)"
    and "host_fork env ch [control, listener] (ob\<lparr>ob_fork := ForkChild pid rebuilt\<rparr>) h = (r', h2)"
    and "forked_reply (h_pid h2) h2 = Inr announcement"
    and "list_all is_child_exit notices"
    and "hp_inbox hp = map Message notices @ map (\<lambda>(_, m). Message m) (drop (length (h_sent h)) (h_sent h1)) @ later"
  shows "\<exists>clone hp'. hp_fork (Inr control) (Inr listener) (Inr ()) [Message announcement] hp = (Inr (clone, addr), hp')
    \<and> hp_pid clone = h_pid h2 \<and> hp_endpoint clone = Some addr \<and> endpoint (h_networking h2) = Inr addr
    \<and> h_phase h2 = Running True \<and> hp_events hp' = hp_events hp @ notices \<and> hp_inbox hp' = later"
proof -
  note both = host_fork_both [OF assms(1-5), of control pid ob]
  have h1: "drop (length (h_sent h)) (h_sent h1) = [(ch, Forked pid (show_addr addr))]"
    using both(1) assms(6) by auto
  have h2: "h_pid h2 = pid" "endpoint (h_networking h2) = Inr addr" "h_phase h2 = Running True"
    "announcement = Forked pid (show_addr addr)"
    using both(2) assms(7,8) by auto
  let ?hp = "hp\<lparr>hp_outbox := hp_outbox hp @ [(RqFork, [], [control, listener])]\<rparr>"
  have "next_reply ?hp = (Inr (Forked pid (show_addr addr)), ?hp\<lparr>hp_inbox := later, hp_events := hp_events hp @ notices\<rparr>)"
    using next_reply_skips [OF assms(9), of ?hp "Forked pid (show_addr addr)" later] assms(10)
    by (simp add: h1 is_child_exit_def)
  then show ?thesis
    using h2 by (auto simp: hp_fork_def request_host_def host_process.defs) (simp add: next_reply_def)
qed

text \<open>
  A fork means the same to both sides. When a frozen host forks, and its manager reads
  what the host sent in answer, after any notices of clones that exited, and then what the
  child announces on its own channel, the manager's new handle names the child's process and
  the address the child serves on; the notices are kept and nothing else is read.
\<close>

theorem fork_reaches_the_manager:
  assumes "hosts env ch h" "h_phase h = PhaseFrozen" "nw_adopted (h_networking h) \<noteq> None"
    and "h_sends_left h = None" "he_local_addr env listener = Inr addr"
    and "host_fork env ch [control, listener] (ob\<lparr>ob_fork := ForkParent pid\<rparr>) h = (r, h1)"
    and "host_fork env ch [control, listener] (ob\<lparr>ob_fork := ForkChild pid rebuilt\<rparr>) h = (r', h2)"
    and "forked_reply (h_pid h2) h2 = Inr announcement"
    and "list_all is_child_exit notices"
    and "hp_inbox hp = map Message notices @ map (\<lambda>(_, m). Message m) (drop (length (h_sent h)) (h_sent h1)) @ later"
  shows "\<exists>clone hp'. hp_fork (Inr control) (Inr listener) (Inr ()) [Message announcement] hp = (Inr (clone, addr), hp')
    \<and> hp_pid clone = h_pid h2 \<and> hp_endpoint clone = Some addr \<and> endpoint (h_networking h2) = Inr addr
    \<and> h_phase h2 = Running True \<and> hp_events hp' = hp_events hp @ notices \<and> hp_inbox hp' = later"
  by (rule fork_reaches_the_handle [OF assms])

theorem fork_reaches_the_manager_witness:
  "\<exists>clone hp'. hp_fork (Inr 4) (Inr 6) (Inr ()) [Message (Forked 8 (show_addr demo_addr))] demo_template
       = (Inr (clone, demo_addr), hp')
     \<and> hp_pid clone = 8 \<and> hp_events hp' = [Exited RunChild 0 (Some 6)] \<and> hp_inbox hp' = []"
proof -
  have local: "he_local_addr demo_env 6 = Inr demo_addr" by (simp add: demo_env_def)
  note both = host_fork_both [OF demo_hosts(2) demo_frozen_facts(1,3,2) local, of 4 8 demo_ob]
  from both(2) obtain h2 where h2:
    "host_fork demo_env 3 [4, 6] (demo_ob\<lparr>ob_fork := ForkChild 8 rebuilt\<rparr>) demo_frozen = (Inr (Child 4), h2)"
    "h_pid h2 = 8" "forked_reply (h_pid h2) h2 = Inr (Forked 8 (show_addr demo_addr))" by blast
  have "list_all is_child_exit [Exited RunChild 0 (Some 6)]" by (simp add: is_child_exit_def)
  from fork_reaches_the_manager [OF demo_hosts(2) demo_frozen_facts(1,3,2) local both(1) h2(1,3) this,
      of demo_template "[]"] h2(2)
  show ?thesis by (simp add: demo_template_def) blast
qed

lemma start_loop_reply:
  "start_loop ch obs h = (Inr (Some m), h', obs') \<Longrightarrow>
     (\<exists>t. m = Ready t) \<or> (\<exists>status. m = Exited RunGuest status None)"
proof (induction obs arbitrary: h)
  case (Cons ob obs)
  have ready: "heed_events ob ev h2 = (Inl (Inr (Some m)), h3) \<Longrightarrow> \<exists>t. m = Ready t" for ev h2 h3
    by (auto simp: heed_events_def become_ready_def ready_reply_def Let_def
        split: if_splits option.splits sum.splits prod.splits)
  show ?case
    using Cons.prems
    by (auto split: prod.splits sum.splits option.splits if_splits bool.splits dest!: Cons.IH ready)
qed simp



subsection \<open>From a clone to the user\<close>

lemma created_endpoint:
  assumes "create_instance env body app = (Inr (location, described), app')"
    and "at_fork (ce_first env) = (True, Some (Inr (host, ep)))"
  shows "socket_addr (ai_endpoint described) = Some ep"
  using assms
  by (auto simp: create_instance_def fork_instance_def template_fork_def adopt_def describe_def Let_def
      split: sum.splits prod.splits option.splits guest_state.splits)

lemma requested_endpoint:
  assumes "request_instance (Inr described) polls deleted = (r, printed)" "socket_addr (ai_endpoint described) = Some ep"
  shows "printed = Some ep"
  using assms by (auto simp: request_instance_def split: option.splits sum.splits hold_end.splits)

text \<open>
  C6: the endpoint a user is given is where the clone serves. A frozen host forks; its manager's
  owner thread reads the reply and answers the request with the clone; the server registers
  it and answers; the client reads the answer, and \<open>request\<close> prints an endpoint. That endpoint
  is the address of the listening socket of the clone's guest, which is running.
\<close>

theorem requested_endpoint_is_the_clones:
  assumes "hosts env ch h" "h_phase h = PhaseFrozen" "nw_adopted (h_networking h) \<noteq> None"
    and "h_sends_left h = None" "he_local_addr env listener = Inr addr"
    and "host_fork env ch [control, listener] (ob\<lparr>ob_fork := ForkParent pid\<rparr>) h = (r, h1)"
    and "host_fork env ch [control, listener] (ob\<lparr>ob_fork := ForkChild pid rebuilt\<rparr>) h = (r', h2)"
    and "forked_reply (h_pid h2) h2 = Inr announcement" "list_all is_child_exit notices"
    and "hp_inbox (ow_host ow) = map Message notices @ map (\<lambda>(_, m). Message m) (drop (length (h_sent h)) (h_sent h1)) @ later"
    and "fi_pair fi = Inr control" "fi_bound fi = Inr listener" "fi_sent fi = Inr ()" "fi_child_inbox fi = [Message announcement]"
    and "serve_fork fi now ow = Serve ow'" "at_fork (ce_first (ht_create server)) = (True, Some (last (ow_replies ow')))"
    and "codecs_ok (ht_codecs server)" "length (to_json (create_body encode service recipe)) \<le> MAX_BODY"
    and "call_json server (cd_instance_in (ht_codecs server)) 201 (client_create to_json (create_body encode service recipe)) app
      = (Inr described, app')"
    and "request_instance (Inr described) polls deleted = (outcome, printed)"
  shows "printed = Some addr \<and> endpoint (h_networking h2) = Inr addr \<and> h_phase h2 = Running True"
proof -
  obtain clone hp' where fork: "hp_fork (Inr control) (Inr listener) (Inr ()) [Message announcement] (ow_host ow) = (Inr (clone, addr), hp')"
    and h2: "endpoint (h_networking h2) = Inr addr" "h_phase h2 = Running True"
    using fork_reaches_the_handle [OF assms(1-10)] by blast
  have "last (ow_replies ow') = Inr (clone, addr)"
    using assms(15) fork by (auto simp: serve_fork_def assms(11-14) Let_def split: prod.splits)
  moreover obtain location where "create_instance (ht_create server) (to_json (create_body encode service recipe)) app
      = (Inr (location, described), app')"
    using assms(19) call_create [of server to_json "create_body encode service recipe" app, OF assms(17,18)]
    by (cases "create_instance (ht_create server) (to_json (create_body encode service recipe)) app")
      (auto simp: as_client_def map_sum_def split: sum.splits)
  ultimately have "socket_addr (ai_endpoint described) = Some addr"
    using created_endpoint assms(16) by metis
  with requested_endpoint [OF assms(20)] h2 show ?thesis by blast
qed

text \<open>The owner of \<open>demo_template\<close>, the fork it is asked for, and a server that waits for its reply.\<close>

definition demo_keeper :: owner where
  "demo_keeper =
     \<lparr>ow_host = demo_template, ow_children = 1, ow_idle_since = 0, ow_alive = True, ow_forked = [6], ow_exited = [],
      ow_replies = []\<rparr>"

definition demo_asked :: fork_input where
  "demo_asked =
     \<lparr>fi_arrived = [], fi_pair = Inr 4, fi_bound = Inr 6, fi_sent = Inr (),
      fi_child_inbox = [Message (Forked 8 (show_addr demo_addr))]\<rparr>"

definition demo_kept :: owner where
  "demo_kept = (case serve_fork demo_asked 0 demo_keeper of Serve ow \<Rightarrow> ow | Over _ ow \<Rightarrow> ow)"

definition demo_server :: http_env where
  "demo_server = demo_http\<lparr>ht_codecs := demo_codecs,
     ht_create := demo_create\<lparr>ce_first := demo_attempt\<lparr>at_fork := (True, Some (last (ow_replies demo_kept)))\<rparr>\<rparr>\<rparr>"

lemma demo_kept_replies:
  "serve_fork demo_asked 0 demo_keeper = Serve demo_kept" "\<exists>clone. last (ow_replies demo_kept) = Inr (clone, demo_addr)"
proof -
  obtain clone hp' where "hp_fork (Inr 4) (Inr 6) (Inr ()) [Message (Forked 8 (show_addr demo_addr))] demo_template
      = (Inr (clone, demo_addr), hp')"
    by (auto simp: hp_fork_def request_host_def next_reply_def demo_template_def)
  then have "\<exists>ow. serve_fork demo_asked 0 demo_keeper = Serve ow \<and> last (ow_replies ow) = Inr (clone, demo_addr)"
    by (simp add: serve_fork_def demo_asked_def demo_keeper_def Let_def split: prod.splits)
  then show "serve_fork demo_asked 0 demo_keeper = Serve demo_kept" "\<exists>clone. last (ow_replies demo_kept) = Inr (clone, demo_addr)"
    by (auto simp: demo_kept_def)
qed

lemma demo_server_creates:
  "\<exists>location described app'. create_instance (ht_create demo_server) [] demo_app = (Inr (location, described), app')"
proof -
  obtain clone where clone: "last (ow_replies demo_kept) = Inr (clone, demo_addr)" using demo_kept_replies(2) by blast
  have "admit (ht_create demo_server) demo_app [] = Inr (60 * SECOND, None, demo_redis, ''0102'')"
    using demo_admit by (simp add: demo_server_def admit_def recipe_bytes_def select_service_def demo_create_def)
  moreover have "fst (fork_instance (ht_create demo_server) demo_redis None new_templates) = Inr (clone, demo_addr)"
    using demo_bring_up_ready
    by (auto simp: fork_instance_def obtain_for_def obtain_template_def acquire_def fill_base_def await_owner_def
        demo_server_def demo_create_def demo_attempt_def demo_redis_def template_fork_def pool_simps isl_def clone
        split: prod.splits sum.splits)
  moreover have "ap_templates demo_app = new_templates" "ce_pipe (ht_create demo_server) = None"
    "ce_thread (ht_create demo_server) = None"
    by (simp_all add: demo_app_def demo_server_def demo_create_def)
  ultimately show ?thesis by (auto simp: create_instance_def adopt_def split: prod.splits sum.splits)
qed

theorem requested_endpoint_is_the_clones_witness:
  "\<exists>described app' outcome.
     call_json demo_server (cd_instance_in demo_codecs) 201 (client_create (\<lambda>_. []) (create_body (\<lambda>_. []) ''redis'' None)) demo_app
       = (Inr described, app')
     \<and> request_instance (Inr described) [] (Inr ()) = (outcome, Some demo_addr)"
proof -
  have local: "he_local_addr demo_env 6 = Inr demo_addr" by (simp add: demo_env_def)
  note both = host_fork_both [OF demo_hosts(2) demo_frozen_facts(1,3,2) local, of 4 8 demo_ob]
  from both(2) obtain h2 where h2:
    "host_fork demo_env 3 [4, 6] (demo_ob\<lparr>ob_fork := ForkChild 8 rebuilt\<rparr>) demo_frozen = (Inr (Child 4), h2)"
    "forked_reply (h_pid h2) h2 = Inr (Forked 8 (show_addr demo_addr))" by blast
  have notices: "list_all is_child_exit [Exited RunChild 0 (Some 6)]" by (simp add: is_child_exit_def)
  have codecs: "codecs_ok (ht_codecs demo_server)" by (simp add: demo_server_def demo_codecs_ok)
  have small: "length ((\<lambda>_. []) (create_body (\<lambda>_. []) ''redis'' None)) \<le> MAX_BODY" by simp
  obtain described app' where call: "call_json demo_server (cd_instance_in (ht_codecs demo_server)) 201
      (client_create (\<lambda>_. []) (create_body (\<lambda>_. []) ''redis'' None)) demo_app = (Inr described, app')"
    using demo_server_creates call_create [of demo_server "\<lambda>_. []" "create_body (\<lambda>_. []) ''redis'' None" demo_app, OF codecs small]
    by auto
  obtain outcome printed where held: "request_instance (Inr described) [] (Inr ()) = (outcome, printed)" by fastforce
  have "at_fork (ce_first (ht_create demo_server)) = (True, Some (last (ow_replies demo_kept)))"
    by (simp add: demo_server_def demo_create_def demo_attempt_def)
  from requested_endpoint_is_the_clones [where to_json = "\<lambda>_. []" and encode = "\<lambda>_. []" and service = "''redis''" and recipe = None,
      OF demo_hosts(2) demo_frozen_facts(1,3,2) local both(1) h2 notices _ _ _ _ _
      demo_kept_replies(1) this codecs small call held, of "[]"] call held
  show ?thesis by (auto simp: demo_keeper_def demo_template_def demo_asked_def demo_server_def)
qed

end
